(* ===== verification/Prelude.thy ===== *)
theory Prelude
  imports Complex_Main "HOL-Library.AList" "HOL-Library.Multiset"
begin

text \<open>
  What every component of the development shares: the result type of a fallible Go
  call, the two shapes of Go error value the program builds, Go's fixed-width integer
  conversions, Go's maps as association lists with distinct keys (with the laws of a
  map as a locale), and the contract of \<^verbatim>\<open>sort.SliceStable\<close>.
\<close>

section \<open>Collections of facts\<close>

named_theorems frame_simps \<open>what an operation leaves unchanged\<close>
named_theorems inv_intros \<open>an operation keeps an invariant\<close>

section \<open>Errors\<close>

text \<open>
  \<open>TypedErr code msg\<close> is a value of one of the program's \<^verbatim>\<open>Error{Code, Msg, Wrapped}\<close>
  structs (packages config, workflow, prompt, tracker, claude); \<open>PlainErr msg\<close> is the
  result of \<^verbatim>\<open>fmt.Errorf\<close> or an error of the standard library, known by its text only.
\<close>

datatype go_error = TypedErr (err_code: string) (err_msg: string) | PlainErr (err_msg: string)

type_synonym 'a result = "go_error + 'a"

fun error_string :: "go_error \<Rightarrow> string" where
  "error_string (TypedErr code msg) = (if msg = [] then code else code @ '': '' @ msg)"
| "error_string (PlainErr msg) = msg"

section \<open>Machine integers\<close>

text \<open>
  Go's \<open>int\<close> and \<open>int64\<close> (64 bits on the released platform) are modelled as \<open>int\<close>;
  \<open>wrap64\<close> reduces the result of an operation that can leave the range, here the
  conversions of configured milliseconds to a \<^verbatim>\<open>time.Duration\<close> of nanoseconds
  and the sums of reported tokens.
\<close>

definition min_int64 :: int where "min_int64 = - (2 ^ 63)"
definition max_int64 :: int where "max_int64 = 2 ^ 63 - 1"

definition wrap64 :: "int \<Rightarrow> int" where
  "wrap64 x = (x + 2 ^ 63) mod 2 ^ 64 - 2 ^ 63"

definition in_int64 :: "int \<Rightarrow> bool" where
  "in_int64 x \<longleftrightarrow> min_int64 \<le> x \<and> x \<le> max_int64"

lemma wrap64_range: "in_int64 (wrap64 x)"
proof -
  have "0 \<le> (x + 2 ^ 63) mod 2 ^ 64" "(x + 2 ^ 63) mod 2 ^ 64 < (2 ^ 64 :: int)"
    by simp_all
  then show ?thesis
    unfolding in_int64_def wrap64_def min_int64_def max_int64_def by simp
qed

lemma wrap64_id: "in_int64 x \<Longrightarrow> wrap64 x = x"
  unfolding in_int64_def wrap64_def min_int64_def max_int64_def by simp

lemma wrap64_add_left [simp]: "wrap64 (wrap64 x + y) = wrap64 (x + y)"
proof -
  have "((x + 2 ^ 63) mod 2 ^ 64 - 2 ^ 63 + y + 2 ^ 63) mod 2 ^ 64 = ((x + 2 ^ 63) mod 2 ^ 64 + y) mod (2 ^ 64 :: int)"
    by simp
  also have "\<dots> = (x + y + 2 ^ 63) mod 2 ^ 64" by (subst mod_add_left_eq) (simp add: ac_simps)
  finally show ?thesis by (simp add: wrap64_def)
qed

lemma wrap64_add_right [simp]: "wrap64 (x + wrap64 y) = wrap64 (x + y)"
  using wrap64_add_left [of y x] by (simp add: add.commute)

lemma wrap64_wrap64 [simp]: "wrap64 (wrap64 x) = wrap64 x"
  by (rule wrap64_id [OF wrap64_range])

lemma wrap64_zero [simp]: "wrap64 0 = 0"
  by (rule wrap64_id) (simp add: in_int64_def min_int64_def max_int64_def)

section \<open>Maps\<close>

text \<open>
  A Go map is an association list with distinct keys. The list's order stands for the
  order in which one \<^verbatim>\<open>range\<close> over the map visits it, which Go leaves unspecified: what
  is proved for every list holds for every visiting order.
\<close>

type_synonym ('k, 'v) gmap = "('k \<times> 'v) list"

definition map_get :: "('k, 'v) gmap \<Rightarrow> 'k \<Rightarrow> 'v option" where
  "map_get m k = map_of m k"

definition map_put :: "'k \<Rightarrow> 'v \<Rightarrow> ('k, 'v) gmap \<Rightarrow> ('k, 'v) gmap" where
  "map_put k v m = AList.update k v m"

definition map_del :: "'k \<Rightarrow> ('k, 'v) gmap \<Rightarrow> ('k, 'v) gmap" where
  "map_del k m = AList.delete k m"

definition map_keys :: "('k, 'v) gmap \<Rightarrow> 'k set" where
  "map_keys m = fst ` set m"

definition map_has :: "('k, 'v) gmap \<Rightarrow> 'k \<Rightarrow> bool" where
  "map_has m k = (map_get m k \<noteq> None)"

definition map_wf :: "('k, 'v) gmap \<Rightarrow> bool" where
  "map_wf m = distinct (map fst m)"

text \<open>The laws of a map, and what follows from them for every client.\<close>

locale map_laws =
  fixes get :: "'m \<Rightarrow> 'k \<Rightarrow> 'v option"
    and put :: "'k \<Rightarrow> 'v \<Rightarrow> 'm \<Rightarrow> 'm"
    and del :: "'k \<Rightarrow> 'm \<Rightarrow> 'm"
    and keys :: "'m \<Rightarrow> 'k set"
    and wf :: "'m \<Rightarrow> bool"
  assumes get_put: "get (put k v m) k' = (if k' = k then Some v else get m k')"
    and get_del: "get (del k m) k' = (if k' = k then None else get m k')"
    and in_keys: "k \<in> keys m \<longleftrightarrow> get m k \<noteq> None"
    and wf_put: "wf m \<Longrightarrow> wf (put k v m)"
    and wf_del: "wf m \<Longrightarrow> wf (del k m)"
begin

lemma keys_put: "keys (put k v m) = insert k (keys m)"
  by (auto simp: in_keys get_put split: if_splits)

lemma keys_del: "keys (del k m) = keys m - {k}"
  by (auto simp: in_keys get_del split: if_splits)

lemma get_put_same: "get (put k v m) k = Some v"
  by (simp add: get_put)

lemma get_None: "get m k = None \<longleftrightarrow> k \<notin> keys m"
  by (simp add: in_keys)

lemma get_SomeD: "get m k = Some v \<Longrightarrow> k \<in> keys m"
  by (simp add: in_keys)

lemma put_forall:
  assumes "\<And>k' w. get m k' = Some w \<Longrightarrow> P k' w" and "P k v"
  shows "get (put k v m) k' = Some w \<Longrightarrow> P k' w"
  using assms by (auto simp: get_put split: if_splits)

lemma del_forall:
  assumes "\<And>k' w. get m k' = Some w \<Longrightarrow> P k' w"
  shows "get (del k m) k' = Some w \<Longrightarrow> P k' w"
  using assms by (auto simp: get_del split: if_splits)

end

interpretation gm: map_laws map_get map_put map_del map_keys map_wf
proof unfold_locales
  show "map_get (map_put k v m) k' = (if k' = k then Some v else map_get m k')"
    for k :: 'a and v :: 'b and m k'
    by (simp add: map_get_def map_put_def update_conv')
  show "map_get (map_del k m) k' = (if k' = k then None else map_get m k')"
    for k :: 'a and m :: "('a \<times> 'b) list" and k'
    by (simp add: map_get_def map_del_def delete_conv')
  show "(k \<in> map_keys m) = (map_get m k \<noteq> None)" for k :: 'a and m :: "('a \<times> 'b) list"
    by (simp add: map_keys_def map_get_def map_of_eq_None_iff)
  show "map_wf m \<Longrightarrow> map_wf (map_put k v m)" for k :: 'a and v :: 'b and m
    by (simp add: map_wf_def map_put_def distinct_update)
  show "map_wf m \<Longrightarrow> map_wf (map_del k m)" for k :: 'a and m :: "('a \<times> 'b) list"
    by (simp add: map_wf_def map_del_def distinct_delete)
qed

lemmas gm_simps [simp] = gm.get_put gm.get_del gm.keys_put gm.keys_del gm.wf_put gm.wf_del

lemma map_has_keys [simp]: "map_has m k \<longleftrightarrow> k \<in> map_keys m"
  by (simp add: map_has_def gm.in_keys)

lemma map_get_Nil [simp]: "map_get [] k = None" and map_keys_Nil [simp]: "map_keys [] = {}"
  and map_wf_Nil [simp]: "map_wf []"
  by (simp_all add: map_get_def map_keys_def map_wf_def)

lemma map_get_Cons: "map_get ((k, v) # m) k' = (if k' = k then Some v else map_get m k')"
  by (auto simp: map_get_def)

lemma map_get_in_set: "map_get m k = Some v \<Longrightarrow> (k, v) \<in> set m"
  by (simp add: map_get_def map_of_SomeD)

lemma map_get_wf: "map_wf m \<Longrightarrow> (k, v) \<in> set m \<Longrightarrow> map_get m k = Some v"
  by (simp add: map_wf_def map_get_def)

lemma finite_map_keys [simp]: "finite (map_keys m)"
  by (simp add: map_keys_def)

lemma map_keys_append [simp]: "map_keys (m @ m') = map_keys m \<union> map_keys m'"
  by (simp add: map_keys_def image_Un)

lemma map_wf_card: "map_wf m \<Longrightarrow> length m = card (map_keys m)"
  by (metis distinct_card length_map list.set_map map_keys_def map_wf_def)

lemma length_map_put: "length (map_put k v m) = (if map_has m k then length m else Suc (length m))"
proof (induction m)
  case Nil
  then show ?case by (simp add: map_put_def)
next
  case (Cons p m)
  then show ?case
    by (cases p) (auto simp: map_put_def map_keys_def)
qed

lemma length_map_del_le: "length (map_del k m) \<le> length m"
  by (simp add: map_del_def length_delete_le)

lemma map_put_fresh: "k \<notin> map_keys m \<Longrightarrow> map_put k v m = m @ [(k, v)]"
  by (simp add: map_put_def map_keys_def update_nonempty del: map_has_keys)
    (induction m; auto simp: image_iff)

text \<open>Rewriting every value in place, as a loop over a map of pointers does.\<close>

definition map_vals :: "('v \<Rightarrow> 'v) \<Rightarrow> ('k, 'v) gmap \<Rightarrow> ('k, 'v) gmap" where
  "map_vals f m = map (\<lambda>p. (fst p, f (snd p))) m"

lemma map_vals_simps [simp]:
  "map_get (map_vals f m) k = map_option f (map_get m k)"
  "map_keys (map_vals f m) = map_keys m"
  "map_wf (map_vals f m) = map_wf m"
  "length (map_vals f m) = length m"
  by (induction m) (auto simp: map_vals_def map_get_def map_keys_def map_wf_def comp_def)

section \<open>Stable sorting\<close>

text \<open>
  \<^verbatim>\<open>sort.SliceStable(xs, less)\<close> with a strict weak order: the result is the ordered
  permutation in which elements that \<^verbatim>\<open>less\<close> does not distinguish keep their order.
  Insertion from the right computes it.
\<close>

fun insert_by :: "('a \<Rightarrow> 'a \<Rightarrow> bool) \<Rightarrow> 'a \<Rightarrow> 'a list \<Rightarrow> 'a list" where
  "insert_by lt x [] = [x]"
| "insert_by lt x (y # ys) = (if lt y x then y # insert_by lt x ys else x # y # ys)"

definition slice_stable :: "('a \<Rightarrow> 'a \<Rightarrow> bool) \<Rightarrow> 'a list \<Rightarrow> 'a list" where
  "slice_stable lt xs = foldr (insert_by lt) xs []"

lemma slice_stable_simps [simp]:
  "slice_stable lt [] = []"
  "slice_stable lt (x # xs) = insert_by lt x (slice_stable lt xs)"
  by (simp_all add: slice_stable_def)

lemma mset_insert_by [simp]: "mset (insert_by lt x ys) = {#x#} + mset ys"
  by (induction ys) auto

lemma mset_slice_stable [simp]: "mset (slice_stable lt xs) = mset xs"
  by (induction xs) auto

lemma set_slice_stable [simp]: "set (slice_stable lt xs) = set xs"
  by (rule mset_eq_setD) simp

lemma length_slice_stable [simp]: "length (slice_stable lt xs) = length xs"
  by (rule mset_eq_length) simp

text \<open>What a less function has to satisfy: comparing keys of a linear order does.\<close>

locale less_by_key =
  fixes lt :: "'a \<Rightarrow> 'a \<Rightarrow> bool" and key :: "'a \<Rightarrow> 'b::linorder"
  assumes less_key: "lt x y \<longleftrightarrow> key x < key y"
begin

lemma insert_by_insort: "insert_by lt x ys = insort_key key x ys"
  by (induction ys) (auto simp: less_key)

lemma slice_stable_sort_key: "slice_stable lt xs = sort_key key xs"
  by (induction xs) (simp_all add: insert_by_insort)

lemma sorted_slice_stable: "sorted (map key (slice_stable lt xs))"
  by (simp add: slice_stable_sort_key)

lemma slice_stable_stable:
  "filter (\<lambda>y. key y = k) (slice_stable lt xs) = filter (\<lambda>y. key y = k) xs"
  by (simp add: slice_stable_sort_key sort_key_stable)

end

text \<open>
  What a scanner of a text written piece by piece has to satisfy: each piece contributes its part,
  whatever follows. A whole text then contributes the parts in order.
\<close>

locale piecewise =
  fixes scan :: "'c list \<Rightarrow> 'a list" and shape :: "'k \<Rightarrow> 'c list" and part :: "'k \<Rightarrow> 'a list" and ok :: "'k \<Rightarrow> bool"
  assumes piece: "ok k \<Longrightarrow> scan (shape k @ s) = part k @ scan s"
begin

lemma pieces: "list_all ok ks \<Longrightarrow> scan (concat (map shape ks) @ s) = concat (map part ks) @ scan s"
  by (induction ks) (simp_all add: piece)

lemma all_pieces: "list_all ok ks \<Longrightarrow> scan [] = [] \<Longrightarrow> scan (concat (map shape ks)) = concat (map part ks)"
  using pieces [of ks "[]"] by simp

end

section \<open>Lists\<close>

lemma card_le_length_distinct:
  "set xs \<subseteq> A \<Longrightarrow> finite A \<Longrightarrow> distinct xs \<Longrightarrow> length xs \<le> card A"
  by (metis card_mono distinct_card)

lemma length_drop_minus [simp]: "length (drop (length xs - n) xs) = min n (length xs)"
  by simp

text \<open>The last \<open>n\<close> elements, which a bounded history or buffer keeps.\<close>

definition last_n :: "nat \<Rightarrow> 'a list \<Rightarrow> 'a list" where
  "last_n n xs = drop (length xs - n) xs"

lemma last_n_rev: "last_n n xs = rev (take n (rev xs))"
  by (simp add: last_n_def rev_take)

lemma last_n_last_n: "last_n n (last_n n xs @ ys) = last_n n (xs @ ys)"
  by (simp add: last_n_rev min_def)

end
