(* ===== verification/GoStrings.thy ===== *)
theory GoStrings
  imports Prelude "HOL-Library.Char_ord" "HOL-Library.List_Lexorder"
begin

text \<open>
  What the program uses of Go's \<^verbatim>\<open>strings\<close>, \<^verbatim>\<open>strconv\<close>, \<^verbatim>\<open>unicode\<close> and \<^verbatim>\<open>utf8\<close>
  packages. A Go string is its list of bytes (\<open>char\<close> is a byte here, so \<open>length\<close> is
  Go's \<^verbatim>\<open>len\<close>, and \<open><\<close> on strings is Go's bytewise comparison, from
  \<^verbatim>\<open>HOL-Library.List_Lexorder\<close>); its runes are read by UTF-8 decoding with
  \<^verbatim>\<open>RuneError\<close> for each byte that starts no valid encoding, as \<^verbatim>\<open>range\<close> does.
  The two case tables are the simple mappings of the Unicode character database, written
  as (first, last, step, offset) ranges like Go's \<^verbatim>\<open>unicode.CaseRanges\<close>.
\<close>

section \<open>Bytes and runes\<close>

abbreviation byte :: "char \<Rightarrow> nat" where "byte c \<equiv> of_char c"

definition rune_error :: nat where "rune_error = 65533"

definition is_ascii :: "string \<Rightarrow> bool" where
  "is_ascii s = list_all (\<lambda>c. byte c < 128) s"

definition cont :: "nat \<Rightarrow> bool" where "cont b = (128 \<le> b \<and> b < 192)"

text \<open>\<^verbatim>\<open>utf8.DecodeRuneInString\<close>: the first rune and its width in bytes.\<close>

definition decode_bytes :: "nat list \<Rightarrow> nat \<times> nat" where
  "decode_bytes bytes = (case bytes of
     [] \<Rightarrow> (rune_error, 0)
   | b0 # bs \<Rightarrow>
       if b0 < 128 then (b0, 1)
       else if 194 \<le> b0 \<and> b0 < 224 \<and> 1 \<le> length bs \<and> cont (bs ! 0)
         then ((b0 - 192) * 64 + (bs ! 0 - 128), 2)
       else if 224 \<le> b0 \<and> b0 < 240 \<and> 2 \<le> length bs
           \<and> (if b0 = 224 then 160 \<le> bs ! 0 \<and> bs ! 0 < 192
              else if b0 = 237 then 128 \<le> bs ! 0 \<and> bs ! 0 < 160 else cont (bs ! 0))
           \<and> cont (bs ! 1)
         then ((b0 - 224) * 4096 + (bs ! 0 - 128) * 64 + (bs ! 1 - 128), 3)
       else if 240 \<le> b0 \<and> b0 < 245 \<and> 3 \<le> length bs
           \<and> (if b0 = 240 then 144 \<le> bs ! 0 \<and> bs ! 0 < 192
              else if b0 = 244 then 128 \<le> bs ! 0 \<and> bs ! 0 < 144 else cont (bs ! 0))
           \<and> cont (bs ! 1) \<and> cont (bs ! 2)
         then ((b0 - 240) * 262144 + (bs ! 0 - 128) * 4096 + (bs ! 1 - 128) * 64
                 + (bs ! 2 - 128), 4)
       else (rune_error, 1))"

definition decode_rune :: "string \<Rightarrow> nat \<times> nat" where
  "decode_rune s = decode_bytes (map byte (take 4 s))"

text \<open>A string cut into its runes, each with the bytes it was read from.\<close>

fun segs :: "string \<Rightarrow> (nat \<times> string) list" where
  "segs [] = []"
| "segs (c # cs) =
     (fst (decode_rune (c # cs)), take (snd (decode_rune (c # cs))) (c # cs))
       # segs (drop (snd (decode_rune (c # cs)) - 1) cs)"

definition runes :: "string \<Rightarrow> nat list" where
  "runes s = map fst (segs s)"

text \<open>\<^verbatim>\<open>utf8.AppendRune\<close>: surrogates and numbers beyond the last rune give U+FFFD.\<close>

definition encode_rune :: "nat \<Rightarrow> string" where
  "encode_rune r = map char_of
     (if r < 128 then [r]
      else if r < 2048 then [192 + r div 64, 128 + r mod 64]
      else if 55296 \<le> r \<and> r < 57344 \<or> 1114111 < r then [239, 191, 189]
      else if r < 65536 then [224 + r div 4096, 128 + r div 64 mod 64, 128 + r mod 64]
      else [240 + r div 262144, 128 + r div 4096 mod 64, 128 + r div 64 mod 64,
            128 + r mod 64])"

lemma decode_rune_width: "s \<noteq> [] \<Longrightarrow> 1 \<le> snd (decode_rune s)"
  by (cases s) (simp_all add: decode_rune_def decode_bytes_def)

lemma decode_rune_ascii: "byte c < 128 \<Longrightarrow> decode_rune (c # cs) = (byte c, 1)"
  by (simp add: decode_rune_def decode_bytes_def)

text \<open>Only a one-byte encoding decodes to an ASCII rune.\<close>

lemma two_byte_rune: "194 \<le> b0 \<Longrightarrow> \<not> (b0 - 192) * 64 + (b1 - 128) < (128 :: nat)"
  by simp

lemma three_byte_rune:
  "224 \<le> b0 \<Longrightarrow> (if b0 = 224 then 160 \<le> b1 else True) \<Longrightarrow>
   \<not> (b0 - 224) * 4096 + (b1 - 128) * 64 + (b2 - 128) < (128 :: nat)"
  by (simp split: if_splits)

lemma four_byte_rune:
  "240 \<le> b0 \<Longrightarrow> (if b0 = 240 then 144 \<le> b1 else True) \<Longrightarrow>
   \<not> (b0 - 240) * 262144 + (b1 - 128) * 4096 + (b2 - 128) * 64 + (b3 - 128) < (128 :: nat)"
  by (simp split: if_splits)

lemma decode_bytes_small:
  assumes "decode_bytes bytes = (r, w)" and "r < 128" and "bytes \<noteq> []"
  shows "w = 1 \<and> r = hd bytes"
proof -
  obtain b0 bs where b: "bytes = b0 # bs" using assms(3) by (cases bytes) auto
  show ?thesis
    using assms(1,2) two_byte_rune [of b0 "bs ! 0"] three_byte_rune [of b0 "bs ! 0" "bs ! 1"]
      four_byte_rune [of b0 "bs ! 0" "bs ! 1" "bs ! 2"]
    unfolding decode_bytes_def b rune_error_def
    by (simp split: if_split_asm)
qed

declare segs.simps(2) [simp del]

lemma segs_ascii: "is_ascii s \<Longrightarrow> segs s = map (\<lambda>c. (byte c, [c])) s"
  by (induction s) (simp_all add: is_ascii_def decode_rune_ascii segs.simps)

lemma concat_segs: "concat (map snd (segs s)) = s"
proof (induction s rule: segs.induct)
  case (2 c cs)
  obtain w where w: "snd (decode_rune (c # cs)) = Suc w"
    using decode_rune_width [of "c # cs"] by (cases "snd (decode_rune (c # cs))") auto
  show ?case using 2 by (simp add: w segs.simps)
qed simp

section \<open>Case mapping and spaces\<close>

definition lower_ranges :: "(nat \<times> nat \<times> nat \<times> int) list" where
  "lower_ranges = [
    (192, 214, 1, 32), (216, 222, 1, 32), (256, 302, 2, 1), (304, 304, 1, - 199),
    (306, 310, 2, 1), (313, 327, 2, 1), (330, 374, 2, 1), (376, 376, 1, - 121),
    (377, 381, 2, 1), (385, 385, 1, 210), (386, 388, 2, 1), (390, 390, 1, 206),
    (391, 391, 1, 1), (393, 394, 1, 205), (395, 395, 1, 1), (398, 398, 1, 79),
    (399, 399, 1, 202), (400, 400, 1, 203), (401, 401, 1, 1), (403, 403, 1, 205),
    (404, 404, 1, 207), (406, 406, 1, 211), (407, 407, 1, 209), (408, 408, 1, 1),
    (412, 412, 1, 211), (413, 413, 1, 213), (415, 415, 1, 214), (416, 420, 2, 1),
    (422, 422, 1, 218), (423, 423, 1, 1), (425, 425, 1, 218), (428, 428, 1, 1),
    (430, 430, 1, 218), (431, 431, 1, 1), (433, 434, 1, 217), (435, 437, 2, 1),
    (439, 439, 1, 219), (440, 440, 1, 1), (444, 444, 1, 1), (452, 452, 1, 2),
    (453, 453, 1, 1), (455, 455, 1, 2), (456, 456, 1, 1), (458, 458, 1, 2),
    (459, 475, 2, 1), (478, 494, 2, 1), (497, 497, 1, 2), (498, 500, 2, 1),
    (502, 502, 1, - 97), (503, 503, 1, - 56), (504, 542, 2, 1), (544, 544, 1, - 130),
    (546, 562, 2, 1), (570, 570, 1, 10795), (571, 571, 1, 1), (573, 573, 1, - 163),
    (574, 574, 1, 10792), (577, 577, 1, 1), (579, 579, 1, - 195), (580, 580, 1, 69),
    (581, 581, 1, 71), (582, 590, 2, 1), (880, 882, 2, 1), (886, 886, 1, 1),
    (895, 895, 1, 116), (902, 902, 1, 38), (904, 906, 1, 37), (908, 908, 1, 64),
    (910, 911, 1, 63), (913, 929, 1, 32), (931, 939, 1, 32), (975, 975, 1, 8),
    (984, 1006, 2, 1), (1012, 1012, 1, - 60), (1015, 1015, 1, 1), (1017, 1017, 1, - 7),
    (1018, 1018, 1, 1), (1021, 1023, 1, - 130), (1024, 1039, 1, 80), (1040, 1071, 1, 32),
    (1120, 1152, 2, 1), (1162, 1214, 2, 1), (1216, 1216, 1, 15), (1217, 1229, 2, 1),
    (1232, 1326, 2, 1), (1329, 1366, 1, 48), (4256, 4293, 1, 7264), (4295, 4295, 1, 7264),
    (4301, 4301, 1, 7264), (5024, 5103, 1, 38864), (5104, 5109, 1, 8), (7312, 7354, 1, - 3008),
    (7357, 7359, 1, - 3008), (7680, 7828, 2, 1), (7838, 7838, 1, - 7615), (7840, 7934, 2, 1),
    (7944, 7951, 1, - 8), (7960, 7965, 1, - 8), (7976, 7983, 1, - 8), (7992, 7999, 1, - 8),
    (8008, 8013, 1, - 8), (8025, 8031, 2, - 8), (8040, 8047, 1, - 8), (8072, 8079, 1, - 8),
    (8088, 8095, 1, - 8), (8104, 8111, 1, - 8), (8120, 8121, 1, - 8), (8122, 8123, 1, - 74),
    (8124, 8124, 1, - 9), (8136, 8139, 1, - 86), (8140, 8140, 1, - 9), (8152, 8153, 1, - 8),
    (8154, 8155, 1, - 100), (8168, 8169, 1, - 8), (8170, 8171, 1, - 112), (8172, 8172, 1, - 7),
    (8184, 8185, 1, - 128), (8186, 8187, 1, - 126), (8188, 8188, 1, - 9), (8486, 8486, 1, - 7517),
    (8490, 8490, 1, - 8383), (8491, 8491, 1, - 8262), (8498, 8498, 1, 28), (8544, 8559, 1, 16),
    (8579, 8579, 1, 1), (9398, 9423, 1, 26), (11264, 11311, 1, 48), (11360, 11360, 1, 1),
    (11362, 11362, 1, - 10743), (11363, 11363, 1, - 3814), (11364, 11364, 1, - 10727), (11367, 11371, 2, 1),
    (11373, 11373, 1, - 10780), (11374, 11374, 1, - 10749), (11375, 11375, 1, - 10783), (11376, 11376, 1, - 10782),
    (11378, 11378, 1, 1), (11381, 11381, 1, 1), (11390, 11391, 1, - 10815), (11392, 11490, 2, 1),
    (11499, 11501, 2, 1), (11506, 11506, 1, 1), (42560, 42604, 2, 1), (42624, 42650, 2, 1),
    (42786, 42798, 2, 1), (42802, 42862, 2, 1), (42873, 42875, 2, 1), (42877, 42877, 1, - 35332),
    (42878, 42886, 2, 1), (42891, 42891, 1, 1), (42893, 42893, 1, - 42280), (42896, 42898, 2, 1),
    (42902, 42920, 2, 1), (42922, 42922, 1, - 42308), (42923, 42923, 1, - 42319), (42924, 42924, 1, - 42315),
    (42925, 42925, 1, - 42305), (42926, 42926, 1, - 42308), (42928, 42928, 1, - 42258), (42929, 42929, 1, - 42282),
    (42930, 42930, 1, - 42261), (42931, 42931, 1, 928), (42932, 42946, 2, 1), (42948, 42948, 1, - 48),
    (42949, 42949, 1, - 42307), (42950, 42950, 1, - 35384), (42951, 42953, 2, 1), (42960, 42960, 1, 1),
    (42966, 42968, 2, 1), (42997, 42997, 1, 1), (65313, 65338, 1, 32), (66560, 66599, 1, 40),
    (66736, 66771, 1, 40), (66928, 66938, 1, 39), (66940, 66954, 1, 39), (66956, 66962, 1, 39),
    (66964, 66965, 1, 39), (68736, 68786, 1, 64), (71840, 71871, 1, 32), (93760, 93791, 1, 32),
    (125184, 125217, 1, 34)]"

definition fold_exceptions :: "(nat \<times> nat) list" where
  "fold_exceptions = [
    (181, 956), (383, 115), (837, 953), (962, 963), (976, 946), (977, 952), (981, 966), (982, 960),
    (1008, 954), (1009, 961), (1013, 949), (7296, 1074), (7297, 1076), (7298, 1086), (7299, 1089), (7300, 1090),
    (7301, 1090), (7302, 1098), (7303, 1123), (7304, 42571), (7835, 7777), (8126, 953)]"

text \<open>\<^verbatim>\<open>unicode.ToLower\<close>.\<close>

definition lower_rune :: "nat \<Rightarrow> nat" where
  "lower_rune r =
     (if r < 128 then (if 65 \<le> r \<and> r \<le> 90 then r + 32 else r)
      else case List.find (\<lambda>(lo, hi, st, d). lo \<le> r \<and> r \<le> hi \<and> (r - lo) mod st = 0) lower_ranges of
             None \<Rightarrow> r
           | Some (lo, hi, st, d) \<Rightarrow> nat (int r + d))"

text \<open>
  The representative of a rune's case-folding orbit (\<^verbatim>\<open>unicode.SimpleFold\<close>): two runes are
  equal under folding when these agree. The dotted capital I and the dotless small i fold
  to themselves.
\<close>

definition fold_rune :: "nat \<Rightarrow> nat" where
  "fold_rune r =
     (if r = 304 \<or> r = 305 then r
      else case map_of fold_exceptions (lower_rune r) of
             None \<Rightarrow> lower_rune r | Some k \<Rightarrow> k)"

text \<open>\<^verbatim>\<open>unicode.IsSpace\<close>.\<close>

definition space_rune :: "nat \<Rightarrow> bool" where
  "space_rune r \<longleftrightarrow>
     9 \<le> r \<and> r \<le> 13 \<or> r = 32 \<or> r = 133 \<or> r = 160 \<or> r = 5760
     \<or> 8192 \<le> r \<and> r \<le> 8202 \<or> r = 8232 \<or> r = 8233 \<or> r = 8239 \<or> r = 8287 \<or> r = 12288"

section \<open>Package strings\<close>

definition lower_char :: "char \<Rightarrow> char" where
  "lower_char c = (if 65 \<le> byte c \<and> byte c \<le> 90 then char_of (byte c + 32) else c)"

text \<open>\<^verbatim>\<open>strings.ToLower\<close>, with its fast path for ASCII.\<close>

definition to_lower :: "string \<Rightarrow> string" where
  "to_lower s =
     (if is_ascii s then map lower_char s
      else concat (map (\<lambda>r. encode_rune (lower_rune r)) (runes s)))"

text \<open>\<^verbatim>\<open>strings.TrimSpace\<close>: the runes are trimmed, the bytes between are kept as they are.\<close>

definition trim_space :: "string \<Rightarrow> string" where
  "trim_space s =
     concat (map snd (rev (dropWhile (\<lambda>p. space_rune (fst p))
       (rev (dropWhile (\<lambda>p. space_rune (fst p)) (segs s))))))"

text \<open>\<^verbatim>\<open>strings.EqualFold\<close>.\<close>

text \<open>\<^verbatim>\<open>strings.Fields\<close>: the parts between runs of white space.\<close>

fun field_segs :: "string \<Rightarrow> (nat \<times> string) list \<Rightarrow> string list" where
  "field_segs acc [] = (if acc = [] then [] else [acc])"
| "field_segs acc ((r, bs) # xs) =
     (if space_rune r then (if acc = [] then field_segs [] xs else acc # field_segs [] xs)
      else field_segs (acc @ bs) xs)"

definition str_fields :: "string \<Rightarrow> string list" where
  "str_fields s = field_segs [] (segs s)"

definition equal_fold :: "string \<Rightarrow> string \<Rightarrow> bool" where
  "equal_fold s t = (map fold_rune (runes s) = map fold_rune (runes t))"

definition has_prefix :: "string \<Rightarrow> string \<Rightarrow> bool" where
  "has_prefix s p = (take (length p) s = p)"

definition trim_prefix :: "string \<Rightarrow> string \<Rightarrow> string" where
  "trim_prefix s p = (if has_prefix s p then drop (length p) s else s)"

lemma has_prefix_iff: "has_prefix s p \<longleftrightarrow> (\<exists>r. s = p @ r)"
  unfolding has_prefix_def by (metis append_eq_conv_conj append_take_drop_id)

lemma prefix_simps [simp]: "has_prefix (p @ r) p" "trim_prefix (p @ r) p = r"
  by (simp_all add: has_prefix_def trim_prefix_def)

fun contains_str :: "string \<Rightarrow> string \<Rightarrow> bool" where
  "contains_str [] p = (p = [])"
| "contains_str (c # cs) p = (has_prefix (c # cs) p \<or> contains_str cs p)"

text \<open>\<^verbatim>\<open>strings.Join\<close>.\<close>

fun join_str :: "string \<Rightarrow> string list \<Rightarrow> string" where
  "join_str sep [] = []"
| "join_str sep [x] = x"
| "join_str sep (x # y # zs) = x @ sep @ join_str sep (y # zs)"

text \<open>\<^verbatim>\<open>strings.Split\<close> with a one-byte separator.\<close>

fun split_char :: "char \<Rightarrow> string \<Rightarrow> string list" where
  "split_char d [] = [[]]"
| "split_char d (c # cs) =
     (if c = d then [] # split_char d cs
      else (case split_char d cs of [] \<Rightarrow> [[c]] | p # ps \<Rightarrow> (c # p) # ps))"

section \<open>Package strconv\<close>

definition is_digit :: "char \<Rightarrow> bool" where
  "is_digit c = (48 \<le> byte c \<and> byte c \<le> 57)"

definition digits_value :: "string \<Rightarrow> int" where
  "digits_value s = foldl (\<lambda>n c. n * 10 + (int (byte c) - 48)) 0 s"

text \<open>\<^verbatim>\<open>strconv.Atoi\<close>: an optional sign, decimal digits, and the range of a 64-bit int.\<close>

definition atoi :: "string \<Rightarrow> int option" where
  "atoi s =
     (let neg = (take 1 s = ''-''); ds = (if take 1 s = ''-'' \<or> take 1 s = ''+'' then drop 1 s else s)
      in if ds = [] \<or> \<not> list_all is_digit ds then None
         else let n = (if neg then - digits_value ds else digits_value ds)
              in if in_int64 n then Some n else None)"

fun nat_digits :: "nat \<Rightarrow> string" where
  "nat_digits n = (if n < 10 then [char_of (48 + n)] else nat_digits (n div 10) @ [char_of (48 + n mod 10)])"

declare nat_digits.simps [simp del]

definition itoa :: "int \<Rightarrow> string" where
  "itoa n = (if n < 0 then ''-'' @ nat_digits (nat (- n)) else nat_digits (nat n))"

text \<open>A lower-case hexadecimal digit, as the quoting functions write it.\<close>

definition hex_digit :: "nat \<Rightarrow> char" where
  "hex_digit d = char_of (if d < 10 then 48 + d else 87 + d)"

text \<open>
  \<^verbatim>\<open>%q\<close>: quotes, backslashes and control bytes are escaped, bytes that are not UTF-8 become
  \<open>\x\<close> escapes; runes from U+0080 on are copied (the ones that are not printable, which the
  package escapes too, are not distinguished).
\<close>

definition quote_ascii :: "nat \<Rightarrow> string" where
  "quote_ascii b =
     (let esc = (\<lambda>c. [CHR 0x5C, c])
      in if b = 34 \<or> b = 92 then esc (char_of b)
         else if b = 7 then esc (CHR ''a'') else if b = 8 then esc (CHR ''b'')
         else if b = 12 then esc (CHR ''f'') else if b = 10 then esc (CHR ''n'')
         else if b = 13 then esc (CHR ''r'') else if b = 9 then esc (CHR ''t'')
         else if b = 11 then esc (CHR ''v'')
         else if b < 32 \<or> b = 127 then esc (CHR ''x'') @ [hex_digit (b div 16), hex_digit (b mod 16)]
         else [char_of b])"

definition go_quote :: "string \<Rightarrow> string" where
  "go_quote s =
     CHR 0x22 # concat (map (\<lambda>(r, bs).
         if r < 128 then quote_ascii r
         else if r = rune_error \<and> length bs = 1
           then [CHR 0x5C, CHR ''x'', hex_digit (byte (hd bs) div 16), hex_digit (byte (hd bs) mod 16)]
         else bs) (segs s))
       @ [CHR 0x22]"

text \<open>\<^verbatim>\<open>strconv.ParseBool\<close>.\<close>

definition parse_bool :: "string \<Rightarrow> bool option" where
  "parse_bool s =
     (if s \<in> set [''1'', ''t'', ''T'', ''true'', ''TRUE'', ''True''] then Some True
      else if s \<in> set [''0'', ''f'', ''F'', ''false'', ''FALSE'', ''False''] then Some False
      else None)"

section \<open>Facts\<close>

text \<open>The decimal digits of a number.\<close>

lemma nat_digits_digits: "list_all is_digit (nat_digits n)"
proof (induction n rule: nat_digits.induct)
  case (1 n)
  have "is_digit (char_of (48 + n mod 10))" "n < 10 \<Longrightarrow> is_digit (char_of (48 + n))"
    by (auto simp: is_digit_def)
  with 1 show ?case by (subst nat_digits.simps) simp
qed

lemma nat_digits_nonempty [simp]: "nat_digits n \<noteq> []"
  by (subst nat_digits.simps) simp

lemma nat_digits_head: "0 < n \<Longrightarrow> hd (nat_digits n) \<noteq> CHR ''0''"
proof (induction n rule: nat_digits.induct)
  case (1 n)
  show ?case
  proof (cases "n < 10")
    case True
    with "1.prems" have "(char_of (48 + n) :: char) \<noteq> char_of (48 :: nat)"
      by (simp add: char_of_eq_iff take_bit_eq_mod)
    moreover have "(char_of (48 :: nat) :: char) = CHR ''0''" by (simp add: char_of_eq_iff take_bit_eq_mod)
    ultimately show ?thesis using True by (subst nat_digits.simps) simp
  next
    case False
    with 1 have "hd (nat_digits (n div 10)) \<noteq> CHR ''0''" by simp
    with False show ?thesis by (subst nat_digits.simps) simp
  qed
qed

lemma nat_digits_zero: "nat_digits 0 = ''0''"
  by (subst nat_digits.simps) (simp add: char_of_eq_iff take_bit_eq_mod)

lemma to_lower_Nil [simp]: "to_lower [] = []"
  by (simp add: to_lower_def is_ascii_def)

lemma trim_space_Nil [simp]: "trim_space [] = []"
  by (simp add: trim_space_def)

text \<open>On ASCII strings trimming and lowering work byte by byte; \<open>str_eval\<close> evaluates literals.\<close>

definition space_char :: "char \<Rightarrow> bool" where
  "space_char c = space_rune (byte c)"

lemma dropWhile_map_seg:
  "dropWhile (\<lambda>p. space_rune (fst p)) (map (\<lambda>c. (byte c, [c])) s)
     = map (\<lambda>c. (byte c, [c])) (dropWhile space_char s)"
  by (induction s) (simp_all add: space_char_def)

lemma trim_space_ascii:
  assumes "is_ascii s"
  shows "trim_space s = rev (dropWhile space_char (rev (dropWhile space_char s)))"
proof -
  have "concat (map snd (map (\<lambda>c. (byte c, [c])) t)) = t" for t
    by (induction t) simp_all
  then show ?thesis
    unfolding trim_space_def segs_ascii [OF assms] dropWhile_map_seg rev_map by simp
qed

lemma to_lower_ascii: "is_ascii s \<Longrightarrow> to_lower s = map lower_char s"
  by (simp add: to_lower_def)

lemma is_ascii_eval [simp]:
  "is_ascii [] = True" "is_ascii (c # cs) = (byte c < 128 \<and> is_ascii cs)"
  by (simp_all add: is_ascii_def)

lemma trim_space_Nil_iff: "trim_space s = [] \<longleftrightarrow> (\<forall>p \<in> set (segs s). space_rune (fst p))"
proof
  assume *: "trim_space s = []"
  have ne: "snd p \<noteq> []" if "p \<in> set (segs s)" for p
    using that
  proof (induction s rule: segs.induct)
    case (2 c cs)
    with decode_rune_width [of "c # cs"] show ?case by (auto simp: segs.simps(2))
  qed simp
  show "\<forall>p \<in> set (segs s). space_rune (fst p)"
  proof (rule ccontr)
    let ?P = "\<lambda>p. space_rune (fst p)"
    assume "\<not> ?thesis"
    then have "\<exists>x \<in> set (dropWhile ?P (segs s)). \<not> ?P x"
      by (metis (no_types, lifting) dropWhile_eq_Nil_conv hd_dropWhile list.set_sel(1))
    then have "rev (dropWhile ?P (rev (dropWhile ?P (segs s)))) \<noteq> []"
      by auto
    then obtain p where p: "p \<in> set (rev (dropWhile ?P (rev (dropWhile ?P (segs s)))))"
      by (metis list.set_intros(1) neq_Nil_conv)
    then have "p \<in> set (segs s)"
      by (metis set_dropWhileD set_rev)
    then have "snd p \<noteq> []" by (rule ne)
    with p * show False unfolding trim_space_def by auto
  qed
next
  assume "\<forall>p \<in> set (segs s). space_rune (fst p)"
  then have "dropWhile (\<lambda>p. space_rune (fst p)) (segs s) = []"
    by (simp add: dropWhile_eq_Nil_conv)
  then show "trim_space s = []"
    unfolding trim_space_def by (simp only: rev.simps dropWhile.simps list.map concat.simps)
qed

lemmas str_eval = trim_space_ascii to_lower_ascii space_char_def space_rune_def lower_char_def

lemma split_char_nonempty [simp]: "split_char d s \<noteq> []"
  by (induction s) (auto split: list.splits)

lemma split_char_no_sep: "d \<notin> set s \<Longrightarrow> split_char d s = [s]"
  by (induction s) auto

lemma split_char_parts: "p \<in> set (split_char d s) \<Longrightarrow> d \<notin> set p"
  by (induction s arbitrary: p) (auto split: if_splits list.splits)

lemma split_char_append:
  "split_char d (s @ d # t) = split_char d s @ split_char d t"
  by (induction s) (auto split: list.splits)

lemma split_char_join:
  "xs \<noteq> [] \<Longrightarrow> (\<And>x. x \<in> set xs \<Longrightarrow> d \<notin> set x) \<Longrightarrow> split_char d (join_str [d] xs) = xs"
  by (induction "[d]" xs rule: join_str.induct)
    (auto simp: split_char_no_sep split_char_append)

lemma join_split_char: "join_str [d] (split_char d s) = s"
proof (induction s)
  case (Cons c s)
  obtain p ps where "split_char d s = p # ps"
    by (cases "split_char d s") auto
  with Cons show ?case by (cases ps) auto
qed simp

end
