(* ===== verification/Domain.thy ===== *)
theory Domain
  imports GoStrings
begin

text \<open>
  Packages \<^verbatim>\<open>domain\<close>, \<^verbatim>\<open>agent\<close> (event.go) and \<^verbatim>\<open>logging\<close> (Truncate): the plain data
  the layers exchange and its normalization helpers. A pointer field is an option
  (\<open>None\<close> for nil). A \<^verbatim>\<open>time.Time\<close> is the number of nanoseconds since the Unix epoch, so
  that \<^verbatim>\<open>t.Sub(u)\<close> is a difference and \<^verbatim>\<open>t.UnixNano()\<close> the number itself.
\<close>

section \<open>Values of type any\<close>

text \<open>
  What \<^verbatim>\<open>yaml.Unmarshal\<close> and \<^verbatim>\<open>json.Unmarshal\<close> put into an \<^verbatim>\<open>any\<close>. A float64 is a
  rational, an infinity or NaN; \<open>VOther\<close> is a value of any other type (a timestamp, an
  unsigned integer), which no type switch of the program matches.
\<close>

datatype gofloat = Fin rat | PosInf | NegInf | NaN

datatype gvalue =
    VNil
  | VBool bool
  | VInt int
  | VFloat gofloat
  | VStr string
  | VList "gvalue list"
  | VMap "(string \<times> gvalue) list"
  | VOther

text \<open>\<^verbatim>\<open>m[key]\<close> on a \<^verbatim>\<open>map[string]any\<close>: nil when the key is absent.\<close>

definition vget :: "(string, gvalue) gmap \<Rightarrow> string \<Rightarrow> gvalue" where
  "vget m k = (case map_get m k of None \<Rightarrow> VNil | Some v \<Rightarrow> v)"

section \<open>Package domain\<close>

record blocker_ref =
  br_ID :: "string option"
  br_Identifier :: "string option"
  br_State :: "string option"

record issue =
  i_ID :: string
  i_Identifier :: string
  i_Title :: string
  i_Description :: "string option"
  i_Priority :: "int option"
  i_State :: string
  i_BranchName :: "string option"
  i_URL :: "string option"
  i_Labels :: "string list"
  i_BlockedBy :: "blocker_ref list"
  i_CreatedAt :: "int option"
  i_UpdatedAt :: "int option"
  i_Assignee :: "string option"

record workspace =
  w_Path :: string
  w_Key :: string
  w_CreatedNow :: bool

record agent_activity =
  act_Timestamp :: int
  act_Event :: string
  act_TurnID :: string
  act_Message :: string
  act_Detail :: string
  act_InputTokens :: int
  act_OutputTokens :: int

record live_session =
  ls_SessionID :: string
  ls_ThreadID :: string
  ls_TurnID :: string
  ls_AgentPID :: "string option"
  ls_LastAgentEvent :: "string option"
  ls_LastAgentTimestamp :: "int option"
  ls_LastAgentMessage :: string
  ls_InputTokens :: int
  ls_OutputTokens :: int
  ls_TotalTokens :: int
  ls_LastReportedInputTokens :: int
  ls_LastReportedOutputTokens :: int
  ls_LastReportedTotalTokens :: int
  ls_TurnCount :: int
  ls_RecentActivity :: "agent_activity list"

record retry_entry =
  rt_IssueID :: string
  rt_Identifier :: string
  rt_Attempt :: int
  rt_DueAtMs :: int
  rt_Error :: "string option"
  rt_URL :: "string option"

text \<open>\<open>tt_SecondsRunning\<close> is a float64 in the code; here it is exact.\<close>

record totals =
  tt_InputTokens :: int
  tt_OutputTokens :: int
  tt_TotalTokens :: int
  tt_SecondsRunning :: rat

definition zero_issue :: issue where
  "zero_issue = \<lparr>i_ID = [], i_Identifier = [], i_Title = [], i_Description = None,
     i_Priority = None, i_State = [], i_BranchName = None, i_URL = None, i_Labels = [],
     i_BlockedBy = [], i_CreatedAt = None, i_UpdatedAt = None, i_Assignee = None\<rparr>"

definition zero_session :: live_session where
  "zero_session = \<lparr>ls_SessionID = [], ls_ThreadID = [], ls_TurnID = [], ls_AgentPID = None,
     ls_LastAgentEvent = None, ls_LastAgentTimestamp = None, ls_LastAgentMessage = [],
     ls_InputTokens = 0, ls_OutputTokens = 0, ls_TotalTokens = 0,
     ls_LastReportedInputTokens = 0, ls_LastReportedOutputTokens = 0,
     ls_LastReportedTotalTokens = 0, ls_TurnCount = 0, ls_RecentActivity = []\<rparr>"

definition zero_totals :: totals where
  "zero_totals = \<lparr>tt_InputTokens = 0, tt_OutputTokens = 0, tt_TotalTokens = 0,
     tt_SecondsRunning = 0\<rparr>"

text \<open>\<^verbatim>\<open>WorkspaceKey\<close>: each rune outside \<open>[A-Za-z0-9._-]\<close> becomes one underscore.\<close>

definition ws_key_rune :: "nat \<Rightarrow> bool" where
  "ws_key_rune r \<longleftrightarrow> 65 \<le> r \<and> r \<le> 90 \<or> 97 \<le> r \<and> r \<le> 122 \<or> 48 \<le> r \<and> r \<le> 57
     \<or> r = 46 \<or> r = 95 \<or> r = 45"

definition WorkspaceKey :: "string \<Rightarrow> string" where
  "WorkspaceKey identifier =
     concat (map (\<lambda>(r, bs). if ws_key_rune r then bs else ''_'') (segs identifier))"

definition NormalizeState :: "string \<Rightarrow> string" where
  "NormalizeState state = to_lower (trim_space state)"

section \<open>Agent events\<close>

record usage =
  u_InputTokens :: int
  u_OutputTokens :: int
  u_TotalTokens :: int

text \<open>\<open>ev_RateLimits\<close> is \<open>VNil\<close> when the event carries none.\<close>

record agent_event =
  ev_Event :: string
  ev_Timestamp :: int
  ev_AgentPID :: "string option"
  ev_SessionID :: string
  ev_TurnID :: string
  ev_Message :: string
  ev_Detail :: string
  ev_Usage :: "usage option"
  ev_StepUsage :: "usage option"
  ev_RateLimits :: gvalue

definition EventSessionStarted :: string where "EventSessionStarted = ''session_started''"
definition EventStartupFailed :: string where "EventStartupFailed = ''startup_failed''"
definition EventTurnCompleted :: string where "EventTurnCompleted = ''turn_completed''"
definition EventTurnFailed :: string where "EventTurnFailed = ''turn_failed''"
definition EventTurnCancelled :: string where "EventTurnCancelled = ''turn_cancelled''"
definition EventTurnEndedWithError :: string where
  "EventTurnEndedWithError = ''turn_ended_with_error''"
definition EventNotification :: string where "EventNotification = ''notification''"
definition EventOtherMessage :: string where "EventOtherMessage = ''other_message''"
definition EventMalformed :: string where "EventMalformed = ''malformed''"

lemmas event_kind_defs =
  EventSessionStarted_def EventStartupFailed_def EventTurnCompleted_def EventTurnFailed_def
  EventTurnCancelled_def EventTurnEndedWithError_def EventNotification_def
  EventOtherMessage_def EventMalformed_def

section \<open>Package logging\<close>

definition maxMessageLen :: nat where "maxMessageLen = 500"

text \<open>The suffix is U+2026 (three bytes in UTF-8) and \<open>(truncated)\<close>.\<close>

definition truncated_suffix :: string where
  "truncated_suffix = [char_of (226 :: nat), char_of (128 :: nat), char_of (166 :: nat)]
     @ ''(truncated)''"

definition Truncate :: "string \<Rightarrow> string" where
  "Truncate s =
     (let s' = trim_space s
      in if length s' \<le> maxMessageLen then s' else take maxMessageLen s' @ truncated_suffix)"

section \<open>Durations\<close>

text \<open>\<^verbatim>\<open>time.Duration(ms) * time.Millisecond\<close>: nanoseconds, wrapping at 64 bits.\<close>

definition duration_ms :: "int \<Rightarrow> int" where
  "duration_ms ms = wrap64 (ms * 1000000)"

text \<open>\<^verbatim>\<open>d.Seconds()\<close>.\<close>

definition seconds :: "int \<Rightarrow> rat" where
  "seconds d = of_int d / 1000000000"

section \<open>Facts\<close>

lemma NormalizeState_Nil [simp]: "NormalizeState [] = []"
  by (simp add: NormalizeState_def)

lemma duration_ms_exact: "\<bar>ms\<bar> \<le> 9223372036854 \<Longrightarrow> duration_ms ms = ms * 1000000"
  unfolding duration_ms_def
  by (rule wrap64_id) (simp add: in_int64_def min_int64_def max_int64_def abs_le_iff)

lemma Truncate_length: "length (Truncate s) \<le> maxMessageLen + length truncated_suffix"
  by (simp add: Truncate_def Let_def)

text \<open>A sanitized name has only the allowed bytes, so it is a single path element.\<close>

lemma decode_rune_small:
  assumes "fst (decode_rune s) < 128" and "s \<noteq> []"
  shows "snd (decode_rune s) = 1 \<and> fst (decode_rune s) = byte (hd s)"
  using decode_bytes_small [of "map byte (take 4 s)" "fst (decode_rune s)" "snd (decode_rune s)"] assms
  by (cases s) (simp_all add: decode_rune_def)

lemma segs_small: "(r, bs) \<in> set (segs s) \<Longrightarrow> r < 128 \<Longrightarrow> \<exists>c. bs = [c] \<and> byte c = r"
proof (induction s arbitrary: r bs rule: segs.induct)
  case (2 c cs)
  show ?case
  proof (cases "(r, bs) \<in> set (segs (drop (snd (decode_rune (c # cs)) - 1) cs))")
    case True
    with 2 show ?thesis by blast
  next
    case False
    with 2 have "r = fst (decode_rune (c # cs))" "bs = take (snd (decode_rune (c # cs))) (c # cs)"
      by (auto simp: segs.simps)
    with 2 decode_rune_small [of "c # cs"] show ?thesis by auto
  qed
qed simp

lemma WorkspaceKey_chars:
  assumes "c \<in> set (WorkspaceKey identifier)"
  shows "ws_key_rune (byte c)"
proof -
  from assms obtain r bs where rb: "(r, bs) \<in> set (segs identifier)"
    and c: "c \<in> set (if ws_key_rune r then bs else ''_'')"
    by (auto simp: WorkspaceKey_def)
  show ?thesis
  proof (cases "ws_key_rune r")
    case True
    then have "r < 128" by (auto simp: ws_key_rune_def)
    with rb segs_small obtain d where "bs = [d]" "byte d = r" by blast
    with c True show ?thesis by simp
  next
    case False
    with c have "c = CHR ''_''" by simp
    then show ?thesis by (simp add: ws_key_rune_def)
  qed
qed

lemma WorkspaceKey_no_slash: "CHR ''/'' \<notin> set (WorkspaceKey identifier)"
  using WorkspaceKey_chars [of "CHR ''/''"] by (auto simp: ws_key_rune_def)

section \<open>Outgoing requests\<close>

text \<open>The requests the tracker client and the tool send: both POST JSON with the key in a header.\<close>

record http_request =
  hq_URL :: string
  hq_Headers :: "(string \<times> string) list"
  hq_Body :: string

definition graphql_request :: "string \<Rightarrow> string \<Rightarrow> string \<Rightarrow> http_request" where
  "graphql_request endpoint apiKey body =
     \<lparr>hq_URL = endpoint, hq_Headers = [(''Content-Type'', ''application/json''), (''Authorization'', apiKey)],
      hq_Body = body\<rparr>"

end
