(* ===== verification/Paths.thy ===== *)
theory Paths
  imports GoStrings "HOL-Library.Sublist"
begin

text \<open>
  Go's \<^verbatim>\<open>path/filepath\<close> on a Unix system, as far as the configuration and the workspace
  manager use it: \<^verbatim>\<open>Clean\<close>, \<^verbatim>\<open>Join\<close>, \<^verbatim>\<open>IsAbs\<close>, \<^verbatim>\<open>Abs\<close> and \<^verbatim>\<open>Rel\<close>. The functions
  are lexical: they work on the elements between slashes. \<open>abs_elems\<close> reads an absolute
  path as its list of elements, and the facts say what each function does to that list.
\<close>

definition path_sep :: char where "path_sep = CHR ''/''"

definition is_abs :: "string \<Rightarrow> bool" where
  "is_abs p = (take 1 p = ''/'')"

text \<open>
  One element of \<^verbatim>\<open>Clean\<close>'s scan: empty elements and \<open>.\<close> are dropped; \<open>..\<close> removes the
  element before it, stays at the front of a relative path, and is dropped at a root.
  The elements so far are kept last first.
\<close>

definition clean_elem :: "bool \<Rightarrow> string list \<Rightarrow> string \<Rightarrow> string list" where
  "clean_elem rooted acc e =
     (if e = [] \<or> e = ''.'' then acc
      else if e = ''..'' then
        (case acc of
           [] \<Rightarrow> if rooted then [] else [''..'']
         | x # xs \<Rightarrow> if x = ''..'' then ''..'' # acc else xs)
      else e # acc)"

definition clean_elems :: "bool \<Rightarrow> string list \<Rightarrow> string list" where
  "clean_elems rooted es = rev (foldl (clean_elem rooted) [] es)"

definition path_clean :: "string \<Rightarrow> string" where
  "path_clean p =
     (let es = clean_elems (is_abs p) (split_char path_sep p)
      in if is_abs p then ''/'' @ join_str ''/'' es
         else if es = [] then ''.'' else join_str ''/'' es)"

text \<open>\<^verbatim>\<open>Join(a, b)\<close>: leading empty elements are ignored.\<close>

definition path_join :: "string \<Rightarrow> string \<Rightarrow> string" where
  "path_join a b =
     (if a \<noteq> [] then path_clean (a @ ''/'' @ b)
      else if b \<noteq> [] then path_clean b else [])"

text \<open>\<^verbatim>\<open>Abs\<close>: a relative path is joined to the working directory, whose lookup can fail.\<close>

definition path_abs :: "string result \<Rightarrow> string \<Rightarrow> string result" where
  "path_abs getwd p =
     (if is_abs p then Inr (path_clean p)
      else case getwd of Inl e \<Rightarrow> Inl e | Inr wd \<Rightarrow> Inr (path_join wd p))"

text \<open>
  \<^verbatim>\<open>Rel(base, targ)\<close>: the elements both share are dropped, each left of the base becomes
  \<open>..\<close>. It fails when only one of the paths is absolute, or when the base would have to
  be left through an unknown parent.
\<close>

fun drop_common :: "string list \<Rightarrow> string list \<Rightarrow> string list \<times> string list" where
  "drop_common (x # xs) (y # ys) = (if x = y then drop_common xs ys else (x # xs, y # ys))"
| "drop_common xs ys = (xs, ys)"

definition path_rel :: "string \<Rightarrow> string \<Rightarrow> string result" where
  "path_rel base targ =
     (if is_abs base \<noteq> is_abs targ then Inl (PlainErr ''Rel: can't make path relative'')
      else case drop_common (clean_elems (is_abs base) (split_char path_sep base))
                            (clean_elems (is_abs targ) (split_char path_sep targ)) of
          (bs, ts) \<Rightarrow>
            if bs \<noteq> [] \<and> hd bs = ''..'' then Inl (PlainErr ''Rel: can't make path relative'')
            else if bs = [] \<and> ts = [] then Inr ''.''
            else Inr (join_str ''/'' (replicate (length bs) ''..'' @ ts)))"

section \<open>Paths as lists of elements\<close>

definition abs_elems :: "string \<Rightarrow> string list" where
  "abs_elems p = clean_elems True (split_char path_sep p)"

definition plain_elem :: "string \<Rightarrow> bool" where
  "plain_elem e \<longleftrightarrow> e \<noteq> [] \<and> e \<noteq> ''.'' \<and> e \<noteq> ''..'' \<and> path_sep \<notin> set e"

lemma clean_elem_plain:
  "list_all plain_elem acc \<Longrightarrow> path_sep \<notin> set e \<Longrightarrow> list_all plain_elem (clean_elem True acc e)"
  by (cases acc) (auto simp: clean_elem_def plain_elem_def)

lemma foldl_clean_plain:
  "list_all plain_elem acc \<Longrightarrow> (\<And>e. e \<in> set es \<Longrightarrow> path_sep \<notin> set e) \<Longrightarrow>
     list_all plain_elem (foldl (clean_elem True) acc es)"
  by (induction es arbitrary: acc) (simp_all add: clean_elem_plain)

lemma abs_elems_plain: "list_all plain_elem (abs_elems p)"
  using foldl_clean_plain [of "[]" "split_char path_sep p"] split_char_parts [of _ path_sep p]
  by (simp add: abs_elems_def clean_elems_def)

lemma foldl_clean_keep:
  "list_all plain_elem es \<Longrightarrow> foldl (clean_elem True) acc es = rev es @ acc"
  by (induction es arbitrary: acc) (simp_all add: clean_elem_def plain_elem_def)

lemma clean_elems_plain: "list_all plain_elem es \<Longrightarrow> clean_elems True es = es"
  by (simp add: clean_elems_def foldl_clean_keep)

lemma plain_no_sep: "list_all plain_elem es \<Longrightarrow> e \<in> set es \<Longrightarrow> path_sep \<notin> set e"
  by (auto simp: list_all_iff plain_elem_def)

lemma is_abs_clean: "is_abs p \<Longrightarrow> is_abs (path_clean p)"
  by (simp add: is_abs_def path_clean_def Let_def)

lemma path_clean_abs: "is_abs p \<Longrightarrow> path_clean p = ''/'' @ join_str ''/'' (abs_elems p)"
  by (simp add: path_clean_def abs_elems_def Let_def)

lemma split_rooted: "split_char path_sep (''/'' @ s) = [] # split_char path_sep s"
  by (simp add: path_sep_def)

lemma clean_elems_Nil_Cons: "clean_elems True ([] # es) = clean_elems True es"
  by (simp add: clean_elems_def clean_elem_def)

lemma abs_elems_rooted:
  assumes "list_all plain_elem es"
  shows "abs_elems (''/'' @ join_str ''/'' es) = es"
proof (cases "es = []")
  case True
  then show ?thesis by (simp add: abs_elems_def clean_elems_def clean_elem_def path_sep_def)
next
  case False
  have "split_char path_sep (join_str [path_sep] es) = es"
    using False plain_no_sep [OF assms] by (rule split_char_join)
  then have "split_char path_sep (''/'' @ join_str ''/'' es) = [] # es"
    by (simp add: path_sep_def)
  then show ?thesis
    using assms by (simp add: abs_elems_def clean_elems_Nil_Cons clean_elems_plain)
qed

text \<open>\<^verbatim>\<open>Clean\<close> keeps the elements, and is therefore idempotent on absolute paths.\<close>

lemma abs_elems_clean: "is_abs p \<Longrightarrow> abs_elems (path_clean p) = abs_elems p"
  by (simp add: path_clean_abs abs_elems_rooted [OF abs_elems_plain, simplified])

lemma path_clean_idem: "is_abs p \<Longrightarrow> path_clean (path_clean p) = path_clean p"
  by (metis abs_elems_clean is_abs_clean path_clean_abs)

lemma path_clean_eq_iff:
  assumes "is_abs p" and "is_abs q"
  shows "path_clean p = path_clean q \<longleftrightarrow> abs_elems p = abs_elems q"
  using assms by (metis abs_elems_clean path_clean_abs)

text \<open>Joining one more name extends the list by one step of the scan.\<close>

lemma path_join_abs: "is_abs a \<Longrightarrow> is_abs (path_join a b)"
  by (cases a) (auto simp: path_join_def is_abs_def path_clean_def Let_def)

lemma abs_elems_append_elem:
  "path_sep \<notin> set e \<Longrightarrow> abs_elems (a @ ''/'' @ e) = rev (clean_elem True (rev (abs_elems a)) e)"
  using split_char_append [of path_sep a e]
  by (simp add: abs_elems_def clean_elems_def split_char_no_sep path_sep_def)

lemma abs_elems_join_elem:
  assumes "is_abs a" and "path_sep \<notin> set e"
  shows "abs_elems (path_join a e) = rev (clean_elem True (rev (abs_elems a)) e)"
proof -
  have "a \<noteq> []" using assms(1) by (auto simp: is_abs_def)
  then have "path_join a e = path_clean (a @ ''/'' @ e)" by (simp add: path_join_def)
  moreover have "is_abs (a @ ''/'' @ e)"
    using assms(1) by (cases a) (simp_all add: is_abs_def)
  ultimately show ?thesis
    using abs_elems_append_elem [OF assms(2), of a] by (simp add: abs_elems_clean)
qed

lemma join_elem_cases:
  assumes "is_abs a" and "path_sep \<notin> set e"
  shows "abs_elems (path_join a e) =
    (if e = [] \<or> e = ''.'' then abs_elems a
     else if e = ''..'' then butlast (abs_elems a)
     else abs_elems a @ [e])"
proof -
  have up: "rev (clean_elem True (rev es) ''..'') = butlast es" if "list_all plain_elem es" for es
  proof (cases es rule: rev_cases)
    case (snoc ys y)
    then have "y \<noteq> ''..''" using that by (auto simp: plain_elem_def)
    then show ?thesis using snoc by (simp add: clean_elem_def)
  qed (simp add: clean_elem_def)
  show ?thesis
  proof (cases "e = ''..''")
    case True
    then show ?thesis using up [OF abs_elems_plain] abs_elems_join_elem [OF assms] by simp
  next
    case False
    then show ?thesis using abs_elems_join_elem [OF assms] by (simp add: clean_elem_def)
  qed
qed

section \<open>Containment\<close>

lemma drop_common_spec:
  "drop_common xs ys = (bs, ts) \<Longrightarrow>
     \<exists>cs. xs = cs @ bs \<and> ys = cs @ ts \<and> (bs = [] \<or> ts = [] \<or> hd bs \<noteq> hd ts)"
proof (induction xs ys arbitrary: bs ts rule: drop_common.induct)
  case (1 x xs y ys)
  show ?case
  proof (cases "x = y")
    case True
    with 1 obtain cs where "xs = cs @ bs" "ys = cs @ ts" "bs = [] \<or> ts = [] \<or> hd bs \<noteq> hd ts"
      by auto
    with True show ?thesis by (intro exI [of _ "y # cs"]) simp
  qed (use 1 in auto)
qed auto

lemma drop_common_prefix: "fst (drop_common xs ys) = [] \<longleftrightarrow> prefix xs ys"
  by (induction xs ys rule: drop_common.induct) auto

lemma drop_common_prefix_rest: "prefix xs ys \<Longrightarrow> drop_common xs ys = ([], drop (length xs) ys)"
  by (induction xs ys rule: drop_common.induct) auto

text \<open>The first byte of an element decides how a relative path starts.\<close>

definition escapes :: "string \<Rightarrow> bool" where
  "escapes rel \<longleftrightarrow> rel = ''..'' \<or> has_prefix rel ''../''"

lemma escapes_dotdot: "escapes (join_str ''/'' (''..'' # es))"
  by (cases es) (simp_all add: escapes_def has_prefix_def)

lemma not_escapes_plain:
  assumes "list_all plain_elem es" and "es \<noteq> []"
  shows "\<not> escapes (join_str ''/'' es)"
proof -
  obtain e es' where es: "es = e # es'" using assms(2) by (cases es) auto
  then have e: "plain_elem e" using assms(1) by simp
  have sep: "split_char path_sep (join_str [path_sep] es) = es"
    using assms(2) plain_no_sep [OF assms(1)] by (rule split_char_join)
  show ?thesis
  proof
    assume "escapes (join_str ''/'' es)"
    then consider "join_str ''/'' es = ''..''" | t where "join_str ''/'' es = ''..'' @ path_sep # t"
      by (auto simp: escapes_def has_prefix_def path_sep_def)
        (metis append_Cons append_Nil append_take_drop_id)
    then show False
    proof cases
      case 1
      with sep es e show ?thesis by (simp add: path_sep_def plain_elem_def)
    next
      case (2 t)
      with sep have "es = split_char path_sep ''..'' @ split_char path_sep t"
        by (simp add: path_sep_def flip: split_char_append)
      with es e show ?thesis by (simp add: path_sep_def plain_elem_def)
    qed
  qed
qed

lemma path_rel_abs:
  assumes "is_abs base" and "is_abs targ"
  shows "path_rel base targ =
    (case drop_common (abs_elems base) (abs_elems targ) of (bs, ts) \<Rightarrow>
       if bs = [] \<and> ts = [] then Inr ''.''
       else Inr (join_str ''/'' (replicate (length bs) ''..'' @ ts)))"
proof -
  obtain bs ts where d: "drop_common (abs_elems base) (abs_elems targ) = (bs, ts)"
    by (cases "drop_common (abs_elems base) (abs_elems targ)")
  then obtain cs where "abs_elems base = cs @ bs"
    using drop_common_spec [OF d] by blast
  then have "list_all plain_elem bs" using abs_elems_plain [of base] by simp
  then have "bs = [] \<or> hd bs \<noteq> ''..''" by (cases bs) (auto simp: plain_elem_def)
  then show ?thesis
    using assms d by (auto simp: path_rel_def abs_elems_def)
qed

text \<open>
  The relative path of two absolute paths starts with \<open>..\<close> exactly when the target is not
  below (or equal to) the base.
\<close>

lemma path_rel_escapes:
  assumes "is_abs base" and "is_abs targ"
  shows "\<exists>rel. path_rel base targ = Inr rel \<and>
           (escapes rel \<longleftrightarrow> \<not> prefix (abs_elems base) (abs_elems targ))"
proof -
  obtain bs ts where d: "drop_common (abs_elems base) (abs_elems targ) = (bs, ts)"
    by (cases "drop_common (abs_elems base) (abs_elems targ)")
  have bs: "bs = [] \<longleftrightarrow> prefix (abs_elems base) (abs_elems targ)"
    using drop_common_prefix [of "abs_elems base" "abs_elems targ"] d by simp
  obtain cs where "abs_elems targ = cs @ ts" using drop_common_spec [OF d] by blast
  then have ts: "list_all plain_elem ts" using abs_elems_plain [of targ] by simp
  show ?thesis
  proof (cases bs)
    case Nil
    then show ?thesis
      using bs ts not_escapes_plain [of ts]
      by (simp add: path_rel_abs [OF assms] d) (simp add: escapes_def has_prefix_def)
  next
    case (Cons b bs')
    then show ?thesis
      using bs escapes_dotdot by (simp add: path_rel_abs [OF assms] d)
  qed
qed

end
