(* ===== verification/Config.thy ===== *)
theory Config
  imports Domain Paths
begin

text \<open>
  Package \<^verbatim>\<open>config\<close> (coerce.go, config.go): the coercions of front-matter values, the
  resolution of environment references and paths, the constructor \<^verbatim>\<open>New\<close> with every
  default, the dispatch preflight checks and the per-state lookups. The operating system
  is the record \<open>os_env\<close>: environment variables (empty when unset, as \<^verbatim>\<open>os.Getenv\<close>
  returns), home and working directory, the directory for temporary files, and the
  contents of files.
\<close>

record os_env =
  os_Getenv :: "string \<Rightarrow> string"
  os_UserHomeDir :: "string result"
  os_Getwd :: "string result"
  os_TempDir :: string
  os_ReadFile :: "string \<Rightarrow> string result"

section \<open>coerce.go\<close>

definition subMap :: "(string, gvalue) gmap \<Rightarrow> string \<Rightarrow> (string, gvalue) gmap" where
  "subMap m key = (case map_get m key of Some (VMap sm) \<Rightarrow> sm | _ \<Rightarrow> [])"

definition asString :: "gvalue \<Rightarrow> string" where
  "asString v = (case v of VStr t \<Rightarrow> t | _ \<Rightarrow> [])"

fun firstNonEmpty :: "string list \<Rightarrow> string" where
  "firstNonEmpty [] = []"
| "firstNonEmpty (v # vals) = (if trim_space v \<noteq> [] then v else firstNonEmpty vals)"

fun strings_of :: "gvalue list \<Rightarrow> string list" where
  "strings_of [] = []"
| "strings_of (VStr s # vs) = s # strings_of vs"
| "strings_of (_ # vs) = strings_of vs"

definition asStringList :: "gvalue \<Rightarrow> string list" where
  "asStringList v = (case v of VList l \<Rightarrow> strings_of l | _ \<Rightarrow> [])"

definition defaultStringList :: "string list \<Rightarrow> string list \<Rightarrow> string list" where
  "defaultStringList v def = (if v = [] then def else v)"

text \<open>
  \<^verbatim>\<open>t == float64(int(t))\<close>: an integral value of the int64 range. Outside that range the
  conversion gives the least int64, which differs from \<^verbatim>\<open>t\<close>.
\<close>

definition float_to_int :: "gofloat \<Rightarrow> int option" where
  "float_to_int t = (case t of
     Fin q \<Rightarrow> (if of_int \<lfloor>q\<rfloor> = q \<and> in_int64 \<lfloor>q\<rfloor> then Some \<lfloor>q\<rfloor> else None)
   | _ \<Rightarrow> None)"

text \<open>\<open>None\<close> is the result \<open>(_, false)\<close>.\<close>

definition asIntStrict :: "gvalue \<Rightarrow> int \<Rightarrow> int option" where
  "asIntStrict v def = (case v of
     VNil \<Rightarrow> Some def
   | VInt t \<Rightarrow> Some t
   | VFloat t \<Rightarrow> float_to_int t
   | VStr t \<Rightarrow> (let s = trim_space t in if s = [] then Some def else atoi s)
   | _ \<Rightarrow> None)"

definition asIntDefault :: "gvalue \<Rightarrow> int \<Rightarrow> int" where
  "asIntDefault v def = (case asIntStrict v def of Some n \<Rightarrow> n | None \<Rightarrow> def)"

definition asBoolDefault :: "gvalue \<Rightarrow> bool \<Rightarrow> bool" where
  "asBoolDefault v def = (case v of
     VBool t \<Rightarrow> t
   | VStr t \<Rightarrow> (case parse_bool (trim_space t) of Some b \<Rightarrow> b | None \<Rightarrow> def)
   | _ \<Rightarrow> def)"

fun normalize_entries :: "(string \<times> gvalue) list \<Rightarrow> (string, int) gmap \<Rightarrow> (string, int) gmap" where
  "normalize_entries [] out = out"
| "normalize_entries ((k, val) # m) out =
     (case asIntStrict val 0 of
        None \<Rightarrow> normalize_entries m out
      | Some n \<Rightarrow> if n \<le> 0 then normalize_entries m out
                 else normalize_entries m (map_put (to_lower (trim_space k)) n out))"

definition normalizeStateMap :: "gvalue \<Rightarrow> (string, int) gmap" where
  "normalizeStateMap v = (case v of VMap m \<Rightarrow> normalize_entries m [] | _ \<Rightarrow> [])"

definition env_letter :: "nat \<Rightarrow> bool" where
  "env_letter r \<longleftrightarrow> r = 95 \<or> 65 \<le> r \<and> r \<le> 90 \<or> 97 \<le> r \<and> r \<le> 122"

text \<open>The loop runs over the runes; the index is 0 for the first one only.\<close>

definition isEnvName :: "string \<Rightarrow> bool" where
  "isEnvName s = (case runes s of
     [] \<Rightarrow> False
   | r # rs \<Rightarrow> env_letter r \<and> list_all (\<lambda>r. env_letter r \<or> 48 \<le> r \<and> r \<le> 57) rs)"

definition resolveEnv :: "os_env \<Rightarrow> string \<Rightarrow> string" where
  "resolveEnv env v0 =
     (let v = trim_space v0
      in if has_prefix v ''$'' \<and> 1 < length v \<and> isEnvName (drop 1 v)
         then os_Getenv env (drop 1 v) else v)"

text \<open>\<^verbatim>\<open>os.Expand\<close>: the name after a dollar sign and the bytes it takes.\<close>

definition shell_special :: "char \<Rightarrow> bool" where
  "shell_special c \<longleftrightarrow> c \<in> set ''*#$@!?-'' \<or> is_digit c"

definition alpha_num :: "char \<Rightarrow> bool" where
  "alpha_num c \<longleftrightarrow> c = CHR ''_'' \<or> is_digit c \<or> 97 \<le> byte c \<and> byte c \<le> 122
     \<or> 65 \<le> byte c \<and> byte c \<le> 90"

definition getShellName :: "string \<Rightarrow> string \<times> nat" where
  "getShellName s = (case s of
     [] \<Rightarrow> ([], 0)
   | c # cs \<Rightarrow>
       if c = CHR ''{'' then
         (if 2 \<le> length cs \<and> shell_special (cs ! 0) \<and> cs ! 1 = CHR ''}'' then ([cs ! 0], 3)
          else let name = takeWhile (\<lambda>x. x \<noteq> CHR ''}'') cs
               in if length name = length cs then ([], 1)
                  else if name = [] then ([], 2) else (name, length name + 2))
       else if shell_special c then ([c], 1)
       else (let name = takeWhile alpha_num s in (name, length name)))"

fun os_expand :: "(string \<Rightarrow> string) \<Rightarrow> string \<Rightarrow> string" where
  "os_expand mapping [] = []"
| "os_expand mapping (c # cs) =
     (if c = CHR ''$'' \<and> cs \<noteq> [] then
        (let name = fst (getShellName cs); w = snd (getShellName cs)
         in (if name = [] \<and> 0 < w then [] else if name = [] then [c] else mapping name)
              @ os_expand mapping (drop w cs))
      else c # os_expand mapping cs)"

definition expandPath :: "os_env \<Rightarrow> string \<Rightarrow> string" where
  "expandPath env p0 =
     (let p = trim_space p0; expanded = os_expand (os_Getenv env) p
      in if p = [] then p
         else if p = ''~'' then (case os_UserHomeDir env of Inr home \<Rightarrow> home | Inl _ \<Rightarrow> expanded)
         else if has_prefix p ''~/'' then
           (case os_UserHomeDir env of Inr home \<Rightarrow> path_join home (drop 2 p) | Inl _ \<Rightarrow> expanded)
         else expanded)"

section \<open>config.go: the typed view\<close>

record tracker_config =
  tc_Kind :: string
  tc_Endpoint :: string
  tc_APIKey :: string
  tc_ProjectSlug :: string
  tc_RequiredLabels :: "string list"
  tc_ActiveStates :: "string list"
  tc_TerminalStates :: "string list"
  tc_Assignee :: string

record hooks_config =
  hk_AfterCreate :: string
  hk_BeforeRun :: string
  hk_AfterRun :: string
  hk_BeforeRemove :: string
  hk_TimeoutMs :: int

record agent_config =
  ac_MaxConcurrent :: int
  ac_MaxTurns :: int
  ac_MaxRetryBackoffMs :: int
  ac_MaxConcurrentByState :: "(string, int) gmap"

record claude_config =
  cc_Command :: string
  cc_Model :: string
  cc_ReasoningEffort :: string
  cc_ResumeAcrossTurns :: bool
  cc_TurnTimeoutMs :: int
  cc_ReadTimeoutMs :: int
  cc_StallTimeoutMs :: int

record state_override =
  so_Model :: string
  so_ReasoningEffort :: string
  so_PromptTemplate :: string
  so_MaxTurns :: int

record server_config =
  sv_Port :: int
  sv_PortSet :: bool

text \<open>\<^verbatim>\<open>PollingConfig\<close> and \<^verbatim>\<open>WorkspaceConfig\<close> have one field each, kept directly.\<close>

record config =
  c_Tracker :: tracker_config
  c_PollingIntervalMs :: int
  c_WorkspaceRoot :: string
  c_Hooks :: hooks_config
  c_Agent :: agent_config
  c_Claude :: claude_config
  c_Server :: server_config
  c_States :: "(string, state_override) gmap"
  c_workflowDir :: string

definition defaultLinearEndpoint :: string where
  "defaultLinearEndpoint = ''https://api.linear.app/graphql''"

definition defaultClaudeCommand :: string where
  "defaultClaudeCommand = ''claude -p --output-format stream-json --verbose''"

definition normState :: "string \<Rightarrow> string" where
  "normState state = to_lower (trim_space state)"

definition validEffortLevels :: "string list" where
  "validEffortLevels = [''low'', ''medium'', ''high'', ''xhigh'', ''max'']"

definition validateEffort :: "string \<Rightarrow> go_error option" where
  "validateEffort e =
     (if e = [] \<or> to_lower e \<in> set validEffortLevels then None
      else Some (TypedErr ''invalid_config_value''
             ''reasoning_effort must be one of low, medium, high, xhigh, max''))"

definition under_base :: "os_env \<Rightarrow> string \<Rightarrow> string \<Rightarrow> string" where
  "under_base env workflowDir p =
     (if is_abs p then p
      else path_join (if workflowDir = []
                      then (case os_Getwd env of Inr wd \<Rightarrow> wd | Inl _ \<Rightarrow> [])
                      else workflowDir) p)"

definition resolveWorkspaceRoot :: "os_env \<Rightarrow> string \<Rightarrow> string \<Rightarrow> string" where
  "resolveWorkspaceRoot env workflowDir root0 =
     (let root1 = (if trim_space root0 = [] then path_join (os_TempDir env) ''symphony_workspaces''
                   else expandPath env root0);
          root2 = under_base env workflowDir root1;
          root3 = (case path_abs (os_Getwd env) root2 of Inr p \<Rightarrow> p | Inl _ \<Rightarrow> root2)
      in path_clean root3)"

definition readPromptFile :: "os_env \<Rightarrow> string \<Rightarrow> string \<Rightarrow> string result" where
  "readPromptFile env workflowDir p =
     (case os_ReadFile env (under_base env workflowDir (expandPath env p)) of
        Inl _ \<Rightarrow> Inl (TypedErr ''missing_prompt_file'' p)
      | Inr body \<Rightarrow> Inr (trim_space body))"

text \<open>One entry of the \<^verbatim>\<open>states\<close> object.\<close>

definition parse_override ::
  "os_env \<Rightarrow> string \<Rightarrow> (string, gvalue) gmap \<Rightarrow> state_override result" where
  "parse_override env workflowDir sm =
     (let effort = trim_space (asString (vget sm ''reasoning_effort''));
          turns = (case asIntStrict (vget sm ''max_turns'') 0 of
                     Some mt \<Rightarrow> if 0 < mt then mt else 0 | None \<Rightarrow> 0);
          p = trim_space (asString (vget sm ''prompt''));
          ov = (\<lambda>body. \<lparr>so_Model = trim_space (asString (vget sm ''model'')),
                  so_ReasoningEffort = effort, so_PromptTemplate = body, so_MaxTurns = turns\<rparr>)
      in case validateEffort effort of
           Some e \<Rightarrow> Inl e
         | None \<Rightarrow> if p = [] then Inr (ov [])
                   else (case readPromptFile env workflowDir p of
                           Inl e \<Rightarrow> Inl e | Inr body \<Rightarrow> Inr (ov body)))"

fun parse_overrides :: "os_env \<Rightarrow> string \<Rightarrow> (string \<times> gvalue) list \<Rightarrow>
  (string, state_override) gmap \<Rightarrow> (string, state_override) gmap result" where
  "parse_overrides env dir [] out = Inr out"
| "parse_overrides env dir ((k, VMap sm) # m) out =
     (case parse_override env dir sm of
        Inl e \<Rightarrow> Inl e
      | Inr ov \<Rightarrow> parse_overrides env dir m (map_put (normState k) ov out))"
| "parse_overrides env dir ((k, _) # m) out = parse_overrides env dir m out"

definition parseStateOverrides ::
  "os_env \<Rightarrow> string \<Rightarrow> gvalue \<Rightarrow> (string, state_override) gmap result" where
  "parseStateOverrides env workflowDir v =
     (case v of VMap m \<Rightarrow> parse_overrides env workflowDir m [] | _ \<Rightarrow> Inr [])"

section \<open>config.go: the constructor\<close>

definition new_tracker :: "os_env \<Rightarrow> (string, gvalue) gmap \<Rightarrow> tracker_config" where
  "new_tracker env tracker =
     \<lparr>tc_Kind = trim_space (asString (vget tracker ''kind'')),
      tc_Endpoint = firstNonEmpty [asString (vget tracker ''endpoint''), defaultLinearEndpoint],
      tc_APIKey = resolveEnv env (asString (vget tracker ''api_key'')),
      tc_ProjectSlug = trim_space (asString (vget tracker ''project_slug'')),
      tc_RequiredLabels = asStringList (vget tracker ''required_labels''),
      tc_ActiveStates = defaultStringList (asStringList (vget tracker ''active_states''))
        [''Todo'', ''In Progress''],
      tc_TerminalStates = defaultStringList (asStringList (vget tracker ''terminal_states''))
        [''Closed'', ''Cancelled'', ''Canceled'', ''Duplicate'', ''Done''],
      tc_Assignee = trim_space (asString (vget tracker ''assignee''))\<rparr>"

definition new_hooks :: "(string, gvalue) gmap \<Rightarrow> hooks_config result" where
  "new_hooks hooks =
     (case asIntStrict (vget hooks ''timeout_ms'') 60000 of
        None \<Rightarrow> Inl (TypedErr ''invalid_config_value'' ''hooks.timeout_ms must be a non-negative integer'')
      | Some timeoutMs \<Rightarrow>
          if timeoutMs < 0
          then Inl (TypedErr ''invalid_config_value'' ''hooks.timeout_ms must be a non-negative integer'')
          else Inr \<lparr>hk_AfterCreate = asString (vget hooks ''after_create''),
                    hk_BeforeRun = asString (vget hooks ''before_run''),
                    hk_AfterRun = asString (vget hooks ''after_run''),
                    hk_BeforeRemove = asString (vget hooks ''before_remove''),
                    hk_TimeoutMs = timeoutMs\<rparr>)"

definition new_agent :: "(string, gvalue) gmap \<Rightarrow> agent_config result" where
  "new_agent agent =
     (case asIntStrict (vget agent ''max_turns'') 20 of
        None \<Rightarrow> Inl (TypedErr ''invalid_config_value'' ''agent.max_turns must be a positive integer'')
      | Some maxTurns \<Rightarrow>
          if maxTurns \<le> 0
          then Inl (TypedErr ''invalid_config_value'' ''agent.max_turns must be a positive integer'')
          else Inr \<lparr>ac_MaxConcurrent = asIntDefault (vget agent ''max_concurrent_agents'') 10,
                    ac_MaxTurns = maxTurns,
                    ac_MaxRetryBackoffMs = asIntDefault (vget agent ''max_retry_backoff_ms'') 300000,
                    ac_MaxConcurrentByState =
                      normalizeStateMap (vget agent ''max_concurrent_agents_by_state'')\<rparr>)"

definition new_claude :: "(string, gvalue) gmap \<Rightarrow> claude_config result" where
  "new_claude claude =
     (let effort = trim_space (asString (vget claude ''reasoning_effort''))
      in case validateEffort effort of
           Some e \<Rightarrow> Inl e
         | None \<Rightarrow> Inr
            \<lparr>cc_Command = firstNonEmpty [asString (vget claude ''command''), defaultClaudeCommand],
             cc_Model = trim_space (asString (vget claude ''model'')),
             cc_ReasoningEffort = effort,
             cc_ResumeAcrossTurns = asBoolDefault (vget claude ''resume_across_turns'') True,
             cc_TurnTimeoutMs = asIntDefault (vget claude ''turn_timeout_ms'') 3600000,
             cc_ReadTimeoutMs = asIntDefault (vget claude ''read_timeout_ms'') 5000,
             cc_StallTimeoutMs = asIntDefault (vget claude ''stall_timeout_ms'') 300000\<rparr>)"

definition new_server :: "(string, gvalue) gmap \<Rightarrow> server_config" where
  "new_server server =
     (case map_get server ''port'' of
        None \<Rightarrow> \<lparr>sv_Port = 0, sv_PortSet = False\<rparr>
      | Some v \<Rightarrow> (case asIntStrict v 0 of
            Some p \<Rightarrow> \<lparr>sv_Port = p, sv_PortSet = True\<rparr>
          | None \<Rightarrow> \<lparr>sv_Port = 0, sv_PortSet = False\<rparr>))"

text \<open>\<^verbatim>\<open>New\<close>: the sections in the order of the code, stopping at the first error.\<close>

definition config_New :: "os_env \<Rightarrow> (string, gvalue) gmap \<Rightarrow> string \<Rightarrow> config result" where
  "config_New env raw workflowDir =
     (case new_hooks (subMap raw ''hooks'') of
        Inl e \<Rightarrow> Inl e
      | Inr hooks \<Rightarrow>
      (case new_agent (subMap raw ''agent'') of
        Inl e \<Rightarrow> Inl e
      | Inr agent \<Rightarrow>
      (case new_claude (subMap raw ''claude'') of
        Inl e \<Rightarrow> Inl e
      | Inr claude \<Rightarrow>
      (case parseStateOverrides env workflowDir (vget raw ''states'') of
        Inl e \<Rightarrow> Inl e
      | Inr states \<Rightarrow> Inr
         \<lparr>c_Tracker = new_tracker env (subMap raw ''tracker''),
          c_PollingIntervalMs = asIntDefault (vget (subMap raw ''polling'') ''interval_ms'') 30000,
          c_WorkspaceRoot =
            resolveWorkspaceRoot env workflowDir (asString (vget (subMap raw ''workspace'') ''root'')),
          c_Hooks = hooks, c_Agent = agent, c_Claude = claude,
          c_Server = new_server (subMap raw ''server''),
          c_States = states, c_workflowDir = workflowDir\<rparr>))))"

section \<open>config.go: preflight checks and lookups\<close>

definition ValidateDispatch :: "config \<Rightarrow> go_error option" where
  "ValidateDispatch c =
     (let t = c_Tracker c
      in if tc_Kind t = [] then Some (TypedErr ''unsupported_tracker_kind'' ''tracker.kind is required'')
         else if tc_Kind t \<noteq> ''linear''
           then Some (TypedErr ''unsupported_tracker_kind'' (''unsupported tracker.kind: '' @ tc_Kind t))
         else if tc_APIKey t = []
           then Some (TypedErr ''missing_tracker_api_key'' ''tracker.api_key is missing or resolved empty'')
         else if tc_ProjectSlug t = []
           then Some (TypedErr ''missing_tracker_project_slug''
                  ''tracker.project_slug is required for linear'')
         else if trim_space (cc_Command (c_Claude c)) = []
           then Some (TypedErr ''missing_claude_command'' ''claude.command must be present and non-empty'')
         else None)"

definition PerStateLimit :: "config \<Rightarrow> string \<Rightarrow> int" where
  "PerStateLimit c state =
     (case map_get (ac_MaxConcurrentByState (c_Agent c)) (normState state) of
        Some v \<Rightarrow> v | None \<Rightarrow> ac_MaxConcurrent (c_Agent c))"

definition ModelForState :: "config \<Rightarrow> string \<Rightarrow> string" where
  "ModelForState c state =
     (case map_get (c_States c) (normState state) of
        Some ov \<Rightarrow> if so_Model ov \<noteq> [] then so_Model ov else cc_Model (c_Claude c)
      | None \<Rightarrow> cc_Model (c_Claude c))"

definition ReasoningEffortForState :: "config \<Rightarrow> string \<Rightarrow> string" where
  "ReasoningEffortForState c state =
     (case map_get (c_States c) (normState state) of
        Some ov \<Rightarrow> if so_ReasoningEffort ov \<noteq> [] then so_ReasoningEffort ov
                   else cc_ReasoningEffort (c_Claude c)
      | None \<Rightarrow> cc_ReasoningEffort (c_Claude c))"

definition MaxTurnsForState :: "config \<Rightarrow> string \<Rightarrow> int" where
  "MaxTurnsForState c state =
     (case map_get (c_States c) (normState state) of
        Some ov \<Rightarrow> if 0 < so_MaxTurns ov then so_MaxTurns ov else ac_MaxTurns (c_Agent c)
      | None \<Rightarrow> ac_MaxTurns (c_Agent c))"

definition PromptForState :: "config \<Rightarrow> string \<Rightarrow> string \<Rightarrow> string" where
  "PromptForState c state def =
     (case map_get (c_States c) (normState state) of
        Some ov \<Rightarrow> if so_PromptTemplate ov \<noteq> [] then so_PromptTemplate ov else def
      | None \<Rightarrow> def)"

definition HasPromptOverride :: "config \<Rightarrow> string \<Rightarrow> bool" where
  "HasPromptOverride c state =
     (case map_get (c_States c) (normState state) of
        Some ov \<Rightarrow> so_PromptTemplate ov \<noteq> [] | None \<Rightarrow> False)"

section \<open>Facts\<close>

lemma normState_NormalizeState: "normState s = NormalizeState s"
  by (simp add: normState_def NormalizeState_def)

lemma asIntStrict_VNil [simp]: "asIntStrict VNil d = Some d"
  by (simp add: asIntStrict_def)

lemma normalize_entries_pos:
  "(\<forall>k n. map_get out k = Some n \<longrightarrow> 0 < n) \<Longrightarrow>
     map_get (normalize_entries m out) k = Some n \<Longrightarrow> 0 < n"
  by (induction m out rule: normalize_entries.induct) (auto split: option.splits if_splits)

lemma normalizeStateMap_pos: "map_get (normalizeStateMap v) k = Some n \<Longrightarrow> 0 < n"
  using normalize_entries_pos [of "[]"] by (auto simp: normalizeStateMap_def split: gvalue.splits)

lemma normalize_entries_wf: "map_wf out \<Longrightarrow> map_wf (normalize_entries m out)"
  by (induction m out rule: normalize_entries.induct) (auto split: option.splits)

lemma firstNonEmpty_default:
  "trim_space d \<noteq> [] \<Longrightarrow> trim_space (firstNonEmpty [v, d]) \<noteq> []"
  by simp

lemma defaultStringList_nonempty: "d \<noteq> [] \<Longrightarrow> defaultStringList v d \<noteq> []"
  by (simp add: defaultStringList_def)

lemma validateEffort_None:
  "validateEffort e = None \<longleftrightarrow> e = [] \<or> to_lower e \<in> set validEffortLevels"
  by (simp add: validateEffort_def)

text \<open>What an override entry of the result satisfies.\<close>

definition override_ok :: "state_override \<Rightarrow> bool" where
  "override_ok ov \<longleftrightarrow> 0 \<le> so_MaxTurns ov \<and> validateEffort (so_ReasoningEffort ov) = None"

lemma parse_override_ok: "parse_override env dir sm = Inr ov \<Longrightarrow> override_ok ov"
  by (auto simp: parse_override_def override_ok_def Let_def split: option.splits if_splits sum.splits)

lemma parse_overrides_ok:
  "parse_overrides env dir m out = Inr res \<Longrightarrow> (\<forall>k ov. map_get out k = Some ov \<longrightarrow> override_ok ov) \<Longrightarrow>
     map_get res k = Some ov \<Longrightarrow> override_ok ov"
  by (induction env dir m out rule: parse_overrides.induct)
    (auto split: sum.splits if_splits dest: parse_override_ok)

lemma parseStateOverrides_ok:
  "parseStateOverrides env dir v = Inr res \<Longrightarrow> map_get res k = Some ov \<Longrightarrow> override_ok ov"
  using parse_overrides_ok [of env dir _ "[]" res k ov]
  by (auto simp: parseStateOverrides_def split: gvalue.splits)

text \<open>The workspace root is absolute and clean as soon as the workflow directory is absolute.\<close>

lemma under_base_abs: "is_abs dir \<Longrightarrow> is_abs (under_base env dir p)"
  by (cases "is_abs p") (auto simp: under_base_def path_join_abs, simp add: is_abs_def)

lemma resolveWorkspaceRoot_abs:
  assumes "is_abs dir"
  shows "is_abs (resolveWorkspaceRoot env dir r)
    \<and> path_clean (resolveWorkspaceRoot env dir r) = resolveWorkspaceRoot env dir r"
proof -
  have "is_abs (under_base env dir p)" for p by (rule under_base_abs [OF assms])
  then show ?thesis
    by (simp add: resolveWorkspaceRoot_def Let_def path_abs_def is_abs_clean path_clean_idem)
qed

lemma config_New_sections:
  assumes "config_New env raw dir = Inr c"
  shows "new_hooks (subMap raw ''hooks'') = Inr (c_Hooks c)"
    and "new_agent (subMap raw ''agent'') = Inr (c_Agent c)"
    and "new_claude (subMap raw ''claude'') = Inr (c_Claude c)"
    and "parseStateOverrides env dir (vget raw ''states'') = Inr (c_States c)"
    and "c_Tracker c = new_tracker env (subMap raw ''tracker'')"
    and "c_WorkspaceRoot c
           = resolveWorkspaceRoot env dir (asString (vget (subMap raw ''workspace'') ''root''))"
  using assms by (auto simp: config_New_def split: sum.splits)

lemma new_agent_ok:
  "new_agent m = Inr a \<Longrightarrow> 0 < ac_MaxTurns a
     \<and> (\<forall>k n. map_get (ac_MaxConcurrentByState a) k = Some n \<longrightarrow> 0 < n)"
  using normalizeStateMap_pos by (auto simp: new_agent_def split: option.splits if_splits)

lemma new_hooks_ok: "new_hooks m = Inr h \<Longrightarrow> 0 \<le> hk_TimeoutMs h"
  by (auto simp: new_hooks_def split: option.splits if_splits)

lemma default_command_nonblank: "trim_space defaultClaudeCommand \<noteq> []"
  by (simp add: defaultClaudeCommand_def str_eval)

lemma new_claude_ok:
  "new_claude m = Inr cl \<Longrightarrow> validateEffort (cc_ReasoningEffort cl) = None \<and> trim_space (cc_Command cl) \<noteq> []"
  using default_command_nonblank
  by (auto simp: new_claude_def Let_def split: option.splits if_splits)

section \<open>Properties\<close>

definition ex_os :: os_env where
  "ex_os = \<lparr>os_Getenv = (\<lambda>_. []), os_UserHomeDir = Inr ''/h'', os_Getwd = Inr ''/d'', os_TempDir = ''/tmp'',
     os_ReadFile = (\<lambda>_. Inl (PlainErr ''no file''))\<rparr>"

text \<open>A raw front matter: a state limit under an untidy key, and one override.\<close>

definition ex_raw :: "(string, gvalue) gmap" where
  "ex_raw = [(''agent'', VMap [(''max_concurrent_agents_by_state'', VMap [('' Todo'', VInt 2), (''x'', VInt 0)])]),
     (''states'', VMap [(''Todo'', VMap [(''max_turns'', VInt 5)])])]"

lemma ex_config: "\<exists>c. config_New ex_os ex_raw ''/d'' = Inr c \<and> map_get (c_States c) ''todo'' \<noteq> None
    \<and> map_get (ac_MaxConcurrentByState (c_Agent c)) ''todo'' = Some 2"
  by (simp add: config_New_def ex_raw_def subMap_def vget_def map_get_def new_hooks_def new_agent_def new_claude_def
      asIntStrict_def validateEffort_def parseStateOverrides_def parse_override_def asString_def Let_def
      asIntDefault_def normalizeStateMap_def map_put_def normState_def str_eval)
    (simp add: char_of_def bit_Suc_0_iff)

definition config_ok :: "config \<Rightarrow> bool" where
  "config_ok c \<longleftrightarrow>
     is_abs (c_WorkspaceRoot c) \<and> path_clean (c_WorkspaceRoot c) = c_WorkspaceRoot c
     \<and> 0 \<le> hk_TimeoutMs (c_Hooks c) \<and> 0 < ac_MaxTurns (c_Agent c)
     \<and> (\<forall>k n. map_get (ac_MaxConcurrentByState (c_Agent c)) k = Some n \<longrightarrow> 0 < n)
     \<and> tc_ActiveStates (c_Tracker c) \<noteq> [] \<and> tc_TerminalStates (c_Tracker c) \<noteq> []
     \<and> trim_space (cc_Command (c_Claude c)) \<noteq> []
     \<and> validateEffort (cc_ReasoningEffort (c_Claude c)) = None
     \<and> (\<forall>k ov. map_get (c_States c) k = Some ov \<longrightarrow> override_ok ov)"

lemma config_New_ok: "is_abs dir \<Longrightarrow> config_New env raw dir = Inr c \<Longrightarrow> config_ok c"
  using config_New_sections [of env raw dir c] resolveWorkspaceRoot_abs [of dir env]
    new_agent_ok [of _ "c_Agent c"] new_hooks_ok [of _ "c_Hooks c"] new_claude_ok [of _ "c_Claude c"]
    parseStateOverrides_ok [of env dir _ "c_States c"]
  unfolding config_ok_def by (simp add: new_tracker_def defaultStringList_nonempty)

text \<open>
  C33: Whatever the front matter holds, a configuration that is accepted is usable: the
  workspace root is absolute and clean, turn budgets and state limits are positive, the hook
  timeout is not negative, the state lists and the agent command are not empty, and every
  effort, global or per state, is one of the valid levels; only the tracker settings are
  left for the check before dispatch.
\<close>

theorem accepted_config_usable:
  assumes "is_abs dir" and "config_New env raw dir = Inr c"
  shows "config_ok c \<and> 0 < MaxTurnsForState c st
    \<and> validateEffort (ReasoningEffortForState c st) = None
    \<and> (\<forall>e. ValidateDispatch c = Some e \<longrightarrow> err_code e \<in>
        {''unsupported_tracker_kind'', ''missing_tracker_api_key'', ''missing_tracker_project_slug''})"
proof -
  have ok: "config_ok c" by (rule config_New_ok [OF assms])
  then have "0 < MaxTurnsForState c st"
    by (auto simp: config_ok_def MaxTurnsForState_def split: option.splits)
  moreover have "validateEffort (ReasoningEffortForState c st) = None"
    using ok by (auto simp: config_ok_def ReasoningEffortForState_def override_ok_def split: option.splits)
  moreover have "err_code e \<in>
        {''unsupported_tracker_kind'', ''missing_tracker_api_key'', ''missing_tracker_project_slug''}"
    if "ValidateDispatch c = Some e" for e
    using that ok by (auto simp: ValidateDispatch_def config_ok_def Let_def split: if_splits)
  ultimately show ?thesis using ok by blast
qed

theorem accepted_config_usable_witness:
  "\<exists>c. config_New ex_os ex_raw ''/d'' = Inr c \<and> config_ok c \<and> 0 < MaxTurnsForState c ''Todo''"
proof -
  have "is_abs ''/d''" by (simp add: is_abs_def)
  then show ?thesis using ex_config accepted_config_usable by blast
qed

text \<open>
  Lookups by tracker state ignore case and surrounding white space, and the per-state
  value, where one is configured, takes precedence over the global one.
\<close>

theorem state_lookup_spelling:
  assumes "NormalizeState s = NormalizeState t"
  shows "PerStateLimit c s = PerStateLimit c t \<and> ModelForState c s = ModelForState c t
    \<and> ReasoningEffortForState c s = ReasoningEffortForState c t \<and> MaxTurnsForState c s = MaxTurnsForState c t
    \<and> PromptForState c s d = PromptForState c t d \<and> HasPromptOverride c s = HasPromptOverride c t
    \<and> (\<forall>n. map_get (ac_MaxConcurrentByState (c_Agent c)) (NormalizeState t) = Some n \<longrightarrow> PerStateLimit c s = n)
    \<and> (map_get (ac_MaxConcurrentByState (c_Agent c)) (NormalizeState t) = None \<longrightarrow>
         PerStateLimit c s = ac_MaxConcurrent (c_Agent c))
    \<and> (HasPromptOverride c s = (PromptForState c t [] \<noteq> []))"
  using assms
  by (simp add: PerStateLimit_def ModelForState_def ReasoningEffortForState_def MaxTurnsForState_def
      PromptForState_def HasPromptOverride_def normState_NormalizeState split: option.split)

theorem state_lookup_spelling_witness:
  "\<exists>c. config_New ex_os ex_raw ''/d'' = Inr c \<and> PerStateLimit c '' TODO '' = 2
    \<and> MaxTurnsForState c '' TODO '' = MaxTurnsForState c ''Todo''"
proof -
  have n: "NormalizeState '' TODO '' = NormalizeState ''Todo''" "NormalizeState ''Todo'' = ''todo''"
    by (simp_all add: NormalizeState_def str_eval char_of_def bit_Suc_0_iff)
  obtain c where "config_New ex_os ex_raw ''/d'' = Inr c"
    "map_get (ac_MaxConcurrentByState (c_Agent c)) ''todo'' = Some 2" using ex_config by blast
  with state_lookup_spelling [OF n(1), of c "[]"] show ?thesis by (auto simp: n(2))
qed

text \<open>
  Two keys that differ only in spelling fall together, and the later entry wins. The entries come
  from a Go map, whose iteration order is random: which limit applies is then a matter of chance.
\<close>

lemma state_key_order_matters:
  "normalizeStateMap (VMap [(''Todo'', VInt 1), (''todo'', VInt 2)]) = [(''todo'', 2)]"
  "normalizeStateMap (VMap [(''todo'', VInt 2), (''Todo'', VInt 1)]) = [(''todo'', 1)]"
  by (simp_all add: normalizeStateMap_def asIntStrict_def map_put_def str_eval)
    (simp_all add: char_of_def bit_Suc_0_iff)

end
