(* ===== verification/Linear.thy ===== *)
theory Linear
  imports Config
begin

text \<open>
  Packages \<^verbatim>\<open>tracker\<close> and \<^verbatim>\<open>tracker/linear\<close>: the Linear client, its constructor with
  the credential checks, and what the composition root (\<^verbatim>\<open>buildFactories\<close> in
  cmd/symphony/main.go) passes to it.
\<close>

record linear_client =
  lc_endpoint :: string
  lc_apiKey :: string
  lc_projectSlug :: string
  lc_activeStates :: "string list"
  lc_pageSize :: int

definition DefaultPageSize :: int where "DefaultPageSize = 50"

definition linear_New ::
  "string \<Rightarrow> string \<Rightarrow> string \<Rightarrow> string list \<Rightarrow> int \<Rightarrow> linear_client result" where
  "linear_New endpoint apiKey projectSlug activeStates pageSize =
     (if apiKey = [] then Inl (TypedErr ''missing_tracker_api_key'' ''tracker.api_key is required'')
      else if projectSlug = []
        then Inl (TypedErr ''missing_tracker_project_slug'' ''tracker.project_slug is required'')
      else Inr \<lparr>lc_endpoint = (if endpoint = [] then defaultLinearEndpoint else endpoint),
                lc_apiKey = apiKey, lc_projectSlug = projectSlug, lc_activeStates = activeStates,
                lc_pageSize = (if pageSize \<le> 0 then DefaultPageSize else pageSize)\<rparr>)"

text \<open>\<^verbatim>\<open>Factories.Tracker\<close>: the page size is left at its zero value.\<close>

definition tracker_factory :: "config \<Rightarrow> linear_client result" where
  "tracker_factory cfg =
     (let t = c_Tracker cfg
      in linear_New (tc_Endpoint t) (tc_APIKey t) (tc_ProjectSlug t) (tc_ActiveStates t) 0)"

lemma tracker_factory_error_iff:
  "(\<exists>e. tracker_factory cfg = Inl e) \<longleftrightarrow>
     tc_APIKey (c_Tracker cfg) = [] \<or> tc_ProjectSlug (c_Tracker cfg) = []"
  by (auto simp: tracker_factory_def linear_New_def Let_def)

lemma ValidateDispatch_tracker:
  "ValidateDispatch cfg = None \<Longrightarrow> \<exists>c. tracker_factory cfg = Inr c"
  by (auto simp: ValidateDispatch_def tracker_factory_def linear_New_def Let_def split: if_splits)

end
