(* ===== verification/Workspace.thy ===== *)
theory Workspace
  imports Domain Paths
begin

text \<open>
  Package \<^verbatim>\<open>workspace\<close>: the per-issue directories, their lifecycle hooks and the path
  checks before every write. The operating system is the record \<open>fs_env\<close> of the outcomes
  of the calls one method makes; a method returns, with its result, the list of the
  operations it performed that change the file system or run a script, in order.
\<close>

datatype stat_result = StatDir | StatOther | StatNotExist | StatErr string
datatype mkdir_result = MkdirOK | MkdirExist | MkdirErr string
datatype script_result = ScriptOK | ScriptTimeout | ScriptErr string

text \<open>
  What a call meets: the file system, and whether its context is done by the time it would start
  a hook. A command under a context that is done is never started (\<^verbatim>\<open>exec.Cmd.Start\<close>).
\<close>

record fs_env =
  fs_Getwd :: "string result"
  fs_Stat :: "string \<Rightarrow> stat_result"
  fs_MkdirAll :: "string \<Rightarrow> string option"
  fs_Mkdir :: "string \<Rightarrow> mkdir_result"
  fs_RemoveAll :: "string \<Rightarrow> string option"
  fs_Done :: bool
  fs_RunScript :: "string \<Rightarrow> string \<Rightarrow> int \<Rightarrow> script_result"

datatype fs_op =
    OpMkdirAll (op_path: string)
  | OpMkdir (op_path: string)
  | OpRemoveAll (op_path: string)
  | OpScript (op_script: string) (op_path: string) (op_timeout: int)

record hooks =
  h_AfterCreate :: string
  h_BeforeRun :: string
  h_AfterRun :: string
  h_BeforeRemove :: string
  h_TimeoutMs :: int

record manager =
  m_root :: string
  m_hooks :: hooks

section \<open>The methods\<close>

definition scriptFor :: "manager \<Rightarrow> string \<Rightarrow> string" where
  "scriptFor m name =
     (if name = ''after_create'' then h_AfterCreate (m_hooks m)
      else if name = ''before_run'' then h_BeforeRun (m_hooks m)
      else if name = ''after_run'' then h_AfterRun (m_hooks m)
      else if name = ''before_remove'' then h_BeforeRemove (m_hooks m)
      else [])"

definition PathFor :: "manager \<Rightarrow> string \<Rightarrow> string" where
  "PathFor m identifier = path_join (m_root m) (WorkspaceKey identifier)"

definition assertContained :: "fs_env \<Rightarrow> manager \<Rightarrow> string \<Rightarrow> go_error option" where
  "assertContained env m path =
     (case path_abs (fs_Getwd env) path of
        Inl e \<Rightarrow> Some (PlainErr (''resolve workspace path: '' @ error_string e))
      | Inr absPath0 \<Rightarrow>
      (case path_abs (fs_Getwd env) (m_root m) of
        Inl e \<Rightarrow> Some (PlainErr (''resolve workspace root: '' @ error_string e))
      | Inr absRoot0 \<Rightarrow>
        (let absPath = path_clean absPath0; absRoot = path_clean absRoot0
         in case path_rel absRoot absPath of
              Inl e \<Rightarrow> Some (PlainErr (''workspace path escapes root: '' @ error_string e))
            | Inr rel \<Rightarrow>
                if rel = ''..'' \<or> has_prefix rel ''../''
                then Some (PlainErr (''workspace path '' @ go_quote absPath @ '' escapes root ''
                             @ go_quote absRoot))
                else None)))"

definition hook_timeout :: "manager \<Rightarrow> int" where
  "hook_timeout m =
     (let timeout = duration_ms (h_TimeoutMs (m_hooks m))
      in if timeout \<le> 0 then 60 * 1000000000 else timeout)"

definition RunHook :: "fs_env \<Rightarrow> manager \<Rightarrow> string \<Rightarrow> string \<Rightarrow> fs_op list \<times> go_error option" where
  "RunHook env m name path =
     (let script = scriptFor m name
      in if trim_space script = [] then ([], None)
         else if fs_Done env then ([], Some (PlainErr (''hook '' @ name @ '' failed: context canceled'')))
         else ([OpScript script path (hook_timeout m)],
               (case fs_RunScript env script path (hook_timeout m) of
                  ScriptOK \<Rightarrow> None
                | ScriptTimeout \<Rightarrow> Some (PlainErr (''hook '' @ name @ '' timed out''))
                | ScriptErr e \<Rightarrow> Some (PlainErr (''hook '' @ name @ '' failed: '' @ e)))))"

text \<open>The tail of \<^verbatim>\<open>CreateForIssue\<close>, once the directory is known to exist.\<close>

definition after_create ::
  "fs_env \<Rightarrow> manager \<Rightarrow> workspace \<Rightarrow> fs_op list \<times> workspace result" where
  "after_create env m ws =
     (if w_CreatedNow ws \<and> trim_space (h_AfterCreate (m_hooks m)) \<noteq> [] then
        (let r = RunHook env m ''after_create'' (w_Path ws)
         in case snd r of
              None \<Rightarrow> (fst r, Inr ws)
            | Some e \<Rightarrow>
                (fst r @ [OpRemoveAll (w_Path ws)],
                 Inl (PlainErr (''after_create hook failed: '' @ error_string e))))
      else ([], Inr ws))"

definition CreateForIssue ::
  "fs_env \<Rightarrow> manager \<Rightarrow> string \<Rightarrow> fs_op list \<times> workspace result" where
  "CreateForIssue env m identifier =
     (let key = WorkspaceKey identifier; path = path_join (m_root m) key
      in case assertContained env m path of
           Some e \<Rightarrow> ([], Inl e)
         | None \<Rightarrow>
         (case fs_Stat env path of
            StatDir \<Rightarrow> after_create env m \<lparr>w_Path = path, w_Key = key, w_CreatedNow = False\<rparr>
          | StatOther \<Rightarrow> ([], Inl (PlainErr (''workspace path '' @ go_quote path
                                  @ '' exists and is not a directory'')))
          | StatErr e \<Rightarrow> ([], Inl (PlainErr (''stat workspace: '' @ e)))
          | StatNotExist \<Rightarrow>
            (case fs_MkdirAll env (m_root m) of
               Some e \<Rightarrow> ([OpMkdirAll (m_root m)], Inl (PlainErr (''create workspace root: '' @ e)))
             | None \<Rightarrow>
               (let ops = [OpMkdirAll (m_root m), OpMkdir path]
                in case fs_Mkdir env path of
                     MkdirErr e \<Rightarrow> (ops, Inl (PlainErr (''create workspace: '' @ e)))
                   | MkdirExist \<Rightarrow>
                       (let r = after_create env m
                                  \<lparr>w_Path = path, w_Key = key, w_CreatedNow = False\<rparr>
                        in (ops @ fst r, snd r))
                   | MkdirOK \<Rightarrow>
                       (let r = after_create env m
                                  \<lparr>w_Path = path, w_Key = key, w_CreatedNow = True\<rparr>
                        in (ops @ fst r, snd r))))))"

definition Cleanup :: "fs_env \<Rightarrow> manager \<Rightarrow> string \<Rightarrow> fs_op list \<times> go_error option" where
  "Cleanup env m identifier =
     (let path = PathFor m identifier
      in case assertContained env m path of
           Some e \<Rightarrow> ([], Some e)
         | None \<Rightarrow>
           (let ops = (if fs_Stat env path = StatDir \<and> trim_space (h_BeforeRemove (m_hooks m)) \<noteq> []
                       then fst (RunHook env m ''before_remove'' path) else [])
            in (ops @ [OpRemoveAll path],
                (case fs_RemoveAll env path of
                   Some e \<Rightarrow> Some (PlainErr (''remove workspace: '' @ e)) | None \<Rightarrow> None))))"

definition AssertLaunchCWD ::
  "fs_env \<Rightarrow> manager \<Rightarrow> string \<Rightarrow> string \<Rightarrow> go_error option" where
  "AssertLaunchCWD env m identifier cwd =
     (let want = PathFor m identifier
      in case path_abs (fs_Getwd env) cwd of
           Inl e \<Rightarrow> Some (PlainErr (''resolve cwd: '' @ error_string e))
         | Inr absCWD \<Rightarrow>
             if path_clean absCWD \<noteq> path_clean want
             then Some (PlainErr (''agent cwd '' @ go_quote absCWD @ '' must equal workspace path ''
                          @ go_quote want))
             else assertContained env m want)"

section \<open>Containment\<close>

text \<open>A path is below a root when its elements extend the root's.\<close>

definition below :: "string \<Rightarrow> string \<Rightarrow> bool" where
  "below base path \<longleftrightarrow> prefix (abs_elems base) (abs_elems path)"

lemma assertContained_iff:
  assumes "is_abs (m_root m)" and "is_abs path"
  shows "assertContained env m path = None \<longleftrightarrow> below (m_root m) path"
proof -
  let ?R = "path_clean (path_clean (m_root m))" and ?P = "path_clean (path_clean path)"
  have abs: "is_abs ?R" "is_abs ?P" using assms by (simp_all add: is_abs_clean)
  have el: "abs_elems ?R = abs_elems (m_root m)" "abs_elems ?P = abs_elems path"
    using assms by (simp_all add: abs_elems_clean is_abs_clean)
  obtain rel where "path_rel ?R ?P = Inr rel" "escapes rel \<longleftrightarrow> \<not> below (m_root m) path"
    using path_rel_escapes [OF abs] by (auto simp: el below_def)
  then show ?thesis
    using assms by (auto simp: assertContained_def path_abs_def Let_def escapes_def)
qed

lemma PathFor_abs: "is_abs (m_root m) \<Longrightarrow> is_abs (PathFor m identifier)"
  by (simp add: PathFor_def path_join_abs)

lemma key_no_sep: "path_sep \<notin> set (WorkspaceKey identifier)"
  using WorkspaceKey_no_slash by (simp add: path_sep_def)

lemma PathFor_elems:
  assumes "is_abs (m_root m)"
  shows "abs_elems (PathFor m identifier) =
    (let key = WorkspaceKey identifier
     in if key = [] \<or> key = ''.'' then abs_elems (m_root m)
        else if key = ''..'' then butlast (abs_elems (m_root m))
        else abs_elems (m_root m) @ [key])"
  using join_elem_cases [OF assms key_no_sep] by (simp add: PathFor_def Let_def)

lemma below_PathFor:
  assumes "is_abs (m_root m)"
  shows "below (m_root m) (PathFor m identifier) \<longleftrightarrow>
    WorkspaceKey identifier \<noteq> ''..'' \<or> abs_elems (m_root m) = []"
proof (cases "WorkspaceKey identifier = ''..''")
  case True
  have "prefix es (butlast es) \<longleftrightarrow> es = []" for es :: "string list"
    by (cases es rule: rev_cases) (auto dest: prefix_length_le)
  with True show ?thesis by (simp add: below_def PathFor_elems [OF assms])
next
  case False
  then show ?thesis by (simp add: below_def PathFor_elems [OF assms] Let_def)
qed

lemma path_join_clean:
  "is_abs a \<Longrightarrow> path_clean (path_join a b) = path_join a b"
  by (cases a) (auto simp: path_join_def is_abs_def intro!: path_clean_idem)

section \<open>What the methods do\<close>

lemma fst_RunHook:
  "fst (RunHook env m name path) =
     (if trim_space (scriptFor m name) = [] \<or> fs_Done env then []
      else [OpScript (scriptFor m name) path (hook_timeout m)])"
  by (simp add: RunHook_def Let_def)

lemma RunHook_ops: "op \<in> set (fst (RunHook env m name path)) \<Longrightarrow> op_path op = path"
  by (auto simp: fst_RunHook split: if_splits)

lemma after_create_ops: "op \<in> set (fst (after_create env m ws)) \<Longrightarrow> op_path op = w_Path ws"
  by (auto simp: after_create_def Let_def dest: RunHook_ops split: option.splits if_splits)

lemma after_create_result: "snd (after_create env m ws) = Inr ws' \<Longrightarrow> ws' = ws"
  by (auto simp: after_create_def Let_def split: option.splits if_splits)

lemma CreateForIssue_unsafe:
  "assertContained env m (PathFor m identifier) = Some e \<Longrightarrow>
     CreateForIssue env m identifier = ([], Inl e)"
  by (simp add: CreateForIssue_def PathFor_def Let_def)

lemma CreateForIssue_result:
  assumes "snd (CreateForIssue env m identifier) = Inr ws"
  shows "w_Path ws = PathFor m identifier \<and> w_Key ws = WorkspaceKey identifier
    \<and> assertContained env m (PathFor m identifier) = None"
  using assms
  by (auto simp: CreateForIssue_def PathFor_def Let_def dest!: after_create_result
      split: option.splits stat_result.splits mkdir_result.splits)

lemma CreateForIssue_ops:
  assumes "op \<in> set (fst (CreateForIssue env m identifier))"
  shows "op = OpMkdirAll (m_root m) \<or> op_path op = PathFor m identifier"
  using assms
  by (auto simp: CreateForIssue_def PathFor_def Let_def dest!: after_create_ops
      split: option.splits stat_result.splits mkdir_result.splits)

lemma Cleanup_ops:
  "op \<in> set (fst (Cleanup env m identifier)) \<Longrightarrow> op_path op = PathFor m identifier"
  by (auto simp: Cleanup_def Let_def dest: RunHook_ops split: option.splits if_splits)

section \<open>The launch contract\<close>

text \<open>
  What the agent runner relies on (\<^verbatim>\<open>agent.WorkspaceManager\<close>): the path handed out by a
  successful creation passes the assertion made right before the agent is launched.
\<close>

locale launch_contract =
  fixes create :: "'e \<Rightarrow> 'm \<Rightarrow> string \<Rightarrow> workspace result"
    and assert_cwd :: "'e \<Rightarrow> 'm \<Rightarrow> string \<Rightarrow> string \<Rightarrow> go_error option"
    and ok :: "'m \<Rightarrow> bool"
  assumes launchable: "ok m \<Longrightarrow> create e m ident = Inr ws \<Longrightarrow> assert_cwd e m ident (w_Path ws) = None"

interpretation wm: launch_contract
  "\<lambda>env m ident. snd (CreateForIssue env m ident)" AssertLaunchCWD "\<lambda>m. is_abs (m_root m)"
proof unfold_locales
  fix m :: manager and env ident ws
  assume abs: "is_abs (m_root m)" and "snd (CreateForIssue env m ident) = Inr ws"
  then have ws: "w_Path ws = PathFor m ident" "assertContained env m (PathFor m ident) = None"
    using CreateForIssue_result by blast+
  have p: "is_abs (PathFor m ident)" by (rule PathFor_abs [OF abs])
  then have "path_abs (fs_Getwd env) (PathFor m ident) = Inr (path_clean (PathFor m ident))"
    by (simp add: path_abs_def)
  with ws p show "AssertLaunchCWD env m ident (w_Path ws) = None"
    by (simp add: AssertLaunchCWD_def Let_def path_clean_idem)
qed

section \<open>Properties\<close>

definition ex_manager :: manager where
  "ex_manager = \<lparr>m_root = ''/w/ws'', m_hooks = \<lparr>h_AfterCreate = ''make'', h_BeforeRun = [], h_AfterRun = [],
     h_BeforeRemove = ''bye'', h_TimeoutMs = 1000\<rparr>\<rparr>"

definition ex_fs :: fs_env where
  "ex_fs = \<lparr>fs_Getwd = Inr ''/d'', fs_Stat = (\<lambda>_. StatNotExist), fs_MkdirAll = (\<lambda>_. None),
     fs_Mkdir = (\<lambda>_. MkdirOK), fs_RemoveAll = (\<lambda>_. None), fs_Done = False,
     fs_RunScript = (\<lambda>_ _ _. ScriptOK)\<rparr>"

lemma ex_manager_abs [simp]: "is_abs (m_root ex_manager)"
  by (simp add: ex_manager_def is_abs_def)

text \<open>
  C26: The containment check accepts exactly the paths whose cleaned elements extend those of
  the workspace root, however root and path are spelled (dots, double slashes, parents).
\<close>

theorem containment_exact:
  assumes "is_abs (m_root m)" and "is_abs path"
  shows "assertContained env m path = None \<longleftrightarrow> prefix (abs_elems (m_root m)) (abs_elems path)"
  using assertContained_iff [OF assms] by (simp add: below_def)

theorem containment_exact_witness:
  "assertContained ex_fs ex_manager ''/w//x/../ws/a'' = None \<and> assertContained ex_fs ex_manager ''/w/wsx'' \<noteq> None"
proof -
  have "abs_elems ''/w//x/../ws/a'' = [''w'', ''ws'', ''a'']" "abs_elems ''/w/wsx'' = [''w'', ''wsx'']"
    "abs_elems (m_root ex_manager) = [''w'', ''ws'']"
    by (simp_all add: abs_elems_def clean_elems_def clean_elem_def path_sep_def ex_manager_def)
  moreover have "is_abs ''/w//x/../ws/a''" "is_abs ''/w/wsx''" by (simp_all add: is_abs_def)
  ultimately show ?thesis
    using containment_exact [OF ex_manager_abs, of _ ex_fs] by simp
qed

lemma op_below:
  assumes "is_abs (m_root m)" and "assertContained env m (PathFor m identifier) = None"
    and "op = OpMkdirAll (m_root m) \<or> op_path op = PathFor m identifier"
  shows "below (m_root m) (op_path op)"
  using assms(3) assertContained_iff [OF assms(1) PathFor_abs [OF assms(1)]] assms(2)
  by (auto simp: below_def)

lemma Cleanup_unsafe:
  "assertContained env m (PathFor m identifier) = Some e \<Longrightarrow> Cleanup env m identifier = ([], Some e)"
  by (simp add: Cleanup_def Let_def)

text \<open>
  C27: Whatever the issue identifier is, creating and cleaning up its workspace touches
  nothing outside the workspace root, and the workspace itself is the directory of that
  sanitized name directly in the root, unless the name sanitizes to nothing or to dots.
\<close>

theorem workspace_confined:
  assumes "is_abs (m_root m)"
    and "op \<in> set (fst (CreateForIssue env m identifier)) \<union> set (fst (Cleanup env m identifier))"
  shows "below (m_root m) (op_path op)
    \<and> (WorkspaceKey identifier \<notin> {[], ''.'', ''..''} \<longrightarrow>
        abs_elems (PathFor m identifier) = abs_elems (m_root m) @ [WorkspaceKey identifier])"
proof
  show "below (m_root m) (op_path op)"
  proof (cases "assertContained env m (PathFor m identifier)")
    case None
    with assms(2) CreateForIssue_ops Cleanup_ops show ?thesis
      by (intro op_below [OF assms(1) None]) blast
  next
    case (Some e)
    with assms(2) show ?thesis by (simp add: CreateForIssue_unsafe Cleanup_unsafe)
  qed
  show "WorkspaceKey identifier \<notin> {[], ''.'', ''..''} \<longrightarrow>
      abs_elems (PathFor m identifier) = abs_elems (m_root m) @ [WorkspaceKey identifier]"
    by (simp add: PathFor_elems [OF assms(1)] Let_def)
qed

theorem workspace_confined_witness:
  "below (m_root ex_manager) (PathFor ex_manager ''A/../B 1'')
   \<and> abs_elems (PathFor ex_manager ''A/../B 1'') = [''w'', ''ws'', ''A_.._B_1'']"
proof -
  have key: "WorkspaceKey ''A/../B 1'' = ''A_.._B_1''"
    by (simp add: WorkspaceKey_def segs_ascii is_ascii_def ws_key_rune_def)
  have root: "abs_elems (m_root ex_manager) = [''w'', ''ws'']"
    by (simp add: abs_elems_def clean_elems_def clean_elem_def path_sep_def ex_manager_def)
  have "assertContained ex_fs ex_manager (PathFor ex_manager ''A/../B 1'') = None"
    using below_PathFor [OF ex_manager_abs, of "''A/../B 1''"] key
      assertContained_iff [OF ex_manager_abs PathFor_abs [OF ex_manager_abs], of ex_fs] by simp
  then have "OpRemoveAll (PathFor ex_manager ''A/../B 1'')
      \<in> set (fst (CreateForIssue ex_fs ex_manager ''A/../B 1'')) \<union> set (fst (Cleanup ex_fs ex_manager ''A/../B 1''))"
    by (simp add: Cleanup_def Let_def)
  from workspace_confined [OF ex_manager_abs this] show ?thesis by (simp add: key root)
qed

text \<open>
  The check admits the root itself, so an identifier that sanitizes to a single dot (or to
  nothing) makes a cleanup remove the whole workspace root.
\<close>

lemma dot_identifier_removes_root:
  assumes "is_abs (m_root m)" and "WorkspaceKey identifier = ''.''"
  shows "\<exists>path. OpRemoveAll path \<in> set (fst (Cleanup env m identifier)) \<and> path_clean path = path_clean (m_root m)"
proof -
  have el: "abs_elems (PathFor m identifier) = abs_elems (m_root m)"
    by (simp add: PathFor_elems [OF assms(1)] assms(2))
  then have "assertContained env m (PathFor m identifier) = None"
    using assertContained_iff [OF assms(1) PathFor_abs [OF assms(1)]] by (simp add: below_def)
  then have "OpRemoveAll (PathFor m identifier) \<in> set (fst (Cleanup env m identifier))"
    by (simp add: Cleanup_def Let_def)
  then show ?thesis
    using el path_clean_eq_iff [OF PathFor_abs [OF assms(1)] assms(1)] by blast
qed

text \<open>
  A creation that succeeds leaves a directory at the issue's path: one that was there is
  taken as it is, without running anything; a new one is made and its after_create hook, if
  any, has run and succeeded in it. A failing hook fails the creation and the directory is
  removed again.
\<close>

theorem creation_outcome:
  assumes "CreateForIssue env m identifier = (ops, r)"
  shows "(\<forall>ws. r = Inr ws \<longrightarrow> w_Path ws = PathFor m identifier
        \<and> (if w_CreatedNow ws
           then ops = [OpMkdirAll (m_root m), OpMkdir (w_Path ws)] @ fst (RunHook env m ''after_create'' (w_Path ws))
             \<and> snd (RunHook env m ''after_create'' (w_Path ws)) = None
           else fs_Stat env (w_Path ws) = StatDir \<and> ops = []
             \<or> fs_Mkdir env (w_Path ws) = MkdirExist \<and> ops = [OpMkdirAll (m_root m), OpMkdir (w_Path ws)]))
    \<and> (\<forall>e script. r = Inl e \<and> OpScript script (PathFor m identifier) (hook_timeout m) \<in> set ops \<longrightarrow>
         last ops = OpRemoveAll (PathFor m identifier))"
  using assms
  by (auto simp: CreateForIssue_def PathFor_def after_create_def RunHook_def scriptFor_def Let_def
      split: option.splits stat_result.splits mkdir_result.splits if_splits script_result.splits)

theorem creation_outcome_witness:
  "fst (CreateForIssue ex_fs ex_manager ''a'') =
     [OpMkdirAll ''/w/ws'', OpMkdir (PathFor ex_manager ''a''), OpScript ''make'' (PathFor ex_manager ''a'') 1000000000]"
proof -
  have key: "WorkspaceKey ''a'' = ''a''"
    by (simp add: WorkspaceKey_def segs_ascii is_ascii_def ws_key_rune_def)
  have ok: "assertContained ex_fs ex_manager (PathFor ex_manager ''a'') = None"
    using below_PathFor [OF ex_manager_abs, of "''a''"] key
      assertContained_iff [OF ex_manager_abs PathFor_abs [OF ex_manager_abs], of ex_fs] by simp
  have fields: "fs_Stat ex_fs p = StatNotExist" "fs_MkdirAll ex_fs p = None" "fs_Mkdir ex_fs p = MkdirOK"
    "trim_space (h_AfterCreate (m_hooks ex_manager)) \<noteq> []" for p
    by (simp_all add: ex_fs_def ex_manager_def str_eval)
  obtain ops r where c: "CreateForIssue ex_fs ex_manager ''a'' = (ops, r)" by force
  have hook: "RunHook ex_fs ex_manager ''after_create'' p = ([OpScript ''make'' p 1000000000], None)" for p
    by (simp add: RunHook_def scriptFor_def ex_manager_def ex_fs_def hook_timeout_def duration_ms_exact str_eval)
  have "r = Inr \<lparr>w_Path = PathFor ex_manager ''a'', w_Key = ''a'', w_CreatedNow = True\<rparr>"
    using c ok [unfolded PathFor_def key] fields
    by (simp add: CreateForIssue_def PathFor_def after_create_def key hook Let_def)
  with creation_outcome [OF c] show ?thesis by (simp add: c hook) (simp add: ex_manager_def)
qed

end
