(* ===== verification/Orchestrator.thy ===== *)
theory Orchestrator
  imports Linear Workspace
begin

text \<open>
  Package \<^verbatim>\<open>orchestrator\<close> (state.go, orchestrator.go, reconcile.go, snapshot.go): the
  scheduling state owned by the event loop and its handlers, each a function on the
  orchestrator's record. What a handler does outside its own state (starting a worker,
  cancelling a context, arming or stopping a timer, cleaning a workspace, handing out a
  snapshot) is appended to the field \<open>o_out\<close>, in the order of the code.

  A handler runs in an environment \<open>env\<close>: the clock reading of its run (the readings of
  one run are taken as equal), the answers of the tracker to the calls it may make, and
  whether a notifier is registered. The outcome of a workspace cleanup is only logged, and
  log lines are not modelled.
\<close>

section \<open>State\<close>

record running_entry =
  re_Identifier :: string
  re_Issue :: issue
  re_StartedAt :: int
  re_Session :: live_session
  re_RetryAttempt :: int
  re_WorkspacePath :: string
  re_Terminating :: bool
  re_CleanupOnExit :: bool
  re_ReleaseOnExit :: bool

definition lastActivity :: "running_entry \<Rightarrow> int" where
  "lastActivity e = (case ls_LastAgentTimestamp (re_Session e) of
     Some t \<Rightarrow> t | None \<Rightarrow> re_StartedAt e)"

record runtime_state =
  rs_PollIntervalMs :: int
  rs_MaxConcurrentAgents :: int
  rs_Running :: "(string, running_entry) gmap"
  rs_Claimed :: "string set"
  rs_RetryAttempts :: "(string, retry_entry) gmap"
  rs_Completed :: "string set"
  rs_ClaudeTotals :: totals
  rs_ClaudeRateLimits :: gvalue

definition newRuntimeState :: "int \<Rightarrow> int \<Rightarrow> runtime_state" where
  "newRuntimeState pollIntervalMs maxConcurrent =
     \<lparr>rs_PollIntervalMs = pollIntervalMs, rs_MaxConcurrentAgents = maxConcurrent,
      rs_Running = [], rs_Claimed = {}, rs_RetryAttempts = [], rs_Completed = {},
      rs_ClaudeTotals = zero_totals, rs_ClaudeRateLimits = VNil\<rparr>"

definition runningCountByState :: "runtime_state \<Rightarrow> string \<Rightarrow> int" where
  "runningCountByState s state =
     (let target = NormalizeState state
      in int (length (filter (\<lambda>(iid, e). NormalizeState (i_State (re_Issue e)) = target)
                (rs_Running s))))"

definition globalAvailable :: "runtime_state \<Rightarrow> int" where
  "globalAvailable s =
     (let free = rs_MaxConcurrentAgents s - int (length (rs_Running s))
      in if free < 0 then 0 else free)"

section \<open>Snapshots\<close>

record running_row =
  rr_IssueID :: string
  rr_IssueIdentifier :: string
  rr_IssueURL :: "string option"
  rr_State :: string
  rr_SessionID :: string
  rr_TurnCount :: int
  rr_LastEvent :: string
  rr_LastMessage :: string
  rr_StartedAt :: int
  rr_LastEventAt :: "int option"
  rr_InputTokens :: int
  rr_OutputTokens :: int
  rr_TotalTokens :: int
  rr_Activity :: "agent_activity list"
  rr_WorkspacePath :: string
  rr_RetryAttempt :: int

record retry_row =
  ry_IssueID :: string
  ry_IssueIdentifier :: string
  ry_IssueURL :: "string option"
  ry_Attempt :: int
  ry_DueAtMs :: int
  ry_Error :: "string option"

record snapshot =
  sn_GeneratedAt :: int
  sn_CountRunning :: int
  sn_CountRetrying :: int
  sn_Running :: "running_row list"
  sn_Retrying :: "retry_row list"
  sn_ClaudeTotals :: totals
  sn_RateLimits :: gvalue

definition running_row_of :: "string \<times> running_entry \<Rightarrow> running_row" where
  "running_row_of p = (let iid = fst p; e = snd p; s = re_Session e in
     \<lparr>rr_IssueID = iid, rr_IssueIdentifier = re_Identifier e, rr_IssueURL = i_URL (re_Issue e),
      rr_State = i_State (re_Issue e), rr_SessionID = ls_SessionID s,
      rr_TurnCount = ls_TurnCount s,
      rr_LastEvent = (case ls_LastAgentEvent s of Some ev \<Rightarrow> ev | None \<Rightarrow> []),
      rr_LastMessage = ls_LastAgentMessage s, rr_StartedAt = re_StartedAt e,
      rr_LastEventAt = ls_LastAgentTimestamp s,
      rr_InputTokens = ls_InputTokens s, rr_OutputTokens = ls_OutputTokens s,
      rr_TotalTokens = ls_TotalTokens s, rr_Activity = ls_RecentActivity s,
      rr_WorkspacePath = re_WorkspacePath e, rr_RetryAttempt = re_RetryAttempt e\<rparr>)"

definition retry_row_of :: "string \<times> retry_entry \<Rightarrow> retry_row" where
  "retry_row_of p = (let iid = fst p; r = snd p in
     \<lparr>ry_IssueID = iid, ry_IssueIdentifier = rt_Identifier r, ry_IssueURL = rt_URL r,
      ry_Attempt = rt_Attempt r, ry_DueAtMs = rt_DueAtMs r, ry_Error = rt_Error r\<rparr>)"

definition live_seconds :: "int \<Rightarrow> (string, running_entry) gmap \<Rightarrow> rat \<Rightarrow> rat" where
  "live_seconds now running acc =
     foldl (\<lambda>live p. live + seconds (now - re_StartedAt (snd p))) acc running"

text \<open>
  \<^verbatim>\<open>sort.Slice\<close> is not stable; for equal identifiers the code leaves the order open, and
  the model takes the stable one.
\<close>

definition buildSnapshot :: "int \<Rightarrow> runtime_state \<Rightarrow> snapshot" where
  "buildSnapshot now s =
     (let live = live_seconds now (rs_Running s) (tt_SecondsRunning (rs_ClaudeTotals s));
          running = map running_row_of (rs_Running s);
          retrying = map retry_row_of (rs_RetryAttempts s)
      in \<lparr>sn_GeneratedAt = now,
          sn_CountRunning = int (length running), sn_CountRetrying = int (length retrying),
          sn_Running = slice_stable (\<lambda>x y. rr_IssueIdentifier x < rr_IssueIdentifier y) running,
          sn_Retrying = slice_stable (\<lambda>x y. ry_IssueIdentifier x < ry_IssueIdentifier y) retrying,
          sn_ClaudeTotals = (rs_ClaudeTotals s)\<lparr>tt_SecondsRunning := live\<rparr>,
          sn_RateLimits = rs_ClaudeRateLimits s\<rparr>)"

section \<open>The orchestrator and its effects\<close>

text \<open>
  The runner a factory builds for one issue (\<^verbatim>\<open>buildFactories\<close> in cmd/symphony/main.go):
  the client settings and the run parameters resolved from the configuration in force.
\<close>

record runner_config =
  rc_Command :: string
  rc_Model :: string
  rc_ReasoningEffort :: string
  rc_ResumeAcrossTurns :: bool
  rc_TurnTimeoutMs :: int
  rc_ReadTimeoutMs :: int
  rc_Workspace :: manager
  rc_Tracker :: linear_client
  rc_Template :: string
  rc_PromptOverride :: bool
  rc_ActiveStates :: "string list"
  rc_MaxTurns :: int

definition workspace_factory :: "config \<Rightarrow> manager" where
  "workspace_factory cfg =
     \<lparr>m_root = c_WorkspaceRoot cfg,
      m_hooks = \<lparr>h_AfterCreate = hk_AfterCreate (c_Hooks cfg),
                 h_BeforeRun = hk_BeforeRun (c_Hooks cfg),
                 h_AfterRun = hk_AfterRun (c_Hooks cfg),
                 h_BeforeRemove = hk_BeforeRemove (c_Hooks cfg),
                 h_TimeoutMs = hk_TimeoutMs (c_Hooks cfg)\<rparr>\<rparr>"

definition runner_factory ::
  "config \<Rightarrow> string \<Rightarrow> manager \<Rightarrow> linear_client \<Rightarrow> issue \<Rightarrow> runner_config" where
  "runner_factory cfg template ws tr issue =
     (let state = i_State issue; cl = c_Claude cfg
      in \<lparr>rc_Command = cc_Command cl, rc_Model = ModelForState cfg state,
          rc_ReasoningEffort = ReasoningEffortForState cfg state,
          rc_ResumeAcrossTurns = cc_ResumeAcrossTurns cl,
          rc_TurnTimeoutMs = cc_TurnTimeoutMs cl, rc_ReadTimeoutMs = cc_ReadTimeoutMs cl,
          rc_Workspace = ws, rc_Tracker = tr,
          rc_Template = PromptForState cfg state template,
          rc_PromptOverride = HasPromptOverride cfg state,
          rc_ActiveStates = tc_ActiveStates (c_Tracker cfg),
          rc_MaxTurns = MaxTurnsForState cfg state\<rparr>)"

datatype effect =
    ESpawn string runner_config issue "int option"
  | ECancel string
  | EArmRetry string int
  | EStopRetry string
  | EArmTick int
  | EStopTick
  | ECleanup string
  | ENotify snapshot
  | EReply snapshot

record orch =
  o_cfg :: config
  o_template :: string
  o_tracker :: linear_client
  o_ws :: manager
  o_state :: runtime_state
  o_out :: "effect list"

record env =
  e_now :: int
  e_candidates :: "linear_client \<Rightarrow> issue list result"
  e_by_states :: "linear_client \<Rightarrow> string list \<Rightarrow> issue list result"
  e_by_ids :: "linear_client \<Rightarrow> string list \<Rightarrow> issue list result"
  e_notifier :: bool

abbreviation emit :: "effect \<Rightarrow> orch \<Rightarrow> orch" where
  "emit x ob \<equiv> ob\<lparr>o_out := o_out ob @ [x]\<rparr>"

abbreviation on_state :: "(runtime_state \<Rightarrow> runtime_state) \<Rightarrow> orch \<Rightarrow> orch" where
  "on_state f ob \<equiv> ob\<lparr>o_state := f (o_state ob)\<rparr>"

abbreviation running :: "orch \<Rightarrow> (string, running_entry) gmap" where
  "running ob \<equiv> rs_Running (o_state ob)"

abbreviation claimed :: "orch \<Rightarrow> string set" where
  "claimed ob \<equiv> rs_Claimed (o_state ob)"

abbreviation retries :: "orch \<Rightarrow> (string, retry_entry) gmap" where
  "retries ob \<equiv> rs_RetryAttempts (o_state ob)"

definition orch_New :: "config \<Rightarrow> string \<Rightarrow> orch result" where
  "orch_New cfg template =
     (case tracker_factory cfg of
        Inl e \<Rightarrow> Inl e
      | Inr tr \<Rightarrow> Inr
         \<lparr>o_cfg = cfg, o_template = template, o_tracker = tr, o_ws = workspace_factory cfg,
          o_state = newRuntimeState (c_PollingIntervalMs cfg) (ac_MaxConcurrent (c_Agent cfg)),
          o_out = []\<rparr>)"

definition scheduleTick :: "int \<Rightarrow> orch \<Rightarrow> orch" where
  "scheduleTick delay ob = emit (EArmTick delay) ob"

definition notify :: "env \<Rightarrow> orch \<Rightarrow> orch" where
  "notify env ob =
     (if e_notifier env then emit (ENotify (buildSnapshot (e_now env) (o_state ob))) ob else ob)"

section \<open>Retries\<close>

definition removeRetryTimer :: "string \<Rightarrow> orch \<Rightarrow> orch" where
  "removeRetryTimer iid ob =
     (if map_has (retries ob) iid
      then emit (EStopRetry iid)
             (on_state (\<lambda>s. s\<lparr>rs_RetryAttempts := map_del iid (rs_RetryAttempts s)\<rparr>) ob)
      else ob)"

text \<open>
  The backoff in milliseconds, as the float64 computation gives it: the doubling is exact
  up to the overflow to infinity, which like every value above the limit is replaced by
  the limit (a limit beyond \<open>2 ^ 53\<close> ms, which the code rounds to a float64 first, is taken
  as it is). The conversion to a duration gives an int64 and the multiplication by a
  million wraps.
\<close>

definition backoff_ms :: "int \<Rightarrow> int \<Rightarrow> int" where
  "backoff_ms max_ms attempt =
     (let ms = 10000 * 2 ^ nat (attempt - 1) in if max_ms < ms then max_ms else ms)"

definition retry_delay :: "config \<Rightarrow> int \<Rightarrow> bool \<Rightarrow> int" where
  "retry_delay cfg attempt continuation =
     (if continuation then 1000 * 1000000
      else duration_ms (backoff_ms (ac_MaxRetryBackoffMs (c_Agent cfg)) attempt))"

definition scheduleRetry ::
  "env \<Rightarrow> string \<Rightarrow> int \<Rightarrow> string \<Rightarrow> string option \<Rightarrow> string option \<Rightarrow> bool \<Rightarrow> orch \<Rightarrow> orch" where
  "scheduleRetry env iid attempt0 identifier url errMsg continuation ob0 =
     (let ob = removeRetryTimer iid ob0;
          attempt = (if \<not> continuation \<and> attempt0 < 1 then 1 else attempt0);
          delay = retry_delay (o_cfg ob) attempt continuation;
          entry = \<lparr>rt_IssueID = iid, rt_Identifier = identifier, rt_Attempt = attempt,
                   rt_DueAtMs = (e_now env + delay) div 1000000, rt_Error = errMsg, rt_URL = url\<rparr>
      in on_state (\<lambda>s. s\<lparr>rs_RetryAttempts := map_put iid entry (rs_RetryAttempts s),
                         rs_Claimed := insert iid (rs_Claimed s)\<rparr>)
           (emit (EArmRetry iid delay) ob))"

section \<open>Eligibility\<close>

definition containsNormalized :: "string list \<Rightarrow> string \<Rightarrow> bool" where
  "containsNormalized list state =
     (let target = NormalizeState state in list_ex (\<lambda>s. NormalizeState s = target) list)"

definition isActiveState :: "config \<Rightarrow> string \<Rightarrow> bool" where
  "isActiveState cfg state = containsNormalized (tc_ActiveStates (c_Tracker cfg)) state"

definition isTerminalState :: "config \<Rightarrow> string \<Rightarrow> bool" where
  "isTerminalState cfg state = containsNormalized (tc_TerminalStates (c_Tracker cfg)) state"

definition matchesAssignee :: "config \<Rightarrow> issue \<Rightarrow> bool" where
  "matchesAssignee cfg issue =
     (let want = trim_space (tc_Assignee (c_Tracker cfg))
      in if want = [] then True
         else case i_Assignee issue of
                None \<Rightarrow> False
              | Some a \<Rightarrow> equal_fold (trim_space a) want)"

definition hasRequiredLabels :: "config \<Rightarrow> issue \<Rightarrow> bool" where
  "hasRequiredLabels cfg issue =
     (let have = map (\<lambda>l. to_lower (trim_space l)) (i_Labels issue)
      in list_all (\<lambda>req. let norm = to_lower (trim_space req)
                         in if norm = [] then False else norm \<in> set have)
           (tc_RequiredLabels (c_Tracker cfg)))"

definition isTerminalBlocker :: "config \<Rightarrow> blocker_ref \<Rightarrow> bool" where
  "isTerminalBlocker cfg b =
     (case br_State b of None \<Rightarrow> False | Some st \<Rightarrow> isTerminalState cfg st)"

definition isEligible :: "config \<Rightarrow> issue \<Rightarrow> bool" where
  "isEligible cfg issue =
     (if i_ID issue = [] \<or> i_Identifier issue = [] \<or> i_Title issue = [] \<or> i_State issue = []
      then False
      else if \<not> isActiveState cfg (i_State issue) \<or> isTerminalState cfg (i_State issue) then False
      else if \<not> matchesAssignee cfg issue then False
      else if \<not> hasRequiredLabels cfg issue then False
      else if NormalizeState (i_State issue) = ''todo''
        then list_all (isTerminalBlocker cfg) (i_BlockedBy issue)
      else True)"

section \<open>Dispatch order\<close>

definition priorityKey :: "int option \<Rightarrow> int" where
  "priorityKey p = (case p of None \<Rightarrow> max_int64 | Some n \<Rightarrow> n)"

definition createdKey :: "int option \<Rightarrow> int" where
  "createdKey t = (case t of None \<Rightarrow> max_int64 | Some n \<Rightarrow> wrap64 n)"

definition dispatch_less :: "issue \<Rightarrow> issue \<Rightarrow> bool" where
  "dispatch_less a b =
     (let pa = priorityKey (i_Priority a); pb = priorityKey (i_Priority b);
          ca = createdKey (i_CreatedAt a); cb = createdKey (i_CreatedAt b)
      in if pa \<noteq> pb then pa < pb
         else if ca \<noteq> cb then ca < cb
         else i_Identifier a < i_Identifier b)"

definition sortForDispatch :: "issue list \<Rightarrow> issue list" where
  "sortForDispatch issues = slice_stable dispatch_less issues"

section \<open>Dispatch\<close>

definition normalizeAttempt :: "int option \<Rightarrow> int" where
  "normalizeAttempt attempt = (case attempt of None \<Rightarrow> 0 | Some n \<Rightarrow> n)"

definition new_entry :: "env \<Rightarrow> manager \<Rightarrow> issue \<Rightarrow> int option \<Rightarrow> running_entry" where
  "new_entry env ws issue attempt =
     \<lparr>re_Identifier = i_Identifier issue, re_Issue = issue, re_StartedAt = e_now env,
      re_Session = zero_session, re_RetryAttempt = normalizeAttempt attempt,
      re_WorkspacePath = PathFor ws (i_Identifier issue),
      re_Terminating = False, re_CleanupOnExit = False, re_ReleaseOnExit = False\<rparr>"

definition dispatchIssue :: "env \<Rightarrow> issue \<Rightarrow> int option \<Rightarrow> orch \<Rightarrow> orch" where
  "dispatchIssue env issue attempt ob =
     (let iid = i_ID issue;
          runner = runner_factory (o_cfg ob) (o_template ob) (o_ws ob) (o_tracker ob) issue;
          entry = new_entry env (o_ws ob) issue attempt;
          ob1 = on_state (\<lambda>s. s\<lparr>rs_Running := map_put iid entry (rs_Running s),
                                rs_Claimed := insert iid (rs_Claimed s)\<rparr>) ob
      in emit (ESpawn iid runner issue attempt) (removeRetryTimer iid ob1))"

text \<open>The body of the dispatch loop and the loop, which breaks when no slot is free.\<close>

definition may_dispatch :: "orch \<Rightarrow> issue \<Rightarrow> bool" where
  "may_dispatch ob issue \<longleftrightarrow>
     \<not> map_has (running ob) (i_ID issue) \<and> i_ID issue \<notin> claimed ob \<and> isEligible (o_cfg ob) issue
     \<and> runningCountByState (o_state ob) (i_State issue) < PerStateLimit (o_cfg ob) (i_State issue)"

fun dispatch_loop :: "env \<Rightarrow> issue list \<Rightarrow> orch \<Rightarrow> orch" where
  "dispatch_loop env [] ob = ob"
| "dispatch_loop env (issue # issues) ob =
     (if globalAvailable (o_state ob) \<le> 0 then ob
      else if may_dispatch ob issue
        then dispatch_loop env issues (dispatchIssue env issue None ob)
      else dispatch_loop env issues ob)"

end
