(* ===== verification/Handlers.thy ===== *)
theory Handlers
  imports Orchestrator
begin

text \<open>
  The event handlers of package \<^verbatim>\<open>orchestrator\<close>: reconciliation (reconcile.go), the
  poll tick, agent updates, worker exits, retry timers, reloads, startup and shutdown
  (orchestrator.go), and the event dispatch itself.
\<close>

section \<open>reconcile.go\<close>

definition stalled :: "env \<Rightarrow> config \<Rightarrow> running_entry \<Rightarrow> bool" where
  "stalled env cfg e \<longleftrightarrow>
     \<not> re_Terminating e \<and> duration_ms (cc_StallTimeoutMs (c_Claude cfg)) < e_now env - lastActivity e"

definition stall_detection :: "env \<Rightarrow> orch \<Rightarrow> orch" where
  "stall_detection env ob =
     (if 0 < cc_StallTimeoutMs (c_Claude (o_cfg ob)) then
        (let st = stalled env (o_cfg ob);
             cancels = map (\<lambda>p. ECancel (fst p)) (filter (\<lambda>p. st (snd p)) (running ob))
         in on_state (\<lambda>s. s\<lparr>rs_Running :=
                map_vals (\<lambda>e. if st e then e\<lparr>re_Terminating := True\<rparr> else e) (rs_Running s)\<rparr>)
              (ob\<lparr>o_out := o_out ob @ cancels\<rparr>))
      else ob)"

definition terminateRunning :: "string \<Rightarrow> bool \<Rightarrow> bool \<Rightarrow> orch \<Rightarrow> orch" where
  "terminateRunning iid cleanup release ob =
     (case map_get (running ob) iid of
        None \<Rightarrow> ob
      | Some e \<Rightarrow>
          if re_Terminating e then ob
          else emit (ECancel iid)
                 (on_state (\<lambda>s. s\<lparr>rs_Running := map_put iid
                     (e\<lparr>re_Terminating := True, re_CleanupOnExit := cleanup,
                        re_ReleaseOnExit := release\<rparr>) (rs_Running s)\<rparr>) ob))"

definition refresh_issue :: "issue \<Rightarrow> orch \<Rightarrow> orch" where
  "refresh_issue issue ob =
     (case map_get (running ob) (i_ID issue) of
        None \<Rightarrow> ob
      | Some e \<Rightarrow>
          if re_Terminating e then ob
          else if isTerminalState (o_cfg ob) (i_State issue)
            then terminateRunning (i_ID issue) True True ob
          else if isActiveState (o_cfg ob) (i_State issue)
            then on_state (\<lambda>s. s\<lparr>rs_Running := map_put (i_ID issue)
                   (e\<lparr>re_Issue := (re_Issue e)\<lparr>i_State := i_State issue,
                                              i_Labels := i_Labels issue\<rparr>\<rparr>) (rs_Running s)\<rparr>) ob
          else terminateRunning (i_ID issue) False True ob)"

definition state_refresh :: "env \<Rightarrow> orch \<Rightarrow> orch" where
  "state_refresh env ob =
     (let ids = map fst (filter (\<lambda>p. \<not> re_Terminating (snd p)) (running ob))
      in if ids = [] then ob
         else case e_by_ids env (o_tracker ob) ids of
                Inl _ \<Rightarrow> ob
              | Inr refreshed \<Rightarrow> fold refresh_issue refreshed ob)"

definition reconcile :: "env \<Rightarrow> orch \<Rightarrow> orch" where
  "reconcile env ob = state_refresh env (stall_detection env ob)"

definition startupTerminalCleanup :: "env \<Rightarrow> orch \<Rightarrow> orch" where
  "startupTerminalCleanup env ob =
     (case e_by_states env (o_tracker ob) (tc_TerminalStates (c_Tracker (o_cfg ob))) of
        Inl _ \<Rightarrow> ob
      | Inr issues \<Rightarrow> ob\<lparr>o_out := o_out ob @ map (\<lambda>i. ECleanup (i_Identifier i)) issues\<rparr>)"

section \<open>The poll tick\<close>

definition poll_interval :: "orch \<Rightarrow> int" where
  "poll_interval ob = duration_ms (rs_PollIntervalMs (o_state ob))"

text \<open>
  The deferred \<^verbatim>\<open>scheduleTick\<close> runs when the handler returns, with the delay read after
  reconciliation; no later step of the tick writes the interval.
\<close>

definition onTick :: "env \<Rightarrow> orch \<Rightarrow> orch" where
  "onTick env ob0 =
     (let ob = reconcile env ob0; delay = poll_interval ob
      in scheduleTick delay
         (case ValidateDispatch (o_cfg ob) of
            Some _ \<Rightarrow> notify env ob
          | None \<Rightarrow>
            (case e_candidates env (o_tracker ob) of
               Inl _ \<Rightarrow> notify env ob
             | Inr issues \<Rightarrow> notify env (dispatch_loop env (sortForDispatch issues) ob))))"

section \<open>Agent updates\<close>

definition maxRecentActivity :: nat where "maxRecentActivity = 50"

definition appendActivity :: "agent_activity list \<Rightarrow> agent_activity \<Rightarrow> agent_activity list" where
  "appendActivity hist act =
     (let hist' = hist @ [act]
      in if maxRecentActivity < length hist'
         then drop (length hist' - maxRecentActivity) hist' else hist')"

definition activity_of :: "agent_event \<Rightarrow> agent_activity" where
  "activity_of m =
     \<lparr>act_Timestamp = ev_Timestamp m, act_Event = ev_Event m, act_TurnID = ev_TurnID m,
      act_Message = ev_Message m, act_Detail = ev_Detail m,
      act_InputTokens = (case ev_StepUsage m of Some u \<Rightarrow> u_InputTokens u | None \<Rightarrow> 0),
      act_OutputTokens = (case ev_StepUsage m of Some u \<Rightarrow> u_OutputTokens u | None \<Rightarrow> 0)\<rparr>"

definition PendingSessionID :: string where "PendingSessionID = ''pending''"

text \<open>The writes to the session, one function per block of the handler.\<close>

definition upd_message :: "agent_event \<Rightarrow> live_session \<Rightarrow> live_session" where
  "upd_message m s =
     (if ev_Message m \<noteq> [] then
        s\<lparr>ls_LastAgentMessage := Truncate (ev_Message m),
          ls_RecentActivity := appendActivity (ls_RecentActivity s) (activity_of m)\<rparr>
      else s)"

definition upd_ids :: "agent_event \<Rightarrow> live_session \<Rightarrow> live_session" where
  "upd_ids m s0 =
     (let s1 = (if ev_SessionID m \<noteq> [] \<and> ev_SessionID m \<noteq> PendingSessionID
                then s0\<lparr>ls_SessionID := ev_SessionID m, ls_ThreadID := ev_SessionID m\<rparr> else s0);
          s2 = (if ev_TurnID m \<noteq> [] then
                  (let s = s1\<lparr>ls_TurnID := ev_TurnID m\<rparr>
                   in case atoi (ev_TurnID m) of
                        Some n \<Rightarrow> if ls_TurnCount s < n then s\<lparr>ls_TurnCount := n\<rparr> else s
                      | None \<Rightarrow> s)
                else s1)
      in case ev_AgentPID m of None \<Rightarrow> s2 | Some p \<Rightarrow> s2\<lparr>ls_AgentPID := Some p\<rparr>)"

definition upd_usage :: "agent_event \<Rightarrow> live_session \<Rightarrow> live_session" where
  "upd_usage m s =
     (case ev_Usage m of
        None \<Rightarrow> s
      | Some u \<Rightarrow>
          s\<lparr>ls_InputTokens := wrap64 (ls_InputTokens s + u_InputTokens u),
            ls_OutputTokens := wrap64 (ls_OutputTokens s + u_OutputTokens u),
            ls_TotalTokens := wrap64 (ls_TotalTokens s + u_TotalTokens u),
            ls_LastReportedInputTokens := u_InputTokens u,
            ls_LastReportedOutputTokens := u_OutputTokens u,
            ls_LastReportedTotalTokens := u_TotalTokens u\<rparr>)"

definition upd_session :: "agent_event \<Rightarrow> live_session \<Rightarrow> live_session" where
  "upd_session m s =
     upd_usage m (upd_ids m (upd_message m
       (s\<lparr>ls_LastAgentTimestamp := Some (ev_Timestamp m),
          ls_LastAgentEvent := Some (ev_Event m)\<rparr>)))"

definition add_usage :: "agent_event \<Rightarrow> totals \<Rightarrow> totals" where
  "add_usage m t =
     (case ev_Usage m of
        None \<Rightarrow> t
      | Some u \<Rightarrow> t\<lparr>tt_InputTokens := wrap64 (tt_InputTokens t + u_InputTokens u),
                    tt_OutputTokens := wrap64 (tt_OutputTokens t + u_OutputTokens u),
                    tt_TotalTokens := wrap64 (tt_TotalTokens t + u_TotalTokens u)\<rparr>)"

definition onAgentUpdate :: "string \<Rightarrow> agent_event \<Rightarrow> orch \<Rightarrow> orch" where
  "onAgentUpdate iid m ob =
     (case map_get (running ob) iid of
        None \<Rightarrow> ob
      | Some e \<Rightarrow>
          on_state (\<lambda>s. s\<lparr>rs_Running :=
                map_put iid (e\<lparr>re_Session := upd_session m (re_Session e)\<rparr>) (rs_Running s),
              rs_ClaudeTotals := add_usage m (rs_ClaudeTotals s),
              rs_ClaudeRateLimits :=
                (if ev_RateLimits m \<noteq> VNil then ev_RateLimits m else rs_ClaudeRateLimits s)\<rparr>) ob)"

section \<open>Worker exits\<close>

datatype exit_reason = ExitNormal | ExitAbnormal

definition exit_message :: "go_error option \<Rightarrow> string" where
  "exit_message err = (case err of
     None \<Rightarrow> ''worker exited'' | Some e \<Rightarrow> ''worker exited: '' @ error_string e)"

definition end_session :: "env \<Rightarrow> string \<Rightarrow> running_entry \<Rightarrow> runtime_state \<Rightarrow> runtime_state" where
  "end_session env iid entry s =
     s\<lparr>rs_Running := map_del iid (rs_Running s),
       rs_ClaudeTotals := (rs_ClaudeTotals s)\<lparr>tt_SecondsRunning :=
         tt_SecondsRunning (rs_ClaudeTotals s) + seconds (e_now env - re_StartedAt entry)\<rparr>\<rparr>"

definition onWorkerExit :: "env \<Rightarrow> string \<Rightarrow> exit_reason \<Rightarrow> go_error option \<Rightarrow> orch \<Rightarrow> orch" where
  "onWorkerExit env iid reason err ob =
     (case map_get (running ob) iid of
        None \<Rightarrow> ob
      | Some entry \<Rightarrow>
          (let ob1 = on_state (end_session env iid entry) ob;
               ob2 = (if re_CleanupOnExit entry then emit (ECleanup (re_Identifier entry)) ob1 else ob1)
           in if re_ReleaseOnExit entry then
                notify env (on_state (\<lambda>s. s\<lparr>rs_Claimed := rs_Claimed s - {iid}\<rparr>) ob2)
              else if reason = ExitNormal then
                notify env (scheduleRetry env iid 1 (re_Identifier entry) (i_URL (re_Issue entry))
                  None True (on_state (\<lambda>s. s\<lparr>rs_Completed := insert iid (rs_Completed s)\<rparr>) ob2))
              else
                notify env (scheduleRetry env iid (re_RetryAttempt entry + 1) (re_Identifier entry)
                  (i_URL (re_Issue entry)) (Some (exit_message err)) False ob2)))"

section \<open>Retry timers\<close>

fun findByID :: "issue list \<Rightarrow> string \<Rightarrow> issue option" where
  "findByID [] iid = None"
| "findByID (iss # issues) iid = (if i_ID iss = iid then Some iss else findByID issues iid)"

definition no_slot :: "orch \<Rightarrow> issue \<Rightarrow> bool" where
  "no_slot ob issue \<longleftrightarrow> globalAvailable (o_state ob) = 0
     \<or> PerStateLimit (o_cfg ob) (i_State issue) \<le> runningCountByState (o_state ob) (i_State issue)"

definition release_claim :: "env \<Rightarrow> string \<Rightarrow> orch \<Rightarrow> orch" where
  "release_claim env iid ob =
     notify env (on_state (\<lambda>s. s\<lparr>rs_Claimed := rs_Claimed s - {iid}\<rparr>) ob)"

definition onRetryTimer :: "env \<Rightarrow> string \<Rightarrow> orch \<Rightarrow> orch" where
  "onRetryTimer env iid ob0 =
     (case map_get (retries ob0) iid of
        None \<Rightarrow> ob0
      | Some entry \<Rightarrow>
          (let ob = on_state (\<lambda>s. s\<lparr>rs_RetryAttempts := map_del iid (rs_RetryAttempts s)\<rparr>) ob0
           in case e_candidates env (o_tracker ob) of
                Inl _ \<Rightarrow> scheduleRetry env iid (rt_Attempt entry + 1) (rt_Identifier entry)
                           (rt_URL entry) (Some ''retry poll failed'') False ob
              | Inr candidates \<Rightarrow>
                (case findByID candidates iid of
                   None \<Rightarrow> release_claim env iid ob
                 | Some issue \<Rightarrow>
                     if \<not> isEligible (o_cfg ob) issue then release_claim env iid ob
                     else if no_slot ob issue then
                       scheduleRetry env iid (rt_Attempt entry + 1) (i_Identifier issue)
                         (i_URL issue) (Some ''no available orchestrator slots'') False ob
                     else notify env (dispatchIssue env issue (Some (rt_Attempt entry)) ob))))"

section \<open>Reload, startup, shutdown and the event loop\<close>

definition onReload :: "config \<Rightarrow> string \<Rightarrow> orch \<Rightarrow> orch" where
  "onReload cfg tmpl ob =
     (case tracker_factory cfg of
        Inl _ \<Rightarrow> ob
      | Inr tr \<Rightarrow>
          (let ob1 = ob\<lparr>o_cfg := cfg, o_template := tmpl, o_tracker := tr,
                        o_ws := workspace_factory cfg,
                        o_state := (o_state ob)\<lparr>rs_PollIntervalMs := c_PollingIntervalMs cfg,
                          rs_MaxConcurrentAgents := ac_MaxConcurrent (c_Agent cfg)\<rparr>\<rparr>
           in scheduleTick (poll_interval ob1) ob1))"

datatype event =
    TickEvent
  | AgentUpdate string agent_event
  | WorkerExit string exit_reason "go_error option"
  | RetryTimerFired string
  | ReloadConfig config string
  | SnapshotRequest
  | RefreshRequest

fun handle :: "env \<Rightarrow> event \<Rightarrow> orch \<Rightarrow> orch" where
  "handle env TickEvent ob = onTick env ob"
| "handle env (AgentUpdate iid m) ob = onAgentUpdate iid m ob"
| "handle env (WorkerExit iid reason err) ob = onWorkerExit env iid reason err ob"
| "handle env (RetryTimerFired iid) ob = onRetryTimer env iid ob"
| "handle env (ReloadConfig cfg tmpl) ob = onReload cfg tmpl ob"
| "handle env RefreshRequest ob = scheduleTick 0 ob"
| "handle env SnapshotRequest ob = emit (EReply (buildSnapshot (e_now env) (o_state ob))) ob"

text \<open>\<^verbatim>\<open>Run\<close> up to its event loop: a failed validation ends it.\<close>

definition run_startup :: "env \<Rightarrow> orch \<Rightarrow> orch result" where
  "run_startup env ob =
     (case ValidateDispatch (o_cfg ob) of
        Some e \<Rightarrow> Inl e
      | None \<Rightarrow> Inr (scheduleTick 0 (startupTerminalCleanup env ob)))"

fun run_loop :: "(env \<times> event) list \<Rightarrow> orch \<Rightarrow> orch" where
  "run_loop [] ob = ob"
| "run_loop ((env, e) # es) ob = run_loop es (handle env e ob)"

definition shutdown :: "orch \<Rightarrow> orch" where
  "shutdown ob =
     ob\<lparr>o_out := o_out ob @ [EStopTick] @ map (\<lambda>p. EStopRetry (fst p)) (retries ob)
        @ map (\<lambda>p. ECancel (fst p)) (running ob)\<rparr>"

definition promptMode :: "config \<Rightarrow> string \<Rightarrow> string" where
  "promptMode cfg state = (if HasPromptOverride cfg state then ''override'' else ''default'')"

end
