(* ===== verification/OrchInv.thy ===== *)
theory OrchInv
  imports Handlers
begin

text \<open>
  The invariant of the scheduling state and its preservation by every handler: the claims
  are exactly the running and the queued issues, these two never overlap, each entry is
  filed under its own issue, and the flags and counters of an entry are consistent.
\<close>

section \<open>The invariant\<close>

definition entry_ok :: "string \<Rightarrow> running_entry \<Rightarrow> bool" where
  "entry_ok iid e \<longleftrightarrow>
     i_ID (re_Issue e) = iid \<and> re_Identifier e = i_Identifier (re_Issue e)
     \<and> (re_CleanupOnExit e \<longrightarrow> re_ReleaseOnExit e) \<and> (re_ReleaseOnExit e \<longrightarrow> re_Terminating e)
     \<and> 0 \<le> re_RetryAttempt e \<and> 0 \<le> ls_TurnCount (re_Session e)
     \<and> length (ls_RecentActivity (re_Session e)) \<le> maxRecentActivity"

definition retry_ok :: "string \<Rightarrow> retry_entry \<Rightarrow> bool" where
  "retry_ok iid r \<longleftrightarrow> rt_IssueID r = iid \<and> 1 \<le> rt_Attempt r"

definition state_inv :: "runtime_state \<Rightarrow> bool" where
  "state_inv s \<longleftrightarrow>
     map_wf (rs_Running s) \<and> map_wf (rs_RetryAttempts s)
     \<and> rs_Claimed s = map_keys (rs_Running s) \<union> map_keys (rs_RetryAttempts s)
     \<and> map_keys (rs_Running s) \<inter> map_keys (rs_RetryAttempts s) = {}
     \<and> (\<forall>iid e. map_get (rs_Running s) iid = Some e \<longrightarrow> entry_ok iid e)
     \<and> (\<forall>iid r. map_get (rs_RetryAttempts s) iid = Some r \<longrightarrow> retry_ok iid r)"

abbreviation orch_inv :: "orch \<Rightarrow> bool" where
  "orch_inv ob \<equiv> state_inv (o_state ob)"

lemma state_invI:
  assumes "map_wf (rs_Running s)" and "map_wf (rs_RetryAttempts s)"
    and "rs_Claimed s = map_keys (rs_Running s) \<union> map_keys (rs_RetryAttempts s)"
    and "map_keys (rs_Running s) \<inter> map_keys (rs_RetryAttempts s) = {}"
    and "\<And>iid e. map_get (rs_Running s) iid = Some e \<Longrightarrow> entry_ok iid e"
    and "\<And>iid r. map_get (rs_RetryAttempts s) iid = Some r \<Longrightarrow> retry_ok iid r"
  shows "state_inv s"
  using assms by (simp add: state_inv_def)

lemma state_invD:
  assumes "state_inv s"
  shows "map_wf (rs_Running s)" and "map_wf (rs_RetryAttempts s)"
    and "rs_Claimed s = map_keys (rs_Running s) \<union> map_keys (rs_RetryAttempts s)"
    and "map_keys (rs_Running s) \<inter> map_keys (rs_RetryAttempts s) = {}"
    and "map_get (rs_Running s) iid = Some e \<Longrightarrow> entry_ok iid e"
    and "map_get (rs_RetryAttempts s) iid = Some r \<Longrightarrow> retry_ok iid r"
  using assms by (simp_all add: state_inv_def)

lemma state_inv_new: "state_inv (newRuntimeState n m)"
  by (simp add: state_inv_def newRuntimeState_def)

section \<open>Frames\<close>

lemma notify_frame [simp]:
  "o_state (notify env ob) = o_state ob" "o_cfg (notify env ob) = o_cfg ob"
  "o_tracker (notify env ob) = o_tracker ob" "o_ws (notify env ob) = o_ws ob"
  "o_template (notify env ob) = o_template ob"
  by (simp_all add: notify_def)

lemma scheduleTick_frame [simp]:
  "o_state (scheduleTick d ob) = o_state ob" "o_cfg (scheduleTick d ob) = o_cfg ob"
  "o_tracker (scheduleTick d ob) = o_tracker ob" "o_ws (scheduleTick d ob) = o_ws ob"
  "o_template (scheduleTick d ob) = o_template ob"
  by (simp_all add: scheduleTick_def)

lemma removeRetryTimer_state:
  "o_state (removeRetryTimer iid ob) =
     (o_state ob)\<lparr>rs_RetryAttempts := map_del iid (retries ob)\<rparr>"
proof (cases "map_has (retries ob) iid")
  case False
  then have "map_del iid (retries ob) = retries ob"
    by (simp add: map_del_def map_keys_def delete_id)
  with False show ?thesis by (simp add: removeRetryTimer_def)
qed (simp add: removeRetryTimer_def)

lemma removeRetryTimer_frame [simp]:
  "o_cfg (removeRetryTimer iid ob) = o_cfg ob"
  "o_tracker (removeRetryTimer iid ob) = o_tracker ob"
  "o_ws (removeRetryTimer iid ob) = o_ws ob"
  "o_template (removeRetryTimer iid ob) = o_template ob"
  by (simp_all add: removeRetryTimer_def)

lemma dispatchIssue_state:
  "o_state (dispatchIssue env issue attempt ob) =
     (o_state ob)\<lparr>rs_Running := map_put (i_ID issue) (new_entry env (o_ws ob) issue attempt) (running ob),
        rs_Claimed := insert (i_ID issue) (claimed ob),
        rs_RetryAttempts := map_del (i_ID issue) (retries ob)\<rparr>"
  by (simp add: dispatchIssue_def Let_def removeRetryTimer_state)

lemma dispatchIssue_frame [simp]:
  "o_cfg (dispatchIssue env issue attempt ob) = o_cfg ob"
  "o_tracker (dispatchIssue env issue attempt ob) = o_tracker ob"
  "o_ws (dispatchIssue env issue attempt ob) = o_ws ob"
  "o_template (dispatchIssue env issue attempt ob) = o_template ob"
  by (simp_all add: dispatchIssue_def Let_def)

definition retry_record ::
  "env \<Rightarrow> config \<Rightarrow> string \<Rightarrow> int \<Rightarrow> string \<Rightarrow> string option \<Rightarrow> string option \<Rightarrow> bool \<Rightarrow> retry_entry" where
  "retry_record env cfg iid attempt0 identifier url errMsg continuation =
     (let attempt = (if \<not> continuation \<and> attempt0 < 1 then 1 else attempt0)
      in \<lparr>rt_IssueID = iid, rt_Identifier = identifier, rt_Attempt = attempt,
          rt_DueAtMs = (e_now env + retry_delay cfg attempt continuation) div 1000000,
          rt_Error = errMsg, rt_URL = url\<rparr>)"

lemma scheduleRetry_state:
  "o_state (scheduleRetry env iid a ident url msg c ob) =
     (o_state ob)\<lparr>rs_RetryAttempts :=
          map_put iid (retry_record env (o_cfg ob) iid a ident url msg c) (map_del iid (retries ob)),
        rs_Claimed := insert iid (claimed ob)\<rparr>"
  by (simp add: scheduleRetry_def Let_def removeRetryTimer_state retry_record_def)

lemma scheduleRetry_frame [simp]:
  "o_cfg (scheduleRetry env iid a ident url msg c ob) = o_cfg ob"
  "o_ws (scheduleRetry env iid a ident url msg c ob) = o_ws ob"
  "o_tracker (scheduleRetry env iid a ident url msg c ob) = o_tracker ob"
  "o_template (scheduleRetry env iid a ident url msg c ob) = o_template ob"
  by (simp_all add: scheduleRetry_def Let_def)

lemma retry_record_ok: "c \<longrightarrow> 1 \<le> a \<Longrightarrow> retry_ok iid (retry_record env cfg iid a ident url msg c)"
  by (simp add: retry_ok_def retry_record_def Let_def)

section \<open>Preservation\<close>

lemma new_entry_ok:
  "0 \<le> normalizeAttempt attempt \<Longrightarrow> entry_ok (i_ID issue) (new_entry env ws issue attempt)"
  by (simp add: entry_ok_def new_entry_def zero_session_def)

lemma dispatchIssue_inv [inv_intros]:
  assumes "orch_inv ob" and "0 \<le> normalizeAttempt attempt"
  shows "orch_inv (dispatchIssue env issue attempt ob)"
  using assms state_invD [OF assms(1)] new_entry_ok
  by (intro state_invI) (auto simp: dispatchIssue_state split: if_splits)

text \<open>A running entry may be rewritten as long as it stays consistent.\<close>

lemma put_running_inv:
  assumes "state_inv s" and "map_get (rs_Running s) iid = Some e" and "entry_ok iid e'"
  shows "state_inv (s\<lparr>rs_Running := map_put iid e' (rs_Running s)\<rparr>)"
  using assms state_invD [OF assms(1)] gm.get_SomeD [OF assms(2)]
  by (intro state_invI) (auto split: if_splits)

lemma stall_detection_inv [inv_intros]:
  assumes "orch_inv ob" shows "orch_inv (stall_detection env ob)"
proof -
  have ok: "entry_ok iid e \<Longrightarrow> entry_ok iid (if b then e\<lparr>re_Terminating := True\<rparr> else e)" for iid e b
    by (simp add: entry_ok_def)
  show ?thesis
    using state_invD [OF assms] ok assms
    by (auto simp: stall_detection_def Let_def intro!: state_invI)
qed

lemma terminateRunning_inv [inv_intros]:
  assumes "orch_inv ob" and "cleanup \<longrightarrow> release"
  shows "orch_inv (terminateRunning iid cleanup release ob)"
proof (cases "map_get (running ob) iid")
  case (Some e)
  from state_invD(5) [OF assms(1) Some] have "entry_ok iid e" .
  then have "entry_ok iid (e\<lparr>re_Terminating := True, re_CleanupOnExit := cleanup,
      re_ReleaseOnExit := release\<rparr>)"
    using assms(2) by (simp add: entry_ok_def)
  with put_running_inv [OF assms(1) Some] assms(1) Some show ?thesis
    by (simp add: terminateRunning_def)
qed (use assms in \<open>simp add: terminateRunning_def\<close>)

lemma refresh_issue_inv [inv_intros]:
  assumes "orch_inv ob" shows "orch_inv (refresh_issue issue ob)"
proof (cases "map_get (running ob) (i_ID issue)")
  case (Some e)
  from state_invD(5) [OF assms Some] have "entry_ok (i_ID issue) e" .
  then have "entry_ok (i_ID issue) (e\<lparr>re_Issue := (re_Issue e)\<lparr>i_State := i_State issue,
      i_Labels := i_Labels issue\<rparr>\<rparr>)"
    by (simp add: entry_ok_def)
  with put_running_inv [OF assms Some] assms Some show ?thesis
    by (auto simp: refresh_issue_def intro!: terminateRunning_inv)
qed (use assms in \<open>simp add: refresh_issue_def\<close>)

lemma refresh_all_inv [inv_intros]: "orch_inv ob \<Longrightarrow> orch_inv (fold refresh_issue issues ob)"
  by (induction issues arbitrary: ob) (auto intro: refresh_issue_inv)

lemma reconcile_inv [inv_intros]: "orch_inv ob \<Longrightarrow> orch_inv (reconcile env ob)"
  by (auto simp: reconcile_def state_refresh_def Let_def split: sum.splits intro!: inv_intros)

lemma dispatch_loop_inv [inv_intros]: "orch_inv ob \<Longrightarrow> orch_inv (dispatch_loop env issues ob)"
  by (induction issues arbitrary: ob) (simp_all add: dispatchIssue_inv normalizeAttempt_def)

lemma onTick_inv [inv_intros]: "orch_inv ob \<Longrightarrow> orch_inv (onTick env ob)"
  by (auto simp: onTick_def Let_def split: option.splits sum.splits intro!: inv_intros)

lemma appendActivity_length: "length (appendActivity hist act) \<le> maxRecentActivity \<or>
    length (appendActivity hist act) \<le> length hist"
  by (auto simp: appendActivity_def Let_def maxRecentActivity_def)

lemma upd_session_activity:
  "length (ls_RecentActivity s) \<le> maxRecentActivity \<Longrightarrow>
     length (ls_RecentActivity (upd_session m s)) \<le> maxRecentActivity"
  using appendActivity_length [of "ls_RecentActivity s" "activity_of m"]
  by (auto simp: upd_session_def upd_usage_def upd_ids_def upd_message_def Let_def split: option.splits)

lemma upd_session_turns: "ls_TurnCount s \<le> ls_TurnCount (upd_session m s)"
  by (auto simp: upd_session_def upd_usage_def upd_ids_def upd_message_def Let_def split: option.splits)

lemma onAgentUpdate_inv [inv_intros]:
  assumes "orch_inv ob" shows "orch_inv (onAgentUpdate iid m ob)"
proof (cases "map_get (running ob) iid")
  case (Some e)
  from state_invD(5) [OF assms Some] have "entry_ok iid e" .
  then have "entry_ok iid (e\<lparr>re_Session := upd_session m (re_Session e)\<rparr>)"
    using upd_session_activity [of "re_Session e" m] upd_session_turns [of "re_Session e" m]
    by (auto simp: entry_ok_def)
  then have "state_inv ((o_state ob)\<lparr>rs_Running :=
      map_put iid (e\<lparr>re_Session := upd_session m (re_Session e)\<rparr>) (running ob)\<rparr>)"
    by (rule put_running_inv [OF assms Some])
  then show ?thesis by (simp add: onAgentUpdate_def Some state_inv_def)
qed (use assms in \<open>simp add: onAgentUpdate_def\<close>)

text \<open>
  Between the removal of an entry and the release or requeueing of its claim the state has
  one claim without an entry.
\<close>

definition open_claim :: "string \<Rightarrow> runtime_state \<Rightarrow> bool" where
  "open_claim iid s \<longleftrightarrow> iid \<notin> map_keys (rs_Running s) \<and> iid \<notin> map_keys (rs_RetryAttempts s)
     \<and> iid \<in> rs_Claimed s \<and> state_inv (s\<lparr>rs_Claimed := rs_Claimed s - {iid}\<rparr>)"

lemma open_claim_frame:
  "open_claim iid s \<Longrightarrow> open_claim iid (s\<lparr>rs_Completed := c\<rparr>)"
  "open_claim iid s \<Longrightarrow> open_claim iid (s\<lparr>rs_ClaudeTotals := t\<rparr>)"
  by (simp_all add: open_claim_def state_inv_def)

lemma scheduleRetry_inv:
  assumes "open_claim iid (o_state ob)" and "c \<longrightarrow> 1 \<le> a"
  shows "orch_inv (scheduleRetry env iid a ident url msg c ob)"
  using assms retry_record_ok [OF assms(2), of iid env "o_cfg ob" ident url msg]
  by (auto simp: scheduleRetry_state open_claim_def state_inv_def split: if_splits)

lemma end_session_open:
  assumes "state_inv s" and "map_get (rs_Running s) iid = Some e"
  shows "open_claim iid (end_session env iid e s)"
  using assms gm.get_SomeD [OF assms(2)] state_invD [OF assms(1)]
  by (auto simp: open_claim_def end_session_def intro!: state_invI split: if_splits)

lemma drop_retry_open:
  assumes "state_inv s" and "map_get (rs_RetryAttempts s) iid = Some r"
  shows "open_claim iid (s\<lparr>rs_RetryAttempts := map_del iid (rs_RetryAttempts s)\<rparr>)"
  using assms gm.get_SomeD [OF assms(2)] state_invD [OF assms(1)]
  by (auto simp: open_claim_def intro!: state_invI split: if_splits)

lemma onWorkerExit_inv [inv_intros]:
  assumes "orch_inv ob" shows "orch_inv (onWorkerExit env iid reason err ob)"
proof (cases "map_get (running ob) iid")
  case (Some e)
  note oc = end_session_open [OF assms Some, of env]
  show ?thesis
    using oc open_claim_frame(1) [OF oc] state_invD(5) [OF assms Some]
    by (auto simp: onWorkerExit_def Some Let_def intro!: scheduleRetry_inv)
      (simp_all add: open_claim_def)
qed (use assms in \<open>simp add: onWorkerExit_def\<close>)

lemma open_dispatch_inv:
  assumes "open_claim (i_ID issue) (o_state ob)" and "0 \<le> normalizeAttempt attempt"
  shows "orch_inv (dispatchIssue env issue attempt ob)"
  using assms new_entry_ok [OF assms(2), of issue env "o_ws ob"]
  by (auto simp: dispatchIssue_state open_claim_def state_inv_def split: if_splits)

lemma findByID_SomeD: "findByID issues iid = Some i \<Longrightarrow> i \<in> set issues \<and> i_ID i = iid"
  by (induction issues) (auto split: if_splits)

lemma onRetryTimer_inv [inv_intros]:
  assumes "orch_inv ob" shows "orch_inv (onRetryTimer env iid ob)"
proof (cases "map_get (retries ob) iid")
  case (Some r)
  note oc = drop_retry_open [OF assms Some]
  have "1 \<le> rt_Attempt r" using state_invD(6) [OF assms Some] by (simp add: retry_ok_def)
  then show ?thesis
    using oc by (auto simp: onRetryTimer_def Some Let_def release_claim_def normalizeAttempt_def
        dest!: findByID_SomeD split: sum.splits option.splits
        intro!: scheduleRetry_inv open_dispatch_inv)
      (simp_all add: open_claim_def)
qed (use assms in \<open>simp add: onRetryTimer_def\<close>)

lemma onReload_inv [inv_intros]: "orch_inv ob \<Longrightarrow> orch_inv (onReload cfg tmpl ob)"
  by (auto simp: onReload_def Let_def state_inv_def split: sum.splits)

lemma handle_inv: "orch_inv ob \<Longrightarrow> orch_inv (handle env e ob)"
  by (cases e) (auto intro: inv_intros)

lemma startup_inv:
  "orch_New cfg tmpl = Inr ob \<Longrightarrow> run_startup env ob = Inr ob' \<Longrightarrow> orch_inv ob'"
  by (auto simp: orch_New_def run_startup_def startupTerminalCleanup_def state_inv_new
      split: sum.splits option.splits)

section \<open>The event loop\<close>

text \<open>A handler that keeps an invariant keeps it over every sequence of events.\<close>

locale event_loop =
  fixes step :: "'env \<Rightarrow> 'ev \<Rightarrow> 's \<Rightarrow> 's" and inv :: "'s \<Rightarrow> bool"
  assumes step_inv: "inv s \<Longrightarrow> inv (step env e s)"
begin

lemma run_inv: "inv s \<Longrightarrow> inv (fold (\<lambda>(env, e). step env e) es s)"
  by (induction es arbitrary: s) (auto intro: step_inv)

end

interpretation oloop: event_loop handle orch_inv
  by unfold_locales (rule handle_inv)

lemma run_loop_fold: "run_loop es ob = fold (\<lambda>(env, e). handle env e) es ob"
  by (induction es ob rule: run_loop.induct) auto

lemma run_loop_inv: "orch_inv ob \<Longrightarrow> orch_inv (run_loop es ob)"
  using oloop.run_inv by (simp add: run_loop_fold)

end
