(* ===== verification/Scheduling.thy ===== *)
theory Scheduling
  imports OrchInv
begin

text \<open>
  What the dispatch loop selects. \<open>select\<close> is its specification on the little state that
  matters (the claimed ids and the normalized tracker states of the running issues); the
  loop dispatches exactly the selected issues, in order, and the selection respects both
  concurrency limits and leaves no dispatchable issue behind.
\<close>

section \<open>The selection\<close>

definition state_of :: "issue \<Rightarrow> string" where
  "state_of i = NormalizeState (i_State i)"

definition limit_of :: "config \<Rightarrow> string \<Rightarrow> int" where
  "limit_of cfg n = (case map_get (ac_MaxConcurrentByState (c_Agent cfg)) n of
     Some v \<Rightarrow> v | None \<Rightarrow> ac_MaxConcurrent (c_Agent cfg))"

lemma PerStateLimit_limit_of: "PerStateLimit cfg st = limit_of cfg (NormalizeState st)"
  by (simp add: PerStateLimit_def limit_of_def normState_NormalizeState)

definition selectable :: "config \<Rightarrow> string set \<Rightarrow> string list \<Rightarrow> issue \<Rightarrow> bool" where
  "selectable cfg cl sts i \<longleftrightarrow>
     i_ID i \<notin> cl \<and> isEligible cfg i \<and> int (count_list sts (state_of i)) < limit_of cfg (state_of i)"

fun select :: "config \<Rightarrow> int \<Rightarrow> string set \<Rightarrow> string list \<Rightarrow> issue list \<Rightarrow> issue list" where
  "select cfg mx cl sts [] = []"
| "select cfg mx cl sts (i # is) =
     (if mx \<le> int (length sts) then []
      else if selectable cfg cl sts i
        then i # select cfg mx (insert (i_ID i) cl) (sts @ [state_of i]) is
      else select cfg mx cl sts is)"

lemma select_subseq: "subseq (select cfg mx cl sts is) is"
  by (induction cfg mx cl sts "is" rule: select.induct) (auto intro: subseq_Cons')

lemma select_ids:
  "distinct (map i_ID (select cfg mx cl sts is)) \<and> i_ID ` set (select cfg mx cl sts is) \<inter> cl = {}"
  by (induction cfg mx cl sts "is" rule: select.induct) (auto simp: selectable_def image_iff)

lemma select_eligible: "i \<in> set (select cfg mx cl sts is) \<Longrightarrow> isEligible cfg i"
  by (induction cfg mx cl sts "is" rule: select.induct)
    (auto simp: selectable_def split: if_splits)

lemma select_global:
  "int (length sts + length (select cfg mx cl sts is)) \<le> max (int (length sts)) mx"
proof (induction cfg mx cl sts "is" rule: select.induct)
  case (2 cfg mx cl sts i "is")
  show ?case
    using 2 by (cases "mx \<le> int (length sts)"; cases "selectable cfg cl sts i") auto
qed simp

lemma select_per_state:
  "int (count_list (sts @ map state_of (select cfg mx cl sts is)) n)
     \<le> max (int (count_list sts n)) (limit_of cfg n)"
proof (induction cfg mx cl sts "is" rule: select.induct)
  case (2 cfg mx cl sts i "is")
  consider "mx \<le> int (length sts)" | "\<not> mx \<le> int (length sts)" "selectable cfg cl sts i"
    | "\<not> mx \<le> int (length sts)" "\<not> selectable cfg cl sts i" by blast
  then show ?case
  proof cases
    case 2
    then show ?thesis using "2.IH"(1) by (auto simp: selectable_def split: if_splits)
  qed (use "2.IH" in simp_all)
qed simp

text \<open>An issue left out is blocked by a claim, by eligibility or by an exhausted limit.\<close>

lemma select_maximal:
  assumes "i \<in> set is" and "isEligible cfg i" and "i_ID i \<notin> cl"
    and "i_ID i \<notin> i_ID ` set (select cfg mx cl sts is)"
  shows "let sts' = sts @ map state_of (select cfg mx cl sts is)
    in mx \<le> int (length sts') \<or> limit_of cfg (state_of i) \<le> int (count_list sts' (state_of i))"
  using assms
proof (induction cfg mx cl sts "is" rule: select.induct)
  case (2 cfg mx cl sts j "is")
  consider "mx \<le> int (length sts)" | "\<not> mx \<le> int (length sts)" "selectable cfg cl sts j"
    | "\<not> mx \<le> int (length sts)" "\<not> selectable cfg cl sts j" by blast
  then show ?case
  proof cases
    case 2
    with "2.prems" have "i \<in> set is" "i_ID i \<notin> insert (i_ID j) cl"
      "i_ID i \<notin> i_ID ` set (select cfg mx (insert (i_ID j) cl) (sts @ [state_of j]) is)" by auto
    with "2.IH"(1) 2 "2.prems" show ?thesis by (simp add: Let_def)
  next
    case 3
    show ?thesis
    proof (cases "i = j")
      case True
      with 3 "2.prems" show ?thesis by (auto simp: selectable_def Let_def not_less)
    next
      case False
      with 3 "2.prems" "2.IH"(2) show ?thesis by (simp add: Let_def)
    qed
  qed simp
qed simp

section \<open>The loop implements the selection\<close>

definition running_states :: "orch \<Rightarrow> string list" where
  "running_states ob = map (\<lambda>p. state_of (re_Issue (snd p))) (running ob)"

definition picks :: "orch \<Rightarrow> issue list \<Rightarrow> issue list" where
  "picks ob issues =
     select (o_cfg ob) (rs_MaxConcurrentAgents (o_state ob)) (claimed ob) (running_states ob) issues"

lemma length_filter_count:
  "length (filter (\<lambda>p. f p = x) xs) = count_list (map f xs) x"
  by (induction xs) auto

lemma runningCountByState_count:
  "runningCountByState (o_state ob) st = int (count_list (running_states ob) (NormalizeState st))"
  by (simp add: runningCountByState_def running_states_def state_of_def case_prod_unfold
      length_filter_count)

lemma globalAvailable_le_0:
  "globalAvailable (o_state ob) \<le> 0 \<longleftrightarrow>
     rs_MaxConcurrentAgents (o_state ob) \<le> int (length (running_states ob))"
  by (simp add: globalAvailable_def Let_def running_states_def)

lemma may_dispatch_selectable:
  "orch_inv ob \<Longrightarrow> may_dispatch ob i \<longleftrightarrow>
     selectable (o_cfg ob) (claimed ob) (running_states ob) i"
  by (auto simp: may_dispatch_def selectable_def runningCountByState_count PerStateLimit_limit_of
      state_of_def dest: state_invD(3))

text \<open>One dispatch of an unclaimed issue, field by field.\<close>

lemma dispatchIssue_fresh:
  assumes "orch_inv ob" and "i_ID i \<notin> claimed ob"
  shows "o_state (dispatchIssue env i attempt ob) =
      (o_state ob)\<lparr>rs_Running := running ob @ [(i_ID i, new_entry env (o_ws ob) i attempt)],
        rs_Claimed := insert (i_ID i) (claimed ob)\<rparr>"
    and "o_out (dispatchIssue env i attempt ob) = o_out ob @
      [ESpawn (i_ID i) (runner_factory (o_cfg ob) (o_template ob) (o_ws ob) (o_tracker ob) i) i attempt]"
proof -
  have fresh: "i_ID i \<notin> map_keys (running ob)" "i_ID i \<notin> map_keys (retries ob)"
    using assms state_invD(3) [OF assms(1)] by auto
  then have "map_del (i_ID i) (retries ob) = retries ob"
    by (simp add: map_del_def map_keys_def delete_id)
  with fresh show "o_state (dispatchIssue env i attempt ob) =
      (o_state ob)\<lparr>rs_Running := running ob @ [(i_ID i, new_entry env (o_ws ob) i attempt)],
        rs_Claimed := insert (i_ID i) (claimed ob)\<rparr>"
    by (simp add: dispatchIssue_state map_put_fresh)
  show "o_out (dispatchIssue env i attempt ob) = o_out ob @
      [ESpawn (i_ID i) (runner_factory (o_cfg ob) (o_template ob) (o_ws ob) (o_tracker ob) i) i attempt]"
    using fresh by (simp add: dispatchIssue_def Let_def removeRetryTimer_def)
qed

lemma running_states_dispatch:
  assumes "orch_inv ob" and "i_ID i \<notin> claimed ob"
  shows "running_states (dispatchIssue env i attempt ob) = running_states ob @ [state_of i]"
  using dispatchIssue_fresh(1) [OF assms] by (simp add: running_states_def new_entry_def)

abbreviation spawn_of :: "orch \<Rightarrow> issue \<Rightarrow> effect" where
  "spawn_of ob i \<equiv> ESpawn (i_ID i)
     (runner_factory (o_cfg ob) (o_template ob) (o_ws ob) (o_tracker ob) i) i None"

lemma picks_step:
  assumes "orch_inv ob"
  shows "globalAvailable (o_state ob) \<le> 0 \<Longrightarrow> picks ob (i # issues) = []"
    and "\<not> globalAvailable (o_state ob) \<le> 0 \<Longrightarrow> \<not> may_dispatch ob i \<Longrightarrow>
      picks ob (i # issues) = picks ob issues"
    and "\<not> globalAvailable (o_state ob) \<le> 0 \<Longrightarrow> may_dispatch ob i \<Longrightarrow>
      picks ob (i # issues) = i # picks (dispatchIssue env i None ob) issues"
proof -
  show "globalAvailable (o_state ob) \<le> 0 \<Longrightarrow> picks ob (i # issues) = []"
    by (simp add: picks_def globalAvailable_le_0)
  show "\<not> globalAvailable (o_state ob) \<le> 0 \<Longrightarrow> \<not> may_dispatch ob i \<Longrightarrow>
      picks ob (i # issues) = picks ob issues"
    using assms by (simp add: picks_def globalAvailable_le_0 may_dispatch_selectable)
  assume a: "\<not> globalAvailable (o_state ob) \<le> 0" "may_dispatch ob i"
  then have fresh: "i_ID i \<notin> claimed ob" by (simp add: may_dispatch_def)
  show "picks ob (i # issues) = i # picks (dispatchIssue env i None ob) issues"
    using a dispatchIssue_fresh(1) [OF assms fresh, of env None]
      running_states_dispatch [OF assms fresh, of env None] may_dispatch_selectable [OF assms]
    by (simp add: picks_def globalAvailable_le_0)
qed

lemma dispatch_loop_picks:
  assumes "orch_inv ob"
  shows "o_out (dispatch_loop env issues ob) = o_out ob @ map (spawn_of ob) (picks ob issues)
    \<and> running (dispatch_loop env issues ob) =
        running ob @ map (\<lambda>i. (i_ID i, new_entry env (o_ws ob) i None)) (picks ob issues)
    \<and> claimed (dispatch_loop env issues ob) = claimed ob \<union> i_ID ` set (picks ob issues)
    \<and> retries (dispatch_loop env issues ob) = retries ob"
  using assms
proof (induction issues arbitrary: ob)
  case Nil
  then show ?case by (simp add: picks_def)
next
  case (Cons i issues)
  show ?case
  proof (cases "globalAvailable (o_state ob) \<le> 0 \<or> \<not> may_dispatch ob i")
    case True
    with Cons picks_step(1,2) show ?thesis by (cases "globalAvailable (o_state ob) \<le> 0") simp_all
  next
    case False
    let ?ob' = "dispatchIssue env i None ob"
    have fresh: "i_ID i \<notin> claimed ob" using False by (simp add: may_dispatch_def)
    have "orch_inv ?ob'"
      by (rule dispatchIssue_inv [OF Cons.prems]) (simp add: normalizeAttempt_def)
    then show ?thesis
      using False Cons.IH picks_step(3) [OF Cons.prems, where env = env] dispatchIssue_fresh [OF Cons.prems fresh]
      by simp
  qed
qed

lemma dispatch_loop_frame [simp]:
  "o_cfg (dispatch_loop env issues ob) = o_cfg ob"
  "o_ws (dispatch_loop env issues ob) = o_ws ob"
  "o_tracker (dispatch_loop env issues ob) = o_tracker ob"
  by (induction issues arbitrary: ob) simp_all

lemma running_states_loop:
  assumes "orch_inv ob"
  shows "running_states (dispatch_loop env issues ob)
    = running_states ob @ map state_of (picks ob issues)"
  using dispatch_loop_picks [OF assms, of env issues]
  by (simp add: running_states_def new_entry_def comp_def)

lemma dispatch_loop_fold:
  assumes "orch_inv ob"
  shows "dispatch_loop env issues ob = fold (\<lambda>i. dispatchIssue env i None) (picks ob issues) ob"
  using assms
proof (induction issues arbitrary: ob)
  case (Cons i issues)
  show ?case
  proof (cases "globalAvailable (o_state ob) \<le> 0 \<or> \<not> may_dispatch ob i")
    case True
    with Cons picks_step(1,2) show ?thesis by (cases "globalAvailable (o_state ob) \<le> 0") simp_all
  next
    case False
    then have "orch_inv (dispatchIssue env i None ob)"
      using Cons.prems by (simp add: dispatchIssue_inv normalizeAttempt_def)
    with False Cons picks_step(3) [OF Cons.prems, where env = env] show ?thesis by simp
  qed
qed (simp add: picks_def)

section \<open>The dispatch order\<close>

text \<open>The key of an issue: priority, then creation time, then identifier.\<close>

datatype dispatch_key = DKey (dk_priority: int) (dk_created: int) (dk_identifier: string)

instantiation dispatch_key :: linorder
begin

definition less_dispatch_key :: "dispatch_key \<Rightarrow> dispatch_key \<Rightarrow> bool" where
  "less_dispatch_key a b \<longleftrightarrow> dk_priority a < dk_priority b
     \<or> dk_priority a = dk_priority b \<and> (dk_created a < dk_created b
     \<or> dk_created a = dk_created b \<and> dk_identifier a < dk_identifier b)"

definition less_eq_dispatch_key :: "dispatch_key \<Rightarrow> dispatch_key \<Rightarrow> bool" where
  "less_eq_dispatch_key a b \<longleftrightarrow> a < b \<or> a = b"

instance
proof
  fix a b c :: dispatch_key
  show "(a < b) = (a \<le> b \<and> \<not> b \<le> a)"
    by (cases a; cases b) (auto simp: less_eq_dispatch_key_def less_dispatch_key_def)
  show "a \<le> a" by (simp add: less_eq_dispatch_key_def)
  show "a \<le> b \<Longrightarrow> b \<le> c \<Longrightarrow> a \<le> c"
    by (cases a; cases b; cases c) (auto simp: less_eq_dispatch_key_def less_dispatch_key_def)
  show "a \<le> b \<Longrightarrow> b \<le> a \<Longrightarrow> a = b"
    by (cases a; cases b) (auto simp: less_eq_dispatch_key_def less_dispatch_key_def)
  show "a \<le> b \<or> b \<le> a"
    by (cases a; cases b) (auto simp: less_eq_dispatch_key_def less_dispatch_key_def)
qed

end

definition dispatch_key_of :: "issue \<Rightarrow> dispatch_key" where
  "dispatch_key_of i = DKey (priorityKey (i_Priority i)) (createdKey (i_CreatedAt i)) (i_Identifier i)"

interpretation dorder: less_by_key dispatch_less dispatch_key_of
  by unfold_locales
    (auto simp: dispatch_less_def dispatch_key_of_def less_dispatch_key_def Let_def)

text \<open>A subsequence of a list sorted by a key is sorted by that key.\<close>

lemma sorted_map_subseq:
  assumes "subseq xs ys" and "sorted (map f ys)"
  shows "sorted (map f xs)"
  using assms
proof (induction rule: list_emb.induct)
  case (list_emb_Cons2 x y xs ys)
  then show ?case by (auto dest: list_emb_set)
qed auto

end
