(* ===== verification/ClaimMachine.thy ===== *)
theory ClaimMachine
  imports Scheduling
begin

text \<open>
  The claim states of an issue (\<^verbatim>\<open>Unclaimed\<close>, \<^verbatim>\<open>Running\<close>, \<^verbatim>\<open>RetryQueued\<close>) as a state
  machine of its own, the transitions each event may cause, and the proof that every
  handler of the orchestrator refines it. The effects are balanced with the moves: an
  issue enters \<^verbatim>\<open>Running\<close> exactly when one worker is spawned for it, and enters the
  queue exactly when one timer is armed for it.
\<close>

section \<open>The abstract machine\<close>

datatype claim = Unclaimed | Running | RetryQueued

definition claim_of :: "runtime_state \<Rightarrow> string \<Rightarrow> claim" where
  "claim_of s iid =
     (if map_has (rs_Running s) iid then Running
      else if map_has (rs_RetryAttempts s) iid then RetryQueued else Unclaimed)"

inductive claim_step :: "event \<Rightarrow> string \<Rightarrow> claim \<Rightarrow> claim \<Rightarrow> bool" where
  stay: "claim_step e iid c c"
| tick_dispatch: "claim_step TickEvent iid Unclaimed Running"
| exit_requeue: "claim_step (WorkerExit iid reason err) iid Running RetryQueued"
| exit_release: "claim_step (WorkerExit iid reason err) iid Running Unclaimed"
| timer_dispatch: "claim_step (RetryTimerFired iid) iid RetryQueued Running"
| timer_release: "claim_step (RetryTimerFired iid) iid RetryQueued Unclaimed"

inductive_cases claim_step_from_Running: "claim_step e iid Running c"
inductive_cases claim_step_to_Running: "claim_step e iid c Running"

inductive_simps claim_step_exit: "claim_step (WorkerExit i reason err) iid c c'"
inductive_simps claim_step_timer: "claim_step (RetryTimerFired i) iid c c'"

lemma claim_of_cong:
  "map_keys (rs_Running s) = map_keys (rs_Running t) \<Longrightarrow>
   map_keys (rs_RetryAttempts s) = map_keys (rs_RetryAttempts t) \<Longrightarrow>
     claim_of s iid = claim_of t iid"
  by (simp add: claim_of_def)

lemma state_inv_claims:
  "state_inv s \<Longrightarrow> iid \<in> rs_Claimed s \<longleftrightarrow> claim_of s iid \<noteq> Unclaimed"
  by (auto simp: claim_of_def dest: state_invD(3))

section \<open>Counting effects\<close>

fun spawns :: "string \<Rightarrow> effect list \<Rightarrow> nat" where
  "spawns iid [] = 0"
| "spawns iid (ESpawn i r iss a # out) = (if i = iid then Suc (spawns iid out) else spawns iid out)"
| "spawns iid (_ # out) = spawns iid out"

fun arms :: "string \<Rightarrow> effect list \<Rightarrow> nat" where
  "arms iid [] = 0"
| "arms iid (EArmRetry i d # out) = (if i = iid then Suc (arms iid out) else arms iid out)"
| "arms iid (_ # out) = arms iid out"

lemma spawns_append [simp]: "spawns iid (xs @ ys) = spawns iid xs + spawns iid ys"
  by (induction iid xs rule: spawns.induct) auto

lemma arms_append [simp]: "arms iid (xs @ ys) = arms iid xs + arms iid ys"
  by (induction iid xs rule: arms.induct) auto

lemma spawns_map_ECancel [simp]: "spawns iid (map (\<lambda>p. ECancel (f p)) xs) = 0"
  and arms_map_ECancel [simp]: "arms iid (map (\<lambda>p. ECancel (f p)) xs) = 0"
  by (induction xs) auto

text \<open>
  What stays constant: the number of spawns so far against being in the running map, and
  the number of timers armed so far against being in the retry queue.
\<close>

definition ind :: "bool \<Rightarrow> int" where "ind b = (if b then 1 else 0)"

definition run_bal :: "string \<Rightarrow> orch \<Rightarrow> int" where
  "run_bal iid ob = ind (map_has (running ob) iid) - int (spawns iid (o_out ob))"

definition retry_bal :: "string \<Rightarrow> orch \<Rightarrow> int" where
  "retry_bal iid ob = ind (map_has (retries ob) iid) - int (arms iid (o_out ob))"

definition balanced :: "orch \<Rightarrow> orch \<Rightarrow> bool" where
  "balanced ob ob' \<longleftrightarrow> (\<forall>iid. run_bal iid ob' = run_bal iid ob \<and> retry_bal iid ob' = retry_bal iid ob)"

lemma balancedI:
  "(\<And>iid. run_bal iid ob' = run_bal iid ob) \<Longrightarrow> (\<And>iid. retry_bal iid ob' = retry_bal iid ob) \<Longrightarrow>
     balanced ob ob'"
  by (simp add: balanced_def)

lemma balanced_refl [simp]: "balanced ob ob"
  by (simp add: balanced_def)

lemma balanced_trans: "balanced a b \<Longrightarrow> balanced b c \<Longrightarrow> balanced a c"
  by (simp add: balanced_def)

lemmas bal_defs = run_bal_def retry_bal_def

lemma notify_counts [simp]:
  "spawns iid (o_out (notify env ob)) = spawns iid (o_out ob)"
  "arms iid (o_out (notify env ob)) = arms iid (o_out ob)"
  by (simp_all add: notify_def)

lemma notify_bal [simp]:
  "run_bal iid (notify env ob) = run_bal iid ob" "retry_bal iid (notify env ob) = retry_bal iid ob"
  by (simp_all add: bal_defs notify_def)

lemma scheduleTick_bal [simp]:
  "run_bal iid (scheduleTick d ob) = run_bal iid ob"
  "retry_bal iid (scheduleTick d ob) = retry_bal iid ob"
  by (simp_all add: bal_defs scheduleTick_def)

lemma balanced_notify [simp]: "balanced ob (notify env ob') = balanced ob ob'"
  by (simp add: balanced_def)

lemma balanced_scheduleTick [simp]: "balanced ob (scheduleTick d ob') = balanced ob ob'"
  by (simp add: balanced_def)

section \<open>Reconciliation moves nothing\<close>

lemma terminateRunning_moves:
  "map_keys (running (terminateRunning i c r ob)) = map_keys (running ob)
   \<and> retries (terminateRunning i c r ob) = retries ob
   \<and> claimed (terminateRunning i c r ob) = claimed ob
   \<and> balanced ob (terminateRunning i c r ob)"
  by (auto simp: terminateRunning_def balanced_def bal_defs ind_def dest: gm.get_SomeD
      split: option.splits)

lemma refresh_issue_moves:
  "map_keys (running (refresh_issue i ob)) = map_keys (running ob)
   \<and> retries (refresh_issue i ob) = retries ob \<and> claimed (refresh_issue i ob) = claimed ob
   \<and> balanced ob (refresh_issue i ob)"
proof (cases "\<exists>c r. refresh_issue i ob = terminateRunning (i_ID i) c r ob")
  case True
  then show ?thesis using terminateRunning_moves by metis
next
  case False
  then show ?thesis
    by (auto simp: refresh_issue_def balanced_def bal_defs ind_def dest: gm.get_SomeD
        split: option.splits if_splits)
qed

lemma refresh_all_moves:
  "map_keys (running (fold refresh_issue is ob)) = map_keys (running ob)
   \<and> retries (fold refresh_issue is ob) = retries ob \<and> claimed (fold refresh_issue is ob) = claimed ob
   \<and> balanced ob (fold refresh_issue is ob)"
proof (induction "is" arbitrary: ob)
  case (Cons i "is")
  show ?case
    using Cons [of "refresh_issue i ob"] refresh_issue_moves [of i ob]
    by (auto intro: balanced_trans)
qed simp

lemma stall_detection_moves:
  "map_keys (running (stall_detection env ob)) = map_keys (running ob)
   \<and> retries (stall_detection env ob) = retries ob \<and> claimed (stall_detection env ob) = claimed ob
   \<and> balanced ob (stall_detection env ob)"
  by (auto simp: stall_detection_def Let_def balanced_def bal_defs)

lemma reconcile_moves:
  "map_keys (running (reconcile env ob)) = map_keys (running ob)
   \<and> retries (reconcile env ob) = retries ob \<and> claimed (reconcile env ob) = claimed ob
   \<and> balanced ob (reconcile env ob)"
proof -
  note sd = stall_detection_moves [of env ob]
  show ?thesis
  proof (cases "state_refresh env (stall_detection env ob) = stall_detection env ob")
    case True
    with sd show ?thesis by (simp add: reconcile_def)
  next
    case False
    then obtain "is" where "state_refresh env (stall_detection env ob)
        = fold refresh_issue is (stall_detection env ob)"
      by (auto simp: state_refresh_def Let_def split: if_splits sum.splits)
    with sd refresh_all_moves [of "is" "stall_detection env ob"] show ?thesis
      by (auto simp: reconcile_def intro: balanced_trans)
  qed
qed

lemma terminateRunning_frame [simp]:
  "o_cfg (terminateRunning i c r ob) = o_cfg ob" "o_ws (terminateRunning i c r ob) = o_ws ob"
  "o_tracker (terminateRunning i c r ob) = o_tracker ob"
  "rs_MaxConcurrentAgents (o_state (terminateRunning i c r ob)) = rs_MaxConcurrentAgents (o_state ob)"
  "rs_ClaudeTotals (o_state (terminateRunning i c r ob)) = rs_ClaudeTotals (o_state ob)"
  by (simp_all add: terminateRunning_def split: option.splits)

lemma refresh_issue_frame [simp]:
  "o_cfg (refresh_issue i ob) = o_cfg ob" "o_ws (refresh_issue i ob) = o_ws ob"
  "o_tracker (refresh_issue i ob) = o_tracker ob"
  "rs_MaxConcurrentAgents (o_state (refresh_issue i ob)) = rs_MaxConcurrentAgents (o_state ob)"
  "rs_ClaudeTotals (o_state (refresh_issue i ob)) = rs_ClaudeTotals (o_state ob)"
  by (simp_all add: refresh_issue_def split: option.splits)

lemma refresh_all_frame [simp]:
  "o_cfg (fold refresh_issue is ob) = o_cfg ob" "o_ws (fold refresh_issue is ob) = o_ws ob"
  "o_tracker (fold refresh_issue is ob) = o_tracker ob"
  "rs_MaxConcurrentAgents (o_state (fold refresh_issue is ob)) = rs_MaxConcurrentAgents (o_state ob)"
  "rs_ClaudeTotals (o_state (fold refresh_issue is ob)) = rs_ClaudeTotals (o_state ob)"
  by (induction "is" arbitrary: ob) simp_all

lemma stall_detection_frame [simp]:
  "o_cfg (stall_detection env ob) = o_cfg ob" "o_ws (stall_detection env ob) = o_ws ob"
  "o_tracker (stall_detection env ob) = o_tracker ob"
  "rs_MaxConcurrentAgents (o_state (stall_detection env ob)) = rs_MaxConcurrentAgents (o_state ob)"
  "rs_ClaudeTotals (o_state (stall_detection env ob)) = rs_ClaudeTotals (o_state ob)"
  by (simp_all add: stall_detection_def Let_def)

lemma reconcile_frame [simp]:
  "o_cfg (reconcile env ob) = o_cfg ob" "o_ws (reconcile env ob) = o_ws ob"
  "o_tracker (reconcile env ob) = o_tracker ob"
  "rs_MaxConcurrentAgents (o_state (reconcile env ob)) = rs_MaxConcurrentAgents (o_state ob)"
  "rs_ClaudeTotals (o_state (reconcile env ob)) = rs_ClaudeTotals (o_state ob)"
  by (simp_all add: reconcile_def state_refresh_def Let_def split: sum.splits)

section \<open>Dispatch and retry moves\<close>

lemma dispatchIssue_out:
  "o_out (dispatchIssue env i a ob) =
     o_out ob @ (if map_has (retries ob) (i_ID i) then [EStopRetry (i_ID i)] else [])
       @ [ESpawn (i_ID i) (runner_factory (o_cfg ob) (o_template ob) (o_ws ob) (o_tracker ob) i) i a]"
  by (simp add: dispatchIssue_def Let_def removeRetryTimer_def)

lemma dispatchIssue_balanced:
  assumes "i_ID i \<notin> map_keys (running ob)" and "i_ID i \<notin> map_keys (retries ob)"
  shows "balanced ob (dispatchIssue env i a ob)"
  using assms by (auto simp: balanced_def bal_defs dispatchIssue_state dispatchIssue_out ind_def)

lemma scheduleRetry_out:
  "o_out (scheduleRetry env iid a ident url msg c ob) =
     o_out ob @ (if map_has (retries ob) iid then [EStopRetry iid] else [])
       @ [EArmRetry iid (retry_delay (o_cfg ob) (if \<not> c \<and> a < 1 then 1 else a) c)]"
  by (simp add: scheduleRetry_def Let_def removeRetryTimer_def)

lemma scheduleRetry_balanced:
  assumes "iid \<notin> map_keys (retries ob)"
  shows "balanced ob (scheduleRetry env iid a ident url msg c ob)"
  using assms by (auto simp: balanced_def bal_defs scheduleRetry_state scheduleRetry_out ind_def)

lemma dispatch_loop_balanced:
  assumes "orch_inv ob" shows "balanced ob (dispatch_loop env issues ob)"
  using assms
proof (induction issues arbitrary: ob)
  case (Cons i issues)
  have "balanced ob (dispatchIssue env i None ob)" if "may_dispatch ob i"
    using that Cons.prems state_invD(3) [OF Cons.prems]
    by (intro dispatchIssue_balanced) (auto simp: may_dispatch_def)
  moreover have "orch_inv (dispatchIssue env i None ob)"
    using Cons.prems by (simp add: dispatchIssue_inv normalizeAttempt_def)
  ultimately show ?case
    using Cons by (auto intro: balanced_trans)
qed simp

lemma onTick_state:
  "o_state (onTick env ob) = o_state (reconcile env ob) \<or>
     (\<exists>issues. ValidateDispatch (o_cfg ob) = None \<and> e_candidates env (o_tracker ob) = Inr issues
        \<and> o_state (onTick env ob)
            = o_state (dispatch_loop env (sortForDispatch issues) (reconcile env ob)))"
  by (auto simp: onTick_def Let_def split: option.splits sum.splits)

lemma onTick_balanced:
  assumes "orch_inv ob" shows "balanced ob (onTick env ob)"
  using reconcile_moves [of env ob] reconcile_inv [OF assms, of env]
  by (auto simp: onTick_def Let_def intro: balanced_trans dispatch_loop_balanced
      split: option.splits sum.splits)

lemma onTick_keys:
  assumes "orch_inv ob"
  shows "map_keys (retries (onTick env ob)) = map_keys (retries ob)
    \<and> map_keys (running ob) \<subseteq> map_keys (running (onTick env ob))"
proof -
  have "map_keys (running (reconcile env ob)) = map_keys (running ob)"
    "retries (reconcile env ob) = retries ob" using reconcile_moves by blast+
  with onTick_state [of env ob] dispatch_loop_picks [OF reconcile_inv [OF assms, of env], of env]
  show ?thesis by auto
qed

section \<open>Refinement\<close>

lemma onTick_claim: "orch_inv ob \<Longrightarrow>
    claim_step TickEvent iid (claim_of (o_state ob) iid) (claim_of (o_state (onTick env ob)) iid)"
  using onTick_keys [of ob env] state_invD(4) [of "o_state ob"] onTick_inv [of ob env]
    state_invD(4) [of "o_state (onTick env ob)"]
  by (auto simp: claim_of_def intro: claim_step.intros)

lemma onAgentUpdate_keys:
  "map_keys (running (onAgentUpdate iid m ob)) = map_keys (running ob)
   \<and> retries (onAgentUpdate iid m ob) = retries ob"
  by (auto simp: onAgentUpdate_def dest: gm.get_SomeD split: option.splits)

lemma onWorkerExit_cases:
  assumes "map_get (running ob) i = Some e"
  shows "map_keys (running (onWorkerExit env i reason err ob)) = map_keys (running ob) - {i}
    \<and> map_keys (retries (onWorkerExit env i reason err ob)) =
        (if re_ReleaseOnExit e then map_keys (retries ob) else insert i (map_keys (retries ob)))"
  using assms by (auto simp: onWorkerExit_def Let_def end_session_def scheduleRetry_state)

lemma onWorkerExit_claim:
  assumes "orch_inv ob"
  shows "claim_step (WorkerExit i reason err) iid (claim_of (o_state ob) iid)
    (claim_of (o_state (onWorkerExit env i reason err ob)) iid)"
proof (cases "map_get (running ob) i")
  case None
  then show ?thesis by (simp add: onWorkerExit_def stay)
next
  case (Some e)
  then have "i \<in> map_keys (running ob)" "i \<notin> map_keys (retries ob)"
    using state_invD(4) [OF assms] by (auto dest: gm.get_SomeD)
  with onWorkerExit_cases [OF Some, of env reason err] show ?thesis
    by (cases "iid = i") (auto simp: claim_of_def claim_step_exit)
qed

lemma onRetryTimer_cases:
  assumes "orch_inv ob" and "map_get (retries ob) i = Some r"
  shows "map_keys (running (onRetryTimer env i ob)) = map_keys (running ob)
        \<and> map_keys (retries (onRetryTimer env i ob)) \<in> {map_keys (retries ob), map_keys (retries ob) - {i}}
    \<or> map_keys (running (onRetryTimer env i ob)) = insert i (map_keys (running ob))
        \<and> map_keys (retries (onRetryTimer env i ob)) = map_keys (retries ob) - {i}"
  using assms(2) gm.get_SomeD [OF assms(2)]
  by (auto simp: onRetryTimer_def Let_def scheduleRetry_state dispatchIssue_state release_claim_def
      dest!: findByID_SomeD split: sum.splits option.splits)

lemma onRetryTimer_claim:
  assumes "orch_inv ob"
  shows "claim_step (RetryTimerFired i) iid (claim_of (o_state ob) iid)
    (claim_of (o_state (onRetryTimer env i ob)) iid)"
proof (cases "map_get (retries ob) i")
  case None
  then show ?thesis by (simp add: onRetryTimer_def stay)
next
  case (Some r)
  then have "i \<in> map_keys (retries ob)" "i \<notin> map_keys (running ob)"
    using state_invD(4) [OF assms] by (auto dest: gm.get_SomeD)
  with onRetryTimer_cases [OF assms Some, of env] show ?thesis
    by (cases "iid = i") (auto simp: claim_of_def claim_step_timer)
qed

lemma handle_claim_step:
  assumes "orch_inv ob"
  shows "claim_step e iid (claim_of (o_state ob) iid) (claim_of (o_state (handle env e ob)) iid)"
proof (cases e)
  case (AgentUpdate i m)
  then show ?thesis
    using onAgentUpdate_keys [of i m ob] by (simp add: claim_of_def stay)
next
  case (ReloadConfig cfg tmpl)
  then show ?thesis
    by (auto simp: onReload_def Let_def claim_of_def stay split: sum.splits)
qed (use assms in \<open>simp_all add: onTick_claim onWorkerExit_claim onRetryTimer_claim stay\<close>)

section \<open>The balance of effects and moves\<close>

lemma onWorkerExit_balance:
  assumes "orch_inv ob" and "map_get (running ob) i = Some e"
  shows "run_bal iid (onWorkerExit env i reason err ob) = run_bal iid ob - ind (iid = i)
    \<and> retry_bal iid (onWorkerExit env i reason err ob) = retry_bal iid ob"
proof -
  have k: "i \<in> map_keys (running ob)" "i \<notin> map_keys (retries ob)"
    using assms state_invD(4) [OF assms(1)] by (auto dest: gm.get_SomeD)
  then show ?thesis
    using assms(2)
    by (auto simp: onWorkerExit_def Let_def bal_defs ind_def end_session_def scheduleRetry_state
        scheduleRetry_out)
qed

lemma onRetryTimer_balance:
  assumes "orch_inv ob" and "map_get (retries ob) i = Some r"
  shows "run_bal iid (onRetryTimer env i ob) = run_bal iid ob
    \<and> retry_bal iid (onRetryTimer env i ob) = retry_bal iid ob - ind (iid = i)"
proof -
  have k: "i \<in> map_keys (retries ob)" "i \<notin> map_keys (running ob)"
    using assms state_invD(4) [OF assms(1)] by (auto dest: gm.get_SomeD)
  then show ?thesis
    using assms(2)
    by (auto simp: onRetryTimer_def Let_def bal_defs ind_def scheduleRetry_state scheduleRetry_out
        dispatchIssue_state dispatchIssue_out release_claim_def
        dest!: findByID_SomeD split: sum.splits option.splits)
qed

definition exits_now :: "event \<Rightarrow> string \<Rightarrow> orch \<Rightarrow> bool" where
  "exits_now e iid ob \<longleftrightarrow> (\<exists>reason err. e = WorkerExit iid reason err) \<and> map_has (running ob) iid"

definition fires_now :: "event \<Rightarrow> string \<Rightarrow> orch \<Rightarrow> bool" where
  "fires_now e iid ob \<longleftrightarrow> e = RetryTimerFired iid \<and> map_has (retries ob) iid"

lemma handle_balance:
  assumes "orch_inv ob"
  shows "run_bal iid (handle env e ob) = run_bal iid ob - ind (exits_now e iid ob)
    \<and> retry_bal iid (handle env e ob) = retry_bal iid ob - ind (fires_now e iid ob)"
proof (cases e)
  case TickEvent
  then show ?thesis
    using onTick_balanced [OF assms, of env]
    by (simp add: balanced_def exits_now_def fires_now_def ind_def)
next
  case (AgentUpdate i m)
  then show ?thesis
    using onAgentUpdate_keys [of i m ob]
    by (auto simp: bal_defs exits_now_def fires_now_def ind_def onAgentUpdate_def
        split: option.splits)
next
  case (WorkerExit i reason err)
  show ?thesis
  proof (cases "map_get (running ob) i")
    case None
    with WorkerExit show ?thesis
      by (auto simp: onWorkerExit_def exits_now_def fires_now_def ind_def gm.in_keys)
  next
    case (Some e')
    with WorkerExit onWorkerExit_balance [OF assms Some, of iid env reason err] show ?thesis
      by (auto simp: exits_now_def fires_now_def ind_def gm.in_keys)
  qed
next
  case (RetryTimerFired i)
  show ?thesis
  proof (cases "map_get (retries ob) i")
    case None
    with RetryTimerFired show ?thesis
      by (auto simp: onRetryTimer_def exits_now_def fires_now_def ind_def gm.in_keys)
  next
    case (Some r)
    with RetryTimerFired onRetryTimer_balance [OF assms Some, of iid env] show ?thesis
      by (auto simp: exits_now_def fires_now_def ind_def gm.in_keys)
  qed
next
  case (ReloadConfig cfg tmpl)
  then show ?thesis
    by (auto simp: onReload_def Let_def bal_defs exits_now_def fires_now_def ind_def scheduleTick_def
        split: sum.splits)
qed (auto simp: bal_defs exits_now_def fires_now_def ind_def scheduleTick_def)

end
