(* ===== verification/System.thy ===== *)
theory System
  imports ClaimMachine
begin

text \<open>
  The orchestrator with what runs beside it: the worker goroutines (one per spawn, each
  sending updates and, last, its exit), the armed retry timers, and the events channel of
  capacity 256 that all of them and the outside world write to and the loop reads in
  order. A step is one of them moving; a send on the full channel waits, as \<^verbatim>\<open>post\<close>
  does. Stopping a timer is taken to have no effect, the worst case (it may have fired).
  A turn of the loop is one whose tracker calls have returned, with the answers in its \<open>env\<close>.
\<close>

section \<open>The step relation\<close>

fun spawned_ids :: "effect list \<Rightarrow> string list" where
  "spawned_ids [] = []"
| "spawned_ids (ESpawn i r iss a # out) = i # spawned_ids out"
| "spawned_ids (_ # out) = spawned_ids out"

fun armed_ids :: "effect list \<Rightarrow> string list" where
  "armed_ids [] = []"
| "armed_ids (EArmRetry i d # out) = i # armed_ids out"
| "armed_ids (_ # out) = armed_ids out"

record sys =
  y_orch :: orch
  y_queue :: "event list"
  y_workers :: "string multiset"
  y_timers :: "string multiset"

definition queue_cap :: nat where "queue_cap = 256"

definition outside_event :: "event \<Rightarrow> bool" where
  "outside_event e = (case e of
     TickEvent \<Rightarrow> True | ReloadConfig _ _ \<Rightarrow> True | SnapshotRequest \<Rightarrow> True
   | RefreshRequest \<Rightarrow> True | _ \<Rightarrow> False)"

text \<open>One turn of the loop: the head of the channel is handled and its effects take place.\<close>

definition process :: "env \<Rightarrow> event \<Rightarrow> event list \<Rightarrow> sys \<Rightarrow> sys" where
  "process env e q s =
     (let ob = handle env e ((y_orch s)\<lparr>o_out := []\<rparr>)
      in \<lparr>y_orch = ob, y_queue = q,
          y_workers = y_workers s + mset (spawned_ids (o_out ob)),
          y_timers = y_timers s + mset (armed_ids (o_out ob))\<rparr>)"

text \<open>\<^verbatim>\<open>post\<close>, when there is room.\<close>

definition post :: "event \<Rightarrow> sys \<Rightarrow> sys" where
  "post e s = s\<lparr>y_queue := y_queue s @ [e]\<rparr>"

inductive sys_step :: "sys \<Rightarrow> sys \<Rightarrow> bool" where
  loop_turn: "y_queue s = e # q \<Longrightarrow> sys_step s (process env e q s)"
| worker_update: "iid \<in># y_workers s \<Longrightarrow> length (y_queue s) < queue_cap \<Longrightarrow>
     sys_step s (post (AgentUpdate iid m) s)"
| worker_exit: "iid \<in># y_workers s \<Longrightarrow> length (y_queue s) < queue_cap \<Longrightarrow>
     (reason = ExitNormal \<longleftrightarrow> err = None) \<Longrightarrow>
     sys_step s (post (WorkerExit iid reason err) (s\<lparr>y_workers := y_workers s - {#iid#}\<rparr>))"
| timer_fires: "iid \<in># y_timers s \<Longrightarrow> length (y_queue s) < queue_cap \<Longrightarrow>
     sys_step s (post (RetryTimerFired iid) (s\<lparr>y_timers := y_timers s - {#iid#}\<rparr>))"
| outside: "outside_event e \<Longrightarrow> length (y_queue s) < queue_cap \<Longrightarrow> sys_step s (post e s)"

inductive reachable :: "sys \<Rightarrow> bool" where
  start: "orch_New cfg tmpl = Inr ob \<Longrightarrow> run_startup env ob = Inr ob' \<Longrightarrow>
     reachable \<lparr>y_orch = ob', y_queue = [], y_workers = {#}, y_timers = {#}\<rparr>"
| step: "reachable s \<Longrightarrow> sys_step s t \<Longrightarrow> reachable t"

section \<open>The invariant\<close>

fun exits_in :: "string \<Rightarrow> event list \<Rightarrow> nat" where
  "exits_in iid [] = 0"
| "exits_in iid (WorkerExit i r e # q) = (if i = iid then Suc (exits_in iid q) else exits_in iid q)"
| "exits_in iid (_ # q) = exits_in iid q"

fun fires_in :: "string \<Rightarrow> event list \<Rightarrow> nat" where
  "fires_in iid [] = 0"
| "fires_in iid (RetryTimerFired i # q) = (if i = iid then Suc (fires_in iid q) else fires_in iid q)"
| "fires_in iid (_ # q) = fires_in iid q"

text \<open>Every queued update is followed by its worker's exit, or the worker still runs.\<close>

fun updates_live :: "string multiset \<Rightarrow> event list \<Rightarrow> bool" where
  "updates_live w [] = True"
| "updates_live w (AgentUpdate i m # q) = (1 \<le> count w i + exits_in i q \<and> updates_live w q)"
| "updates_live w (_ # q) = updates_live w q"

lemma exits_in_append [simp]: "exits_in iid (p @ q) = exits_in iid p + exits_in iid q"
  by (induction iid p rule: exits_in.induct) auto

lemma fires_in_append [simp]: "fires_in iid (p @ q) = fires_in iid p + fires_in iid q"
  by (induction iid p rule: fires_in.induct) auto

lemma count_spawned_ids [simp]: "count (mset (spawned_ids out)) iid = spawns iid out"
  by (induction iid out rule: spawns.induct) auto

lemma count_armed_ids [simp]: "count (mset (armed_ids out)) iid = arms iid out"
  by (induction iid out rule: arms.induct) auto

lemma updates_live_mono:
  "updates_live w q \<Longrightarrow> (\<And>i. count w i + exits_in i p \<le> count w' i + exits_in i p') \<Longrightarrow>
     updates_live w' p' \<Longrightarrow> (\<And>i m. AgentUpdate i m \<notin> set p) \<Longrightarrow>
     (\<And>i. exits_in i p = 0) \<Longrightarrow> updates_live w' (q @ p')"
proof (induction w q rule: updates_live.induct)
  case (2 w i m q)
  have "1 \<le> count w i + exits_in i q" using "2.prems"(1) by simp
  also have "\<dots> \<le> count w' i + exits_in i p' + exits_in i q"
    using "2.prems"(2) [of i] "2.prems"(5) [of i] by simp
  finally show ?case using 2 by simp
qed simp_all

definition sys_inv :: "sys \<Rightarrow> bool" where
  "sys_inv s \<longleftrightarrow>
     orch_inv (y_orch s)
     \<and> (\<forall>iid. int (count (y_workers s) iid + exits_in iid (y_queue s))
               = ind (map_has (running (y_orch s)) iid))
     \<and> (\<forall>iid. int (count (y_timers s) iid + fires_in iid (y_queue s))
               = ind (map_has (retries (y_orch s)) iid))
     \<and> updates_live (y_workers s) (y_queue s)"

lemma ind_le [simp]: "ind b \<le> 1" "0 \<le> ind b" "ind True = 1" "ind False = 0"
  by (simp_all add: ind_def)

lemma sys_inv_start:
  "orch_New cfg tmpl = Inr ob \<Longrightarrow> run_startup env ob = Inr ob' \<Longrightarrow>
     sys_inv \<lparr>y_orch = ob', y_queue = [], y_workers = {#}, y_timers = {#}\<rparr>"
  using startup_inv [of cfg tmpl ob env ob']
  by (auto simp: sys_inv_def orch_New_def run_startup_def startupTerminalCleanup_def
      newRuntimeState_def split: sum.splits option.splits)

lemma sys_inv_process:
  assumes "sys_inv s" and "y_queue s = e # q"
  shows "sys_inv (process env e q s)"
proof -
  let ?ob = "(y_orch s)\<lparr>o_out := []\<rparr>"
  let ?ob' = "handle env e ?ob"
  have inv: "orch_inv ?ob" using assms(1) by (simp add: sys_inv_def)
  note bal = handle_balance [OF inv, of _ env e]
  have w: "int (count (y_workers s) iid + exits_in iid (e # q)) = ind (map_has (running ?ob) iid)"
    and t: "int (count (y_timers s) iid + fires_in iid (e # q)) = ind (map_has (retries ?ob) iid)"
    for iid using assms by (simp_all add: sys_inv_def)
  have ex: "int (exits_in iid (e # q)) - ind (exits_now e iid ?ob) = int (exits_in iid q)" for iid
    using w [of iid] by (cases e) (auto simp: exits_now_def ind_def split: if_splits)
  have fi: "int (fires_in iid (e # q)) - ind (fires_now e iid ?ob) = int (fires_in iid q)" for iid
    using t [of iid] by (cases e) (auto simp: fires_now_def ind_def split: if_splits)
  have workers: "int (count (y_workers s) iid + spawns iid (o_out ?ob') + exits_in iid q)
      = ind (map_has (running ?ob') iid)" for iid
    using bal [of iid] w [of iid] ex [of iid] by (simp add: run_bal_def)
  have timers: "int (count (y_timers s) iid + arms iid (o_out ?ob') + fires_in iid q)
      = ind (map_has (retries ?ob') iid)" for iid
    using bal [of iid] t [of iid] fi [of iid] by (simp add: retry_bal_def)
  have "updates_live (y_workers s) q"
    using assms by (cases e) (simp_all add: sys_inv_def)
  then have "updates_live (y_workers s + mset (spawned_ids (o_out ?ob'))) (q @ [])"
    by (rule updates_live_mono [where p = "[]"]) auto
  then show ?thesis
    using handle_inv [OF inv] workers timers by (simp add: sys_inv_def process_def Let_def)
qed

lemma sys_inv_update:
  assumes "sys_inv s" and "iid \<in># y_workers s"
  shows "sys_inv (post (AgentUpdate iid m) s)"
proof -
  have "updates_live (y_workers s) (y_queue s @ [AgentUpdate iid m])"
    using assms by (intro updates_live_mono [where p = "[]"]) (auto simp: sys_inv_def)
  with assms show ?thesis by (simp add: sys_inv_def post_def)
qed

lemma sys_inv_exit:
  assumes "sys_inv s" and "iid \<in># y_workers s"
  shows "sys_inv (post (WorkerExit iid r e) (s\<lparr>y_workers := y_workers s - {#iid#}\<rparr>))"
proof -
  have c: "0 < count (y_workers s) iid" using assms(2) by simp
  have "updates_live (y_workers s - {#iid#}) (y_queue s @ [WorkerExit iid r e])"
    using assms by (intro updates_live_mono [where p = "[]"]) (auto simp: sys_inv_def)
  with assms c show ?thesis by (auto simp: sys_inv_def post_def)
qed

lemma sys_inv_timer:
  assumes "sys_inv s" and "iid \<in># y_timers s"
  shows "sys_inv (post (RetryTimerFired iid) (s\<lparr>y_timers := y_timers s - {#iid#}\<rparr>))"
proof -
  have c: "0 < count (y_timers s) iid" using assms(2) by simp
  have "updates_live (y_workers s) (y_queue s @ [RetryTimerFired iid])"
    using assms by (intro updates_live_mono [where p = "[]"]) (auto simp: sys_inv_def)
  with assms c show ?thesis by (auto simp: sys_inv_def post_def)
qed

lemma sys_inv_outside:
  assumes "sys_inv s" and "outside_event e"
  shows "sys_inv (post e s)"
proof -
  have "updates_live (y_workers s) (y_queue s @ [e])"
    using assms by (intro updates_live_mono [where p = "[]"])
      (auto simp: sys_inv_def outside_event_def split: event.splits)
  with assms show ?thesis
    by (cases e) (auto simp: sys_inv_def post_def outside_event_def)
qed

lemma sys_inv_step: "sys_step s t \<Longrightarrow> sys_inv s \<Longrightarrow> sys_inv t"
  by (induction rule: sys_step.induct)
    (auto intro: sys_inv_process sys_inv_update sys_inv_exit sys_inv_timer sys_inv_outside)

lemma reachable_inv: "reachable s \<Longrightarrow> sys_inv s"
  by (induction rule: reachable.induct) (auto intro: sys_inv_start sys_inv_step)

lemma ind_nat: "int n = ind b \<Longrightarrow> n = (if b then 1 else 0)"
  by (cases b) (simp_all add: ind_def)

lemma sys_inv_workers:
  "sys_inv s \<Longrightarrow> count (y_workers s) iid + exits_in iid (y_queue s)
     = (if map_has (running (y_orch s)) iid then 1 else 0)"
  unfolding sys_inv_def by (intro ind_nat) blast

lemma sys_inv_timers:
  "sys_inv s \<Longrightarrow> count (y_timers s) iid + fires_in iid (y_queue s)
     = (if map_has (retries (y_orch s)) iid then 1 else 0)"
  unfolding sys_inv_def by (intro ind_nat) blast

end
