(* ===== verification/Samples.thy ===== *)
theory Samples
  imports Handlers
begin

text \<open>
  A small concrete orchestrator (two slots, one of them for \<^verbatim>\<open>Todo\<close> issues), its tracker
  and its clock, and the values its operations take on it: the inputs of the evaluated
  instances of the theorems.
\<close>

definition ex_cfg :: config where
  "ex_cfg =
     \<lparr>c_Tracker = \<lparr>tc_Kind = ''linear'', tc_Endpoint = ''https://t'', tc_APIKey = ''k'',
        tc_ProjectSlug = ''p'', tc_RequiredLabels = [''ai''], tc_ActiveStates = [''todo'', ''doing''],
        tc_TerminalStates = [''done''], tc_Assignee = []\<rparr>,
      c_PollingIntervalMs = 30000, c_WorkspaceRoot = ''/w'',
      c_Hooks = \<lparr>hk_AfterCreate = [], hk_BeforeRun = [], hk_AfterRun = [], hk_BeforeRemove = [],
        hk_TimeoutMs = 60000\<rparr>,
      c_Agent = \<lparr>ac_MaxConcurrent = 2, ac_MaxTurns = 20, ac_MaxRetryBackoffMs = 300000,
        ac_MaxConcurrentByState = [(''todo'', 1)]\<rparr>,
      c_Claude = \<lparr>cc_Command = ''claude'', cc_Model = [], cc_ReasoningEffort = [],
        cc_ResumeAcrossTurns = True, cc_TurnTimeoutMs = 3600000, cc_ReadTimeoutMs = 5000,
        cc_StallTimeoutMs = 300000\<rparr>,
      c_Server = \<lparr>sv_Port = 0, sv_PortSet = False\<rparr>, c_States = [], c_workflowDir = ''/d''\<rparr>"

definition ex_issue :: "string \<Rightarrow> string \<Rightarrow> int \<Rightarrow> issue" where
  "ex_issue iid st prio = zero_issue\<lparr>i_ID := iid, i_Identifier := ''X-'' @ iid, i_Title := ''t'',
     i_State := st, i_Priority := Some prio, i_Labels := [''ai'']\<rparr>"

lemma ex_issue_fields [simp]:
  "i_ID (ex_issue iid st n) = iid" "i_Identifier (ex_issue iid st n) = ''X-'' @ iid"
  "i_State (ex_issue iid st n) = st" "i_Priority (ex_issue iid st n) = Some n"
  "i_CreatedAt (ex_issue iid st n) = None"
  by (simp_all add: ex_issue_def zero_issue_def)

definition ex_issues :: "issue list" where
  "ex_issues = [ex_issue ''a'' ''todo'' 3, ex_issue ''b'' ''todo'' 1, ex_issue ''c'' ''doing'' 2,
     ex_issue ''d'' ''doing'' 4]"

definition ex_env :: env where
  "ex_env = \<lparr>e_now = 1000000000, e_candidates = (\<lambda>_. Inr ex_issues), e_by_states = (\<lambda>_ _. Inr []),
     e_by_ids = (\<lambda>_ _. Inr []), e_notifier = False\<rparr>"

definition ex_tracker :: linear_client where
  "ex_tracker = \<lparr>lc_endpoint = ''https://t'', lc_apiKey = ''k'', lc_projectSlug = ''p'',
     lc_activeStates = [''todo'', ''doing''], lc_pageSize = 50\<rparr>"

definition ex_orch :: orch where
  "ex_orch = \<lparr>o_cfg = ex_cfg, o_template = ''work'', o_tracker = ex_tracker,
     o_ws = workspace_factory ex_cfg, o_state = newRuntimeState 30000 2, o_out = []\<rparr>"

definition ex_event :: agent_event where
  "ex_event = \<lparr>ev_Event = ''notification'', ev_Timestamp = 1000000001, ev_AgentPID = None,
     ev_SessionID = ''s1'', ev_TurnID = ''2'', ev_Message = ''hello'', ev_Detail = [],
     ev_Usage = Some \<lparr>u_InputTokens = 10, u_OutputTokens = 5, u_TotalTokens = 15\<rparr>,
     ev_StepUsage = None, ev_RateLimits = VNil\<rparr>"

lemma ex_orch_New: "orch_New ex_cfg ''work'' = Inr ex_orch"
  by (simp add: orch_New_def tracker_factory_def linear_New_def ex_cfg_def ex_orch_def ex_tracker_def
      DefaultPageSize_def Let_def)

lemma ex_valid [simp]: "ValidateDispatch ex_cfg = None"
  by (simp add: ValidateDispatch_def ex_cfg_def Let_def str_eval)

lemma ex_startup: "run_startup ex_env ex_orch = Inr (scheduleTick 0 ex_orch)"
  by (simp add: run_startup_def startupTerminalCleanup_def ex_env_def ex_orch_def)

lemma ex_eligible [simp]:
  "isEligible ex_cfg (ex_issue iid ''todo'' n) = (iid \<noteq> [])"
  "isEligible ex_cfg (ex_issue iid ''doing'' n) = (iid \<noteq> [])"
  by (simp_all add: isEligible_def isActiveState_def isTerminalState_def containsNormalized_def
      matchesAssignee_def hasRequiredLabels_def ex_cfg_def ex_issue_def zero_issue_def NormalizeState_def
      Let_def str_eval)

end
