(* ===== verification/Dispatch.thy ===== *)
theory Dispatch
  imports System Samples
begin

text \<open>
  The poll tick as a whole: what it dispatches, in which order, within which limits, and
  the state it leaves. Everything is reduced to \<open>picks\<close>, the selection specified in
  theory \<^verbatim>\<open>Scheduling\<close>, taken after reconciliation on the sorted candidates.
\<close>

section \<open>The issues a tick dispatches\<close>

definition tick_candidates :: "env \<Rightarrow> orch \<Rightarrow> issue list" where
  "tick_candidates env ob =
     (if ValidateDispatch (o_cfg ob) \<noteq> None then []
      else case e_candidates env (o_tracker ob) of Inl _ \<Rightarrow> [] | Inr issues \<Rightarrow> issues)"

definition tick_picks :: "env \<Rightarrow> orch \<Rightarrow> issue list" where
  "tick_picks env ob = picks (reconcile env ob) (sortForDispatch (tick_candidates env ob))"

lemma picks_Nil [simp]: "picks ob [] = []"
  by (simp add: picks_def)

lemma sortForDispatch_Nil [simp]: "sortForDispatch [] = []"
  by (simp add: sortForDispatch_def)

lemma sortForDispatch_set [simp]: "set (sortForDispatch is) = set is"
  by (simp add: sortForDispatch_def)

lemma onTick_running:
  assumes "orch_inv ob"
  shows "running (onTick env ob) =
      running (reconcile env ob) @ map (\<lambda>i. (i_ID i, new_entry env (o_ws ob) i None)) (tick_picks env ob)"
    and "claimed (onTick env ob) = claimed ob \<union> i_ID ` set (tick_picks env ob)"
    and "retries (onTick env ob) = retries ob"
  using dispatch_loop_picks [OF reconcile_inv [OF assms, of env], of env] reconcile_moves [of env ob]
  by (auto simp: onTick_def Let_def tick_picks_def tick_candidates_def split: option.splits sum.splits)

fun spawned :: "effect list \<Rightarrow> (issue \<times> int option) list" where
  "spawned [] = []"
| "spawned (ESpawn i r iss a # out) = (iss, a) # spawned out"
| "spawned (_ # out) = spawned out"

lemma spawned_append [simp]: "spawned (xs @ ys) = spawned xs @ spawned ys"
  by (induction xs rule: spawned.induct) auto

lemma spawned_cancels [simp]: "spawned (map (\<lambda>p. ECancel (f p)) xs) = []"
  by (induction xs) auto

lemma spawned_spawns [simp]:
  "spawned (map (\<lambda>i. ESpawn (f i) (g i) i None) is) = map (\<lambda>i. (i, None)) is"
  by (induction "is") auto

lemma spawned_out_simps [simp]:
  "spawned (o_out (notify env ob)) = spawned (o_out ob)"
  "spawned (o_out (scheduleTick d ob)) = spawned (o_out ob)"
  "spawned (o_out (terminateRunning i c r ob)) = spawned (o_out ob)"
  by (simp_all add: notify_def scheduleTick_def terminateRunning_def split: option.splits)

lemma spawned_refresh_issue [simp]: "spawned (o_out (refresh_issue i ob)) = spawned (o_out ob)"
  by (simp add: refresh_issue_def split: option.splits)

lemma spawned_refresh_all [simp]: "spawned (o_out (fold refresh_issue is ob)) = spawned (o_out ob)"
  by (induction "is" arbitrary: ob) simp_all

lemma spawned_reconcile [simp]: "spawned (o_out (reconcile env ob)) = spawned (o_out ob)"
  by (simp add: reconcile_def state_refresh_def stall_detection_def Let_def split: sum.splits)

lemma onTick_spawned:
  assumes "orch_inv ob"
  shows "spawned (o_out (onTick env ob)) = spawned (o_out ob) @ map (\<lambda>i. (i, None)) (tick_picks env ob)"
  using dispatch_loop_picks [OF reconcile_inv [OF assms, of env], of env]
  by (auto simp: onTick_def Let_def tick_picks_def tick_candidates_def split: option.splits sum.splits)

lemma running_states_onTick:
  assumes "orch_inv ob"
  shows "running_states (onTick env ob)
    = running_states (reconcile env ob) @ map state_of (tick_picks env ob)"
  using onTick_running(1) [OF assms, of env] by (simp add: running_states_def new_entry_def comp_def)

lemma tick_picks_facts:
  "subseq (tick_picks env ob) (sortForDispatch (tick_candidates env ob))"
  "distinct (map i_ID (tick_picks env ob))"
  "i \<in> set (tick_picks env ob) \<Longrightarrow> i_ID i \<notin> claimed ob \<and> isEligible (o_cfg ob) i"
  using select_subseq select_ids select_eligible reconcile_moves [of env ob]
  by (fastforce simp: tick_picks_def picks_def)+

text \<open>The sample: two of the four candidates fit, the most urgent of each state.\<close>

lemma ex_sorted: "sortForDispatch ex_issues =
    [ex_issue ''b'' ''todo'' 1, ex_issue ''c'' ''doing'' 2, ex_issue ''a'' ''todo'' 3, ex_issue ''d'' ''doing'' 4]"
  by (simp add: sortForDispatch_def ex_issues_def dispatch_less_def priorityKey_def)

lemma ex_reconcile [simp]: "reconcile ex_env ex_orch = ex_orch"
  by (simp add: reconcile_def stall_detection_def state_refresh_def ex_orch_def newRuntimeState_def
      map_vals_def Let_def)

lemma ex_inv: "orch_inv ex_orch"
  by (simp add: ex_orch_def state_inv_new)

lemma ex_state_of [simp]:
  "state_of (ex_issue iid ''todo'' n) = ''todo''" "state_of (ex_issue iid ''doing'' n) = ''doing''"
  by (simp_all add: state_of_def NormalizeState_def str_eval)

lemma ex_limits [simp]: "limit_of ex_cfg ''todo'' = 1" "limit_of ex_cfg ''doing'' = 2"
  by (simp_all add: limit_of_def ex_cfg_def map_get_def)

lemma ex_tick_candidates: "tick_candidates ex_env ex_orch = ex_issues"
  by (simp add: tick_candidates_def ex_orch_def ex_env_def)

lemma ex_select:
  "select ex_cfg 2 {} [] [ex_issue ''b'' ''todo'' 1, ex_issue ''c'' ''doing'' 2,
      ex_issue ''a'' ''todo'' 3, ex_issue ''d'' ''doing'' 4]
    = [ex_issue ''b'' ''todo'' 1, ex_issue ''c'' ''doing'' 2]"
proof -
  have "selectable ex_cfg {} [] (ex_issue ''b'' ''todo'' 1)"
    "selectable ex_cfg {''b''} [''todo''] (ex_issue ''c'' ''doing'' 2)"
    by (simp_all add: selectable_def)
  then show ?thesis by simp
qed

lemma ex_tick_picks: "tick_picks ex_env ex_orch = [ex_issue ''b'' ''todo'' 1, ex_issue ''c'' ''doing'' 2]"
proof -
  have "running_states ex_orch = []" "claimed ex_orch = {}" "o_cfg ex_orch = ex_cfg"
    "rs_MaxConcurrentAgents (o_state ex_orch) = 2"
    by (simp_all add: running_states_def ex_orch_def newRuntimeState_def)
  then show ?thesis
    using ex_select by (simp only: tick_picks_def ex_tick_candidates ex_sorted picks_def ex_reconcile)
qed

section \<open>Urgency\<close>

text \<open>
  Once a state's limit is reached nothing of that state is selected any more, so what was
  selected of a state stands before everything that was passed over in it.
\<close>

lemma select_full:
  "limit_of cfg n \<le> int (count_list sts n) \<Longrightarrow> j \<in> set (select cfg mx cl sts is) \<Longrightarrow> state_of j \<noteq> n"
  by (induction cfg mx cl sts "is" rule: select.induct) (auto simp: selectable_def split: if_splits)

lemma select_before:
  assumes "i \<in> set is" and "isEligible cfg i" and "i_ID i \<notin> cl"
    and "i_ID i \<notin> i_ID ` set (select cfg mx cl sts is)"
    and "j \<in> set (select cfg mx cl sts is)" and "state_of j = state_of i"
  shows "j \<in> set (takeWhile (\<lambda>x. x \<noteq> i) is)"
  using assms
proof (induction cfg mx cl sts "is" rule: select.induct)
  case (2 cfg mx cl sts k "is")
  consider "mx \<le> int (length sts)" | "\<not> mx \<le> int (length sts)" "selectable cfg cl sts k"
    | "\<not> mx \<le> int (length sts)" "\<not> selectable cfg cl sts k" by blast
  then show ?case
  proof cases
    case 2
    with "2.prems" have "k \<noteq> i" by auto
    with 2 "2.prems" "2.IH"(1) show ?thesis by auto
  next
    case 3
    show ?thesis
    proof (cases "k = i")
      case True
      with 3 "2.prems" have "limit_of cfg (state_of i) \<le> int (count_list sts (state_of i))"
        by (auto simp: selectable_def)
      with 3 "2.prems" select_full show ?thesis by fastforce
    next
      case False
      with 3 "2.prems" "2.IH"(2) show ?thesis by auto
    qed
  qed (use "2.prems" in simp)
qed simp

lemma sorted_takeWhile_le:
  assumes "sorted (map f xs)" and "i \<in> set xs" and "j \<in> set (takeWhile (\<lambda>x. x \<noteq> i) xs)"
  shows "f j \<le> f i"
  using assms by (induction xs) (auto split: if_splits)

lemma sorted_sortForDispatch: "sorted (map dispatch_key_of (sortForDispatch is))"
  by (simp add: sortForDispatch_def dorder.sorted_slice_stable)

lemma claimed_reconcile: "claimed (reconcile env ob) = claimed ob"
  using reconcile_moves by blast

lemma tick_picks_select:
  "tick_picks env ob = select (o_cfg ob) (rs_MaxConcurrentAgents (o_state ob)) (claimed ob)
     (running_states (reconcile env ob)) (sortForDispatch (tick_candidates env ob))"
  by (simp add: tick_picks_def picks_def claimed_reconcile)

lemma length_running_states [simp]: "length (running_states ob) = length (running ob)"
  by (simp add: running_states_def)

lemma reconcile_length: "orch_inv ob \<Longrightarrow> length (running (reconcile env ob)) = length (running ob)"
  using reconcile_moves [of env ob] reconcile_inv [of ob env]
  by (metis map_wf_card state_invD(1))

section \<open>The properties of a tick\<close>

text \<open>
  C11: A poll tick starts workers exactly for a duplicate-free selection of the candidates,
  in the dispatch order, each eligible and not claimed before, each on its first attempt,
  and claims exactly these; retries are left alone.
\<close>

theorem tick_dispatches:
  assumes "orch_inv ob"
  shows "\<exists>ds. spawned (o_out (onTick env ob)) = spawned (o_out ob) @ map (\<lambda>i. (i, None)) ds
    \<and> subseq ds (sortForDispatch (tick_candidates env ob)) \<and> distinct (map i_ID ds)
    \<and> (\<forall>i \<in> set ds. i_ID i \<notin> claimed ob \<and> isEligible (o_cfg ob) i)
    \<and> claimed (onTick env ob) = claimed ob \<union> i_ID ` set ds \<and> retries (onTick env ob) = retries ob"
  using onTick_spawned [OF assms] onTick_running [OF assms] tick_picks_facts by blast

theorem tick_dispatches_witness:
  "\<exists>ds. spawned (o_out (onTick ex_env ex_orch)) = spawned (o_out ex_orch) @ map (\<lambda>i. (i, None)) ds
    \<and> subseq ds (sortForDispatch (tick_candidates ex_env ex_orch)) \<and> distinct (map i_ID ds)
    \<and> (\<forall>i \<in> set ds. i_ID i \<notin> claimed ex_orch \<and> isEligible (o_cfg ex_orch) i)
    \<and> claimed (onTick ex_env ex_orch) = claimed ex_orch \<union> i_ID ` set ds
    \<and> retries (onTick ex_env ex_orch) = retries ex_orch"
  by (rule tick_dispatches [OF ex_inv])

text \<open>
  A tick never takes the number of running workers above the global limit, nor the
  number of those in one tracker state above the limit of that state; where a limit is
  already exceeded (lowered by a reload, or by issues that moved) the tick adds nothing.
\<close>

theorem tick_respects_limits:
  assumes "orch_inv ob"
  shows "int (length (running (onTick env ob)))
      \<le> max (int (length (running ob))) (rs_MaxConcurrentAgents (o_state ob))
    \<and> runningCountByState (o_state (onTick env ob)) st
      \<le> max (runningCountByState (o_state (reconcile env ob)) st) (PerStateLimit (o_cfg ob) st)"
proof
  have len: "length (running (onTick env ob)) = length (running ob) + length (tick_picks env ob)"
    using onTick_running(1) [OF assms, of env] reconcile_length [OF assms, of env] by simp
  show "int (length (running (onTick env ob)))
      \<le> max (int (length (running ob))) (rs_MaxConcurrentAgents (o_state ob))"
    using select_global [of "running_states (reconcile env ob)" "o_cfg ob"
        "rs_MaxConcurrentAgents (o_state ob)" "claimed ob" "sortForDispatch (tick_candidates env ob)"]
    by (simp add: len tick_picks_select reconcile_length [OF assms])
  show "runningCountByState (o_state (onTick env ob)) st
      \<le> max (runningCountByState (o_state (reconcile env ob)) st) (PerStateLimit (o_cfg ob) st)"
    unfolding runningCountByState_count PerStateLimit_limit_of running_states_onTick [OF assms]
      tick_picks_select by (rule select_per_state)
qed

theorem tick_respects_limits_witness:
  "int (length (running (onTick ex_env ex_orch)))
      \<le> max (int (length (running ex_orch))) (rs_MaxConcurrentAgents (o_state ex_orch))
    \<and> runningCountByState (o_state (onTick ex_env ex_orch)) ''Todo''
      \<le> max (runningCountByState (o_state (reconcile ex_env ex_orch)) ''Todo'')
          (PerStateLimit (o_cfg ex_orch) ''Todo'')"
  by (rule tick_respects_limits [OF ex_inv])

text \<open>
  C12: A tick leaves no work lying: an eligible, unclaimed candidate that is not claimed
  after the tick was held back by the global limit or by the limit of its state, now
  reached; and every issue of its state that was dispatched precedes it in the order.
\<close>

theorem tick_leaves_only_blocked:
  assumes "orch_inv ob" and "i \<in> set (tick_candidates env ob)" and "isEligible (o_cfg ob) i"
    and "i_ID i \<notin> claimed (onTick env ob)"
  shows "(rs_MaxConcurrentAgents (o_state ob) \<le> int (length (running (onTick env ob)))
        \<or> PerStateLimit (o_cfg ob) (i_State i)
            \<le> runningCountByState (o_state (onTick env ob)) (i_State i))
    \<and> (\<forall>j. (j, None) \<in> set (drop (length (spawned (o_out ob))) (spawned (o_out (onTick env ob))))
          \<and> NormalizeState (i_State j) = NormalizeState (i_State i)
        \<longrightarrow> dispatch_key_of j \<le> dispatch_key_of i)"
proof
  let ?cs = "sortForDispatch (tick_candidates env ob)"
  let ?sts = "running_states (reconcile env ob)"
  have i: "i \<in> set ?cs" "i_ID i \<notin> claimed ob" "i_ID i \<notin> i_ID ` set (tick_picks env ob)"
    using assms onTick_running(2) [OF assms(1), of env] by auto
  note sel = i(3) [unfolded tick_picks_select]
  have "rs_MaxConcurrentAgents (o_state ob) \<le> int (length (running_states (onTick env ob)))
      \<or> limit_of (o_cfg ob) (state_of i) \<le> int (count_list (running_states (onTick env ob)) (state_of i))"
    unfolding running_states_onTick [OF assms(1)] tick_picks_select
    using select_maximal [OF i(1) assms(3) i(2) sel] by (simp add: Let_def)
  then show "rs_MaxConcurrentAgents (o_state ob) \<le> int (length (running (onTick env ob)))
        \<or> PerStateLimit (o_cfg ob) (i_State i)
            \<le> runningCountByState (o_state (onTick env ob)) (i_State i)"
    by (simp add: runningCountByState_count PerStateLimit_limit_of state_of_def)
  have "dispatch_key_of j \<le> dispatch_key_of i"
    if "j \<in> set (tick_picks env ob)" "state_of j = state_of i" for j
    using select_before [OF i(1) assms(3) i(2) sel _ that(2)] that(1) i(1)
      sorted_takeWhile_le [OF sorted_sortForDispatch] by (simp add: tick_picks_select)
  then show "\<forall>j. (j, None) \<in> set (drop (length (spawned (o_out ob))) (spawned (o_out (onTick env ob))))
          \<and> NormalizeState (i_State j) = NormalizeState (i_State i)
        \<longrightarrow> dispatch_key_of j \<le> dispatch_key_of i"
    by (auto simp: onTick_spawned [OF assms(1)] state_of_def)
qed

lemma ex_tick_claimed: "claimed (onTick ex_env ex_orch) = {''b'', ''c''}"
  using onTick_running(2) [OF ex_inv, of ex_env]
  by (simp add: ex_tick_picks) (simp add: ex_orch_def newRuntimeState_def)

theorem tick_leaves_only_blocked_witness:
  "rs_MaxConcurrentAgents (o_state ex_orch) \<le> int (length (running (onTick ex_env ex_orch)))
   \<or> PerStateLimit (o_cfg ex_orch) ''todo'' \<le> runningCountByState (o_state (onTick ex_env ex_orch)) ''todo''"
proof -
  have "ex_issue ''a'' ''todo'' 3 \<in> set (tick_candidates ex_env ex_orch)"
    by (simp add: ex_tick_candidates ex_issues_def)
  moreover have "isEligible (o_cfg ex_orch) (ex_issue ''a'' ''todo'' 3)"
    by (simp add: ex_orch_def)
  moreover have "i_ID (ex_issue ''a'' ''todo'' 3) \<notin> claimed (onTick ex_env ex_orch)"
    by (simp add: ex_tick_claimed)
  ultimately show ?thesis using tick_leaves_only_blocked [OF ex_inv] by fastforce
qed

text \<open>
  Candidates are dispatched by priority, then age, then identifier: sorting keeps the
  issues, orders them by that key, and keeps the tracker's order between equal keys.
\<close>

theorem sortForDispatch_correct:
  "mset (sortForDispatch is) = mset is \<and> sorted (map dispatch_key_of (sortForDispatch is))
    \<and> filter (\<lambda>i. dispatch_key_of i = k) (sortForDispatch is) = filter (\<lambda>i. dispatch_key_of i = k) is"
  by (simp add: sortForDispatch_def dorder.sorted_slice_stable dorder.slice_stable_stable)

text \<open>
  The tracker's priority 0 means "none". It is an integer like the others and the smallest of
  them, so an issue without priority goes before the urgent ones.
\<close>

lemma no_priority_goes_first:
  "i_Priority a = Some 0 \<Longrightarrow> i_Priority b = Some n \<Longrightarrow> 0 < n \<Longrightarrow> dispatch_less a b \<and> \<not> dispatch_less b a"
  by (simp add: dispatch_less_def priorityKey_def Let_def)

text \<open>\<^verbatim>\<open>UnixNano\<close> wraps around in 2262: an issue created later goes before those of today.\<close>

lemma late_timestamp_goes_first:
  "i_Priority a = i_Priority b \<Longrightarrow> i_CreatedAt a = Some (2 ^ 63) \<Longrightarrow> i_CreatedAt b = Some 0 \<Longrightarrow> dispatch_less a b"
  by (simp add: dispatch_less_def createdKey_def wrap64_def Let_def)

end
