(* ===== verification/Lifecycle.thy ===== *)
theory Lifecycle
  imports Dispatch
begin

text \<open>
  What the other handlers do to one issue: the outcome of a worker exit and of a retry
  timer, the backoff between attempts, what reconciliation makes of a running entry, and
  reload, startup and shutdown.
\<close>

section \<open>A running and a waiting sample\<close>

definition ex_entry :: running_entry where
  "ex_entry = new_entry ex_env (o_ws ex_orch) (ex_issue ''b'' ''todo'' 1) None"

definition ex_ticked :: orch where "ex_ticked = onTick ex_env ex_orch"

definition ex_waiting :: orch where
  "ex_waiting = onWorkerExit ex_env ''b'' ExitAbnormal (Some (PlainErr ''boom'')) ex_ticked"

lemma ex_running [simp]: "map_get (running ex_ticked) ''b'' = Some ex_entry"
  using onTick_running(1) [OF ex_inv, of ex_env]
  by (simp add: ex_ticked_def ex_tick_picks) (simp add: ex_entry_def ex_orch_def newRuntimeState_def map_get_def)

lemma ex_ticked_inv: "orch_inv ex_ticked"
  unfolding ex_ticked_def by (rule onTick_inv [OF ex_inv])

lemma ex_waiting_inv: "orch_inv ex_waiting"
  unfolding ex_waiting_def by (rule onWorkerExit_inv [OF ex_ticked_inv])

lemma ex_entry_flags [simp]:
  "re_ReleaseOnExit ex_entry = False" "re_CleanupOnExit ex_entry = False"
  "re_RetryAttempt ex_entry = 0" "re_Identifier ex_entry = ''X-b''" "re_Terminating ex_entry = False"
  "re_StartedAt ex_entry = 1000000000" "re_Issue ex_entry = ex_issue ''b'' ''todo'' 1"
  "re_Session ex_entry = zero_session"
  by (simp_all add: ex_entry_def new_entry_def normalizeAttempt_def ex_env_def)

lemma ex_ticked_cfg [simp]: "o_cfg ex_ticked = ex_cfg" "o_tracker ex_ticked = ex_tracker"
  by (simp_all add: ex_ticked_def onTick_def Let_def ex_orch_def split: sum.splits option.splits)

lemma ex_waiting_retry:
  "map_get (retries ex_waiting) ''b'' = Some (retry_record ex_env ex_cfg ''b'' 1 ''X-b''
     (i_URL (ex_issue ''b'' ''todo'' 1)) (Some ''worker exited: boom'') False)"
  by (simp add: ex_waiting_def onWorkerExit_def Let_def scheduleRetry_state exit_message_def)

section \<open>Backoff\<close>

lemma backoff_ms_min: "backoff_ms cap a = min cap (10000 * 2 ^ nat (a - 1))"
  by (simp add: backoff_ms_def Let_def min_def)

lemma backoff_ms_mono: "a \<le> b \<Longrightarrow> backoff_ms cap a \<le> backoff_ms cap b"
  by (auto simp: backoff_ms_min min_def intro: order_trans [of _ "10000 * 2 ^ nat (a - 1)"]
      intro!: power_increasing)

lemma backoff_ms_range: "0 \<le> cap \<Longrightarrow> 0 \<le> backoff_ms cap a \<and> backoff_ms cap a \<le> cap"
  by (simp add: backoff_ms_min)

lemma retry_delay_exact:
  assumes "0 \<le> ac_MaxRetryBackoffMs (c_Agent cfg)" and "ac_MaxRetryBackoffMs (c_Agent cfg) \<le> 9223372036854"
  shows "retry_delay cfg a False = backoff_ms (ac_MaxRetryBackoffMs (c_Agent cfg)) a * 1000000"
  using backoff_ms_range [OF assms(1), of a] assms(2)
  by (simp add: retry_delay_def) (rule duration_ms_exact; simp)

text \<open>
  C16: The delay before a retry of a failed run doubles from ten seconds on, never
  decreases with the attempt and never exceeds the configured maximum (one that fits a
  duration); the continuation after a normal exit comes after one second.
\<close>

theorem retry_backoff:
  assumes "1 \<le> a" and "a \<le> b" and "0 \<le> ac_MaxRetryBackoffMs (c_Agent cfg)"
    and "ac_MaxRetryBackoffMs (c_Agent cfg) \<le> 9223372036854"
  shows "retry_delay cfg a False \<le> retry_delay cfg b False
    \<and> 0 \<le> retry_delay cfg a False
    \<and> retry_delay cfg b False \<le> ac_MaxRetryBackoffMs (c_Agent cfg) * 1000000
    \<and> (10000 * 2 ^ nat (a - 1) \<le> ac_MaxRetryBackoffMs (c_Agent cfg) \<longrightarrow>
         retry_delay cfg a False = 10000000000 * 2 ^ nat (a - 1))
    \<and> retry_delay cfg a True = 1000000000"
  using backoff_ms_mono [OF assms(2)] backoff_ms_range [OF assms(3)]
  by (auto simp: retry_delay_exact [OF assms(3,4)]) (auto simp: backoff_ms_min retry_delay_def)

theorem retry_backoff_witness:
  "retry_delay ex_cfg 2 False = 20000000000 \<and> retry_delay ex_cfg 9 False \<le> 300000000000"
  using retry_backoff [of 2 9 ex_cfg] by (simp add: ex_cfg_def)

text \<open>Nothing keeps the configured maximum positive; below zero every failed run is retried at once.\<close>

lemma negative_maximum_retries_at_once:
  assumes "ac_MaxRetryBackoffMs (c_Agent cfg) < 0" and "- 9223372036854 \<le> ac_MaxRetryBackoffMs (c_Agent cfg)"
  shows "retry_delay cfg a False < 0"
proof -
  have "ac_MaxRetryBackoffMs (c_Agent cfg) < 10000 * 2 ^ nat (a - 1)" by (rule less_trans [OF assms(1)]) simp
  then have "backoff_ms (ac_MaxRetryBackoffMs (c_Agent cfg)) a = ac_MaxRetryBackoffMs (c_Agent cfg)"
    by (simp add: backoff_ms_def Let_def)
  then show ?thesis
    using assms by (simp add: retry_delay_def duration_ms_def wrap64_id in_int64_def min_int64_def max_int64_def)
qed

section \<open>Worker exits\<close>

lemma onWorkerExit_out:
  assumes "map_get (running ob) iid = Some e"
  shows "(ECleanup ident \<in> set (drop (length (o_out ob)) (o_out (onWorkerExit env iid reason err ob))))
    = (re_CleanupOnExit e \<and> ident = re_Identifier e)"
  using assms by (auto simp: onWorkerExit_def Let_def notify_def scheduleRetry_out)

text \<open>
  C13: When a worker ends, its run time is added to the totals and its entry is removed. An
  entry marked for release by reconciliation gives up the claim, every other one waits for
  a retry: after a normal exit as attempt 1 without error, after a failure as the next
  attempt with the error. The workspace is removed only where reconciliation asked for it.
\<close>

theorem worker_exit_outcome:
  assumes "orch_inv ob" and "map_get (running ob) iid = Some e"
  shows "claim_of (o_state (onWorkerExit env iid reason err ob)) iid
      = (if re_ReleaseOnExit e then Unclaimed else RetryQueued)
    \<and> map_get (retries (onWorkerExit env iid reason err ob)) iid
      = (if re_ReleaseOnExit e then None
         else if reason = ExitNormal then Some (retry_record env (o_cfg ob) iid 1
           (re_Identifier e) (i_URL (re_Issue e)) None True)
         else Some (retry_record env (o_cfg ob) iid (re_RetryAttempt e + 1)
           (re_Identifier e) (i_URL (re_Issue e)) (Some (exit_message err)) False))
    \<and> (iid \<in> rs_Completed (o_state (onWorkerExit env iid reason err ob))
        \<longleftrightarrow> iid \<in> rs_Completed (o_state ob) \<or> \<not> re_ReleaseOnExit e \<and> reason = ExitNormal)
    \<and> tt_SecondsRunning (rs_ClaudeTotals (o_state (onWorkerExit env iid reason err ob)))
      = tt_SecondsRunning (rs_ClaudeTotals (o_state ob)) + seconds (e_now env - re_StartedAt e)
    \<and> (\<forall>ident. ECleanup ident
        \<in> set (drop (length (o_out ob)) (o_out (onWorkerExit env iid reason err ob)))
          \<longleftrightarrow> re_CleanupOnExit e \<and> ident = re_Identifier e)"
proof -
  have k: "iid \<notin> map_keys (retries ob)" "map_get (retries ob) iid = None"
    using assms state_invD(4) [OF assms(1)] by (auto simp: gm.get_None dest: gm.get_SomeD)
  show ?thesis
    unfolding onWorkerExit_out [OF assms(2)]
    using assms(2) k
    by (auto simp: onWorkerExit_def Let_def claim_of_def end_session_def scheduleRetry_state)
qed

theorem worker_exit_outcome_witness:
  "claim_of (o_state ex_waiting) ''b'' = RetryQueued \<and> map_get (retries ex_waiting) ''b''
     = Some (retry_record ex_env ex_cfg ''b'' 1 ''X-b'' None (Some ''worker exited: boom'') False)"
  using worker_exit_outcome [OF ex_ticked_inv ex_running, of ex_env ExitAbnormal "Some (PlainErr ''boom'')"]
  by (simp add: ex_waiting_def exit_message_def) (simp add: ex_issue_def zero_issue_def)

section \<open>Retry timers\<close>

text \<open>
  The issue a retry asks about among the candidates, and a slot for it: fewer entries run than
  allowed, and fewer in the issue's state than its own limit (the common one if it has none).
\<close>

definition listed :: "env \<Rightarrow> orch \<Rightarrow> string \<Rightarrow> issue option" where
  "listed env ob iid = (case e_candidates env (o_tracker ob) of
     Inl _ \<Rightarrow> None | Inr cs \<Rightarrow> find (\<lambda>i. i_ID i = iid) cs)"

definition in_state :: "string \<Rightarrow> orch \<Rightarrow> running_entry list" where
  "in_state st ob = filter (\<lambda>e. NormalizeState (i_State (re_Issue e)) = NormalizeState st) (map snd (running ob))"

definition slot_free :: "orch \<Rightarrow> issue \<Rightarrow> bool" where
  "slot_free ob i \<longleftrightarrow>
     int (length (running ob)) < rs_MaxConcurrentAgents (o_state ob)
     \<and> int (length (in_state (i_State i) ob)) <
         (case map_get (ac_MaxConcurrentByState (c_Agent (o_cfg ob))) (normState (i_State i)) of
            Some limit \<Rightarrow> limit | None \<Rightarrow> ac_MaxConcurrent (c_Agent (o_cfg ob)))"

definition retry_dispatches :: "env \<Rightarrow> orch \<Rightarrow> string \<Rightarrow> issue \<Rightarrow> bool" where
  "retry_dispatches env ob iid i \<longleftrightarrow>
     listed env ob iid = Some i \<and> isEligible (o_cfg ob) i \<and> slot_free ob i"

definition retry_waits :: "env \<Rightarrow> orch \<Rightarrow> string \<Rightarrow> bool" where
  "retry_waits env ob iid \<longleftrightarrow>
     (\<exists>e. e_candidates env (o_tracker ob) = Inl e)
     \<or> (\<exists>i. listed env ob iid = Some i \<and> isEligible (o_cfg ob) i \<and> \<not> slot_free ob i)"

lemma findByID_find: "findByID is iid = find (\<lambda>i. i_ID i = iid) is"
  by (induction "is") simp_all

lemma no_slot_free: "no_slot ob i \<longleftrightarrow> \<not> slot_free ob i"
proof -
  have "length (filter (\<lambda>(iid, e). P e) m) = length (filter P (map snd m))" for P and m :: "(string \<times> running_entry) list"
    by (simp add: filter_map comp_def case_prod_unfold)
  then show ?thesis
    by (auto simp: no_slot_def slot_free_def in_state_def globalAvailable_def runningCountByState_def PerStateLimit_def Let_def)
qed

lemma slot_free_retries [simp]:
  "slot_free (ob\<lparr>o_state := (o_state ob)\<lparr>rs_RetryAttempts := m\<rparr>\<rparr>) i = slot_free ob i"
  by (simp add: slot_free_def in_state_def cong: option.case_cong)

text \<open>
  C14: A fired retry timer starts the issue again exactly when the tracker still lists it,
  it is eligible and a slot is free: fewer issues run than allowed, and fewer in its state
  than that state allows. It is queued again, one attempt higher, exactly when the tracker
  could not be asked or no slot is free; otherwise the claim is given up. A restarted run
  carries the attempt number of the retry.
\<close>

theorem retry_timer_outcome:
  assumes "orch_inv ob" and "map_get (retries ob) iid = Some r"
  shows "claim_of (o_state (onRetryTimer env iid ob)) iid
      = (if \<exists>i. retry_dispatches env ob iid i then Running
         else if retry_waits env ob iid then RetryQueued else Unclaimed)
    \<and> (\<forall>e. map_get (running (onRetryTimer env iid ob)) iid = Some e \<longrightarrow>
         re_RetryAttempt e = rt_Attempt r \<and> retry_dispatches env ob iid (re_Issue e))
    \<and> (\<forall>r'. map_get (retries (onRetryTimer env iid ob)) iid = Some r' \<longrightarrow>
         rt_Attempt r' = rt_Attempt r + 1)"
proof -
  have k: "iid \<notin> map_keys (running ob)" "map_get (running ob) iid = None"
    using assms state_invD(4) [OF assms(1)] by (auto simp: gm.get_None dest: gm.get_SomeD)
  have a: "1 \<le> rt_Attempt r" using state_invD(6) [OF assms] by (simp add: retry_ok_def)
  show ?thesis
  proof (cases "e_candidates env (o_tracker ob)")
    case (Inl x)
    with assms(2) k a show ?thesis
      by (auto simp: onRetryTimer_def findByID_find no_slot_free Let_def retry_dispatches_def retry_waits_def listed_def claim_of_def
          scheduleRetry_state retry_record_def)
  next
    case (Inr cs)
    show ?thesis
    proof (cases "find (\<lambda>i. i_ID i = iid) cs")
      case None
      with Inr assms(2) k show ?thesis
        by (auto simp: onRetryTimer_def findByID_find no_slot_free Let_def retry_dispatches_def retry_waits_def listed_def claim_of_def
            release_claim_def)
    next
      case (Some i)
      have [simp]: "i_ID i = iid" using findByID_SomeD [of cs iid i] Some by (simp add: findByID_find)
      consider "\<not> isEligible (o_cfg ob) i" | "isEligible (o_cfg ob) i" "\<not> slot_free ob i"
        | "isEligible (o_cfg ob) i" "slot_free ob i" by blast
      then show ?thesis
        using Inr Some assms(2) k a
        by cases (auto simp: onRetryTimer_def findByID_find no_slot_free Let_def retry_dispatches_def retry_waits_def listed_def claim_of_def
            release_claim_def scheduleRetry_state retry_record_def dispatchIssue_state new_entry_def
            normalizeAttempt_def)
    qed
  qed
qed

theorem retry_timer_outcome_witness:
  "claim_of (o_state (onRetryTimer ex_env ''b'' ex_waiting)) ''b''
    = (if \<exists>i. retry_dispatches ex_env ex_waiting ''b'' i then Running
       else if retry_waits ex_env ex_waiting ''b'' then RetryQueued else Unclaimed)"
  using retry_timer_outcome [OF ex_waiting_inv ex_waiting_retry, of ex_env] by blast

section \<open>Reconciliation\<close>

text \<open>
  What one refreshed issue, and a whole tick's reconciliation, make of one running entry.
\<close>

definition refresh_entry :: "config \<Rightarrow> issue \<Rightarrow> running_entry \<Rightarrow> running_entry" where
  "refresh_entry cfg i e =
     (if re_Terminating e then e
      else if isTerminalState cfg (i_State i)
        then e\<lparr>re_Terminating := True, re_CleanupOnExit := True, re_ReleaseOnExit := True\<rparr>
      else if isActiveState cfg (i_State i)
        then e\<lparr>re_Issue := (re_Issue e)\<lparr>i_State := i_State i, i_Labels := i_Labels i\<rparr>\<rparr>
      else e\<lparr>re_Terminating := True, re_CleanupOnExit := False, re_ReleaseOnExit := True\<rparr>)"

definition stall_entry :: "env \<Rightarrow> config \<Rightarrow> running_entry \<Rightarrow> running_entry" where
  "stall_entry env cfg e =
     (if 0 < cc_StallTimeoutMs (c_Claude cfg) \<and> stalled env cfg e then e\<lparr>re_Terminating := True\<rparr> else e)"

definition watched :: "orch \<Rightarrow> string list" where
  "watched ob = map fst (filter (\<lambda>p. \<not> re_Terminating (snd p)) (running ob))"

text \<open>The tracker's answer about the entries that survive the stall check.\<close>

definition reported :: "env \<Rightarrow> orch \<Rightarrow> issue list" where
  "reported env ob =
     (let ids = watched (stall_detection env ob)
      in if ids = [] then []
         else case e_by_ids env (o_tracker ob) ids of Inl _ \<Rightarrow> [] | Inr is \<Rightarrow> is)"

definition reconcile_entry :: "env \<Rightarrow> orch \<Rightarrow> string \<Rightarrow> running_entry \<Rightarrow> running_entry" where
  "reconcile_entry env ob iid e =
     fold (refresh_entry (o_cfg ob)) (filter (\<lambda>i. i_ID i = iid) (reported env ob))
       (stall_entry env (o_cfg ob) e)"

lemma refresh_issue_get:
  "map_get (running (refresh_issue i ob)) iid
     = map_option (if i_ID i = iid then refresh_entry (o_cfg ob) i else (\<lambda>e. e)) (map_get (running ob) iid)"
  by (auto simp: refresh_issue_def terminateRunning_def refresh_entry_def option.map_ident
      split: option.splits)

lemma refresh_all_get:
  "map_get (running (fold refresh_issue is ob)) iid
     = map_option (fold (refresh_entry (o_cfg ob)) (filter (\<lambda>i. i_ID i = iid) is)) (map_get (running ob) iid)"
proof (induction "is" arbitrary: ob)
  case (Cons i "is")
  then show ?case
    by (cases "map_get (running ob) iid") (auto simp: refresh_issue_get)
qed (simp add: option.map_ident id_def)

lemma stall_detection_get:
  "map_get (running (stall_detection env ob)) iid
     = map_option (stall_entry env (o_cfg ob)) (map_get (running ob) iid)"
  by (cases "map_get (running ob) iid") (simp_all add: stall_detection_def stall_entry_def Let_def)

lemma state_refresh_reported:
  "state_refresh env (stall_detection env ob) = fold refresh_issue (reported env ob) (stall_detection env ob)"
  by (simp add: state_refresh_def reported_def watched_def Let_def split: sum.splits)

lemma reconcile_get:
  "map_get (running (reconcile env ob)) iid
     = map_option (reconcile_entry env ob iid) (map_get (running ob) iid)"
  by (cases "map_get (running ob) iid")
    (simp_all add: reconcile_def state_refresh_reported refresh_all_get stall_detection_get
      reconcile_entry_def)

text \<open>A worker is cancelled once, when its entry becomes terminating.\<close>

fun cancels :: "string \<Rightarrow> effect list \<Rightarrow> nat" where
  "cancels iid [] = 0"
| "cancels iid (ECancel i # out) = (if i = iid then Suc (cancels iid out) else cancels iid out)"
| "cancels iid (_ # out) = cancels iid out"

lemma cancels_append [simp]: "cancels iid (xs @ ys) = cancels iid xs + cancels iid ys"
  by (induction iid xs rule: cancels.induct) auto

definition terminating :: "string \<Rightarrow> orch \<Rightarrow> bool" where
  "terminating iid ob = (case map_get (running ob) iid of None \<Rightarrow> False | Some e \<Rightarrow> re_Terminating e)"

definition cancel_bal :: "string \<Rightarrow> orch \<Rightarrow> int" where
  "cancel_bal iid ob = ind (terminating iid ob) - int (cancels iid (o_out ob))"

lemma cancels_filter:
  "map_wf m \<Longrightarrow> int (cancels iid (map (\<lambda>p. ECancel (fst p)) (filter (\<lambda>p. st (snd p)) m)))
     = ind (case map_get m iid of None \<Rightarrow> False | Some e \<Rightarrow> st e)"
proof (induction m)
  case (Cons p m)
  have "map_get m (fst p) = None" if "map_wf (p # m)"
    using that by (auto simp: map_wf_def gm.get_None map_keys_def)
  with Cons show ?case by (cases p) (auto simp: map_wf_def map_get_Cons)
qed simp

lemma stall_cancel_bal:
  assumes "map_wf (running ob)"
  shows "cancel_bal iid (stall_detection env ob) = cancel_bal iid ob"
  using cancels_filter [OF assms, of iid "stalled env (o_cfg ob)"]
  by (auto simp: cancel_bal_def terminating_def stall_detection_def Let_def ind_def stalled_def
      split: option.splits if_splits)

lemma refresh_cancel_bal: "cancel_bal iid (refresh_issue i ob) = cancel_bal iid ob"
  by (auto simp: cancel_bal_def terminating_def refresh_issue_def terminateRunning_def ind_def
      split: option.splits)

lemma refresh_all_cancel_bal: "cancel_bal iid (fold refresh_issue is ob) = cancel_bal iid ob"
  by (induction "is" arbitrary: ob) (simp_all add: refresh_cancel_bal)

lemma reconcile_cancel_bal:
  "map_wf (running ob) \<Longrightarrow> cancel_bal iid (reconcile env ob) = cancel_bal iid ob"
  by (simp add: reconcile_def state_refresh_reported refresh_all_cancel_bal stall_cancel_bal)

lemma filter_ID_distinct:
  "distinct (map i_ID is) \<Longrightarrow>
     filter (\<lambda>i. i_ID i = iid) is = (case findByID is iid of None \<Rightarrow> [] | Some i \<Rightarrow> [i])"
  by (induction "is") (fastforce simp: filter_empty_conv image_iff dest: findByID_SomeD split: option.splits)+

text \<open>
  C15: What a tick makes of a running worker that is not ending yet, when the tracker reports
  no issue twice: silent for longer than the stall timeout, it is stopped and will be retried; reported terminal, it is stopped,
  its claim given up and its workspace removed; reported in a state neither active nor
  terminal, it is stopped and released without removal; reported active, it goes on with
  the new state and labels; not reported (or the tracker failed), it goes on unchanged.
  It is cancelled exactly if it is stopped, and then once.
\<close>

theorem reconcile_outcome:
  assumes "orch_inv ob" and "map_get (running ob) iid = Some e" and "\<not> re_Terminating e"
    and "distinct (map i_ID (reported env ob))"
  shows "map_get (running (reconcile env ob)) iid = Some
      (if 0 < cc_StallTimeoutMs (c_Claude (o_cfg ob))
          \<and> duration_ms (cc_StallTimeoutMs (c_Claude (o_cfg ob))) < e_now env - lastActivity e
       then e\<lparr>re_Terminating := True\<rparr>
       else case findByID (reported env ob) iid of
           None \<Rightarrow> e
         | Some i \<Rightarrow>
             if isTerminalState (o_cfg ob) (i_State i)
             then e\<lparr>re_Terminating := True, re_CleanupOnExit := True, re_ReleaseOnExit := True\<rparr>
             else if isActiveState (o_cfg ob) (i_State i)
             then e\<lparr>re_Issue := (re_Issue e)\<lparr>i_State := i_State i, i_Labels := i_Labels i\<rparr>\<rparr>
             else e\<lparr>re_Terminating := True, re_CleanupOnExit := False, re_ReleaseOnExit := True\<rparr>)
    \<and> int (cancels iid (o_out (reconcile env ob)))
      = int (cancels iid (o_out ob)) + ind (terminating iid (reconcile env ob))"
proof
  show "map_get (running (reconcile env ob)) iid = Some
      (if 0 < cc_StallTimeoutMs (c_Claude (o_cfg ob))
          \<and> duration_ms (cc_StallTimeoutMs (c_Claude (o_cfg ob))) < e_now env - lastActivity e
       then e\<lparr>re_Terminating := True\<rparr>
       else case findByID (reported env ob) iid of
           None \<Rightarrow> e
         | Some i \<Rightarrow>
             if isTerminalState (o_cfg ob) (i_State i)
             then e\<lparr>re_Terminating := True, re_CleanupOnExit := True, re_ReleaseOnExit := True\<rparr>
             else if isActiveState (o_cfg ob) (i_State i)
             then e\<lparr>re_Issue := (re_Issue e)\<lparr>i_State := i_State i, i_Labels := i_Labels i\<rparr>\<rparr>
             else e\<lparr>re_Terminating := True, re_CleanupOnExit := False, re_ReleaseOnExit := True\<rparr>)"
    using assms(3)
    by (auto simp: reconcile_get assms(2) reconcile_entry_def filter_ID_distinct [OF assms(4)]
        stall_entry_def stalled_def refresh_entry_def split: option.splits)
  have "cancel_bal iid (reconcile env ob) = cancel_bal iid ob"
    by (rule reconcile_cancel_bal [OF state_invD(1) [OF assms(1)]])
  then show "int (cancels iid (o_out (reconcile env ob)))
      = int (cancels iid (o_out ob)) + ind (terminating iid (reconcile env ob))"
    using assms(2,3) by (simp add: cancel_bal_def terminating_def [of iid ob])
qed

text \<open>Ten minutes later the sample's worker has been silent for too long.\<close>

definition ex_later :: env where "ex_later = ex_env\<lparr>e_now := 601000000000\<rparr>"

lemma ex_later_reported: "reported ex_later ex_ticked = []"
  by (simp add: reported_def Let_def ex_later_def ex_env_def)

theorem reconcile_outcome_witness:
  "map_get (running (reconcile ex_later ex_ticked)) ''b'' = Some (ex_entry\<lparr>re_Terminating := True\<rparr>)"
proof -
  have "duration_ms 300000 < e_now ex_later - lastActivity ex_entry"
    "cc_StallTimeoutMs (c_Claude (o_cfg ex_ticked)) = 300000"
    by (simp_all add: duration_ms_exact ex_later_def lastActivity_def zero_session_def ex_cfg_def)
  then show ?thesis
    using reconcile_outcome [OF ex_ticked_inv ex_running, of ex_later]
    by (simp add: ex_later_reported)
qed

section \<open>Reload, startup and shutdown\<close>

text \<open>
  A reload with usable tracker settings puts the new configuration, limits and poll
  interval in force and asks for a tick, and one without them leaves everything as it was;
  either way no running worker, claim or queued retry is touched.
\<close>

theorem reload_outcome:
  "running (onReload cfg tmpl ob) = running ob \<and> claimed (onReload cfg tmpl ob) = claimed ob
    \<and> retries (onReload cfg tmpl ob) = retries ob
    \<and> (if tc_APIKey (c_Tracker cfg) = [] \<or> tc_ProjectSlug (c_Tracker cfg) = [] then onReload cfg tmpl ob = ob
       else o_cfg (onReload cfg tmpl ob) = cfg \<and> o_template (onReload cfg tmpl ob) = tmpl
         \<and> tracker_factory cfg = Inr (o_tracker (onReload cfg tmpl ob))
         \<and> o_ws (onReload cfg tmpl ob) = workspace_factory cfg
         \<and> rs_MaxConcurrentAgents (o_state (onReload cfg tmpl ob)) = ac_MaxConcurrent (c_Agent cfg)
         \<and> o_out (onReload cfg tmpl ob) = o_out ob @ [EArmTick (duration_ms (c_PollingIntervalMs cfg))])"
  by (auto simp: onReload_def tracker_factory_def linear_New_def Let_def scheduleTick_def
      poll_interval_def)

text \<open>
  Shutdown stops the tick timer and every retry timer and cancels every running worker,
  each exactly once, and does nothing else.
\<close>

theorem shutdown_complete:
  assumes "orch_inv ob"
  shows "\<exists>xs. o_out (shutdown ob) = o_out ob @ xs \<and> distinct xs
    \<and> set xs = {EStopTick} \<union> EStopRetry ` map_keys (retries ob) \<union> ECancel ` map_keys (running ob)
    \<and> o_state (shutdown ob) = o_state ob"
proof -
  have "distinct (map (\<lambda>p. EStopRetry (fst p)) (retries ob))"
    "distinct (map (\<lambda>p. ECancel (fst p)) (running ob))"
    using state_invD(1,2) [OF assms] by (auto simp: map_wf_def distinct_map inj_on_def)
  then show ?thesis by (auto simp: shutdown_def map_keys_def image_image)
qed

theorem shutdown_complete_witness:
  "\<exists>xs. o_out (shutdown ex_ticked) = o_out ex_ticked @ xs \<and> distinct xs
    \<and> set xs = {EStopTick} \<union> EStopRetry ` map_keys (retries ex_ticked) \<union> ECancel ` map_keys (running ex_ticked)
    \<and> o_state (shutdown ex_ticked) = o_state ex_ticked"
  by (rule shutdown_complete [OF ex_ticked_inv])

end
