(* ===== verification/Accounting.thy ===== *)
theory Accounting
  imports Lifecycle
begin

text \<open>
  Token accounting, the activity feed and the snapshots: the totals count exactly the
  usage the agents report (in 64-bit counters), the sessions of the running issues their own share of it,
  and a snapshot reports the state as it is without changing it.
\<close>

section \<open>Token totals\<close>

text \<open>The three token counters of a usage record, of the totals and of a session.\<close>

datatype tokens = Tokens (tk_in: int) (tk_out: int) (tk_total: int)

instantiation tokens :: comm_monoid_add
begin

definition zero_tokens :: tokens where "0 = Tokens 0 0 0"

definition plus_tokens :: "tokens \<Rightarrow> tokens \<Rightarrow> tokens" where
  "a + b = Tokens (tk_in a + tk_in b) (tk_out a + tk_out b) (tk_total a + tk_total b)"

instance
  by standard (simp_all add: zero_tokens_def plus_tokens_def)

end

lemma tokens_sel [simp]:
  "tk_in (a + b) = tk_in a + tk_in b" "tk_out (a + b) = tk_out a + tk_out b"
  "tk_total (a + b) = tk_total a + tk_total b" "tk_in 0 = 0" "tk_out 0 = 0" "tk_total 0 = 0"
  by (simp_all add: plus_tokens_def zero_tokens_def)

text \<open>The counters are 64-bit integers: they hold a sum modulo \<open>2 ^ 64\<close>, read as a signed number.\<close>

definition wrap_tokens :: "tokens \<Rightarrow> tokens" where
  "wrap_tokens a = Tokens (wrap64 (tk_in a)) (wrap64 (tk_out a)) (wrap64 (tk_total a))"

lemma wrap_tokens_sel [simp]:
  "tk_in (wrap_tokens a) = wrap64 (tk_in a)" "tk_out (wrap_tokens a) = wrap64 (tk_out a)"
  "tk_total (wrap_tokens a) = wrap64 (tk_total a)"
  by (simp_all add: wrap_tokens_def)

lemma wrap_tokens_add [simp]: "wrap_tokens (wrap_tokens a + b) = wrap_tokens (a + b)"
  by (simp add: wrap_tokens_def)

lemma wrap_tokens_zero [simp]: "wrap_tokens 0 = 0"
  by (simp add: wrap_tokens_def zero_tokens_def)

lemma wrap_tokens_exact:
  "in_int64 (tk_in a) \<Longrightarrow> in_int64 (tk_out a) \<Longrightarrow> in_int64 (tk_total a) \<Longrightarrow> wrap_tokens a = a"
  by (simp add: wrap_tokens_def wrap64_id)

definition total_tokens :: "orch \<Rightarrow> tokens" where
  "total_tokens ob = (let t = rs_ClaudeTotals (o_state ob)
     in Tokens (tt_InputTokens t) (tt_OutputTokens t) (tt_TotalTokens t))"

definition session_tokens :: "live_session \<Rightarrow> tokens" where
  "session_tokens s = Tokens (ls_InputTokens s) (ls_OutputTokens s) (ls_TotalTokens s)"

definition usage_tokens :: "usage \<Rightarrow> tokens" where
  "usage_tokens u = Tokens (u_InputTokens u) (u_OutputTokens u) (u_TotalTokens u)"

lemma sum_usage_tokens:
  "sum_list (map usage_tokens us) = Tokens (\<Sum>u \<leftarrow> us. u_InputTokens u) (\<Sum>u \<leftarrow> us. u_OutputTokens u) (\<Sum>u \<leftarrow> us. u_TotalTokens u)"
  by (induction us) (simp_all add: usage_tokens_def plus_tokens_def zero_tokens_def)

text \<open>One usage report counted, and a list of them: the wrapped sum.\<close>

definition count_usage :: "usage \<Rightarrow> tokens \<Rightarrow> tokens" where
  "count_usage u t = wrap_tokens (t + usage_tokens u)"

lemma count_usages:
  "fold count_usage us t = (if us = [] then t else wrap_tokens (t + sum_list (map usage_tokens us)))"
  by (induction us arbitrary: t) (simp_all add: count_usage_def add.assoc)

lemma count_usages_wrap:
  "fold count_usage us (wrap_tokens t) = wrap_tokens (t + sum_list (map usage_tokens us))"
  by (simp add: count_usages)

definition event_usages :: "agent_event \<Rightarrow> usage list" where
  "event_usages m = (case ev_Usage m of None \<Rightarrow> [] | Some u \<Rightarrow> [u])"

lemma upd_session_tokens: "session_tokens (upd_session m s) = fold count_usage (event_usages m) (session_tokens s)"
  by (simp add: session_tokens_def event_usages_def upd_session_def upd_usage_def upd_ids_def
      upd_message_def Let_def count_usage_def usage_tokens_def wrap_tokens_def split: option.splits)

text \<open>What one event credits: the usage of an update whose issue is running.\<close>

definition credit :: "orch \<Rightarrow> event \<Rightarrow> usage list" where
  "credit ob e = (case e of
     AgentUpdate iid m \<Rightarrow> if map_has (running ob) iid then event_usages m else []
   | _ \<Rightarrow> [])"

fun credits :: "(env \<times> event) list \<Rightarrow> orch \<Rightarrow> usage list" where
  "credits [] ob = []"
| "credits ((env, e) # es) ob = credit ob e @ credits es (handle env e ob)"

lemma total_tokens_cong:
  "rs_ClaudeTotals (o_state ob') = rs_ClaudeTotals (o_state ob) \<Longrightarrow> total_tokens ob' = total_tokens ob"
  by (simp add: total_tokens_def)

lemma dispatch_loop_totals [simp]:
  "rs_ClaudeTotals (o_state (dispatch_loop env is ob)) = rs_ClaudeTotals (o_state ob)"
  by (induction "is" arbitrary: ob) (simp_all add: dispatchIssue_state)

lemma onTick_totals: "total_tokens (onTick env ob) = total_tokens ob"
  by (rule total_tokens_cong) (auto simp: onTick_def Let_def split: option.splits sum.splits)

lemma onWorkerExit_tokens: "total_tokens (onWorkerExit env iid reason err ob) = total_tokens ob"
  by (simp add: total_tokens_def onWorkerExit_def Let_def end_session_def scheduleRetry_state
      split: option.splits)

lemma onRetryTimer_tokens: "total_tokens (onRetryTimer env iid ob) = total_tokens ob"
  by (simp add: total_tokens_def onRetryTimer_def Let_def scheduleRetry_state dispatchIssue_state
      release_claim_def split: option.splits sum.splits)

lemma onReload_tokens: "total_tokens (onReload cfg tmpl ob) = total_tokens ob"
  by (simp add: total_tokens_def onReload_def Let_def split: sum.splits)

lemma onAgentUpdate_tokens:
  "total_tokens (onAgentUpdate iid m ob)
     = fold count_usage (if map_has (running ob) iid then event_usages m else []) (total_tokens ob)"
proof (cases "map_get (running ob) iid")
  case None
  then show ?thesis by (simp add: onAgentUpdate_def gm.in_keys)
next
  case (Some e)
  then show ?thesis
    by (auto simp: onAgentUpdate_def gm.in_keys total_tokens_def event_usages_def add_usage_def
        Let_def count_usage_def usage_tokens_def wrap_tokens_def split: option.splits)
qed

lemma total_tokens_frame [simp]:
  "total_tokens (scheduleTick d ob) = total_tokens ob" "total_tokens (emit x ob) = total_tokens ob"
  by (simp_all add: total_tokens_def)

lemma handle_tokens: "total_tokens (handle env e ob) = fold count_usage (credit ob e) (total_tokens ob)"
  by (cases e)
    (simp_all add: credit_def onTick_totals onWorkerExit_tokens onRetryTimer_tokens onReload_tokens
      onAgentUpdate_tokens)

text \<open>
  Over every sequence of events the token totals count exactly the usages reported
  for issues that were running when the event was handled: nothing is counted twice or
  lost by exits, retries, reloads or ticks, and per-step usage is never counted.
\<close>

theorem token_totals_conserved:
  "total_tokens (run_loop es ob) = fold count_usage (credits es ob) (total_tokens ob)"
  by (induction es ob rule: run_loop.induct) (simp_all add: handle_tokens)

section \<open>Sessions\<close>

text \<open>What a stream of updates leaves in a session.\<close>

definition feed :: "agent_event list \<Rightarrow> agent_activity list" where
  "feed ms = map activity_of (filter (\<lambda>m. ev_Message m \<noteq> []) ms)"

lemma appendActivity_last_n: "appendActivity hist act = last_n maxRecentActivity (hist @ [act])"
  by (simp add: appendActivity_def last_n_def Let_def)

definition turn_of :: "agent_event \<Rightarrow> int" where
  "turn_of m = (case atoi (ev_TurnID m) of Some n \<Rightarrow> n | None \<Rightarrow> 0)"

lemma upd_session_fields:
  "ls_RecentActivity (upd_session m s) =
     (if ev_Message m = [] then ls_RecentActivity s
      else last_n maxRecentActivity (ls_RecentActivity s @ feed [m]))"
  "0 \<le> ls_TurnCount s \<Longrightarrow> ls_TurnCount (upd_session m s) =
     (if ev_TurnID m = [] then ls_TurnCount s else max (ls_TurnCount s) (turn_of m))"
  "ls_LastAgentTimestamp (upd_session m s) = Some (ev_Timestamp m)"
  by (auto simp: upd_session_def upd_usage_def upd_ids_def upd_message_def Let_def feed_def
      appendActivity_last_n turn_of_def split: option.splits)

lemma feed_Cons: "feed (m # ms) = feed [m] @ feed ms"
  by (simp add: feed_def)

lemma atoi_Nil [simp]: "atoi [] = None"
  by (simp add: atoi_def)

lemma fold_upd_session:
  assumes "length (ls_RecentActivity s) \<le> maxRecentActivity" and "0 \<le> ls_TurnCount s"
  shows "ls_RecentActivity (fold upd_session ms s) = last_n maxRecentActivity (ls_RecentActivity s @ feed ms)
    \<and> ls_TurnCount (fold upd_session ms s) = fold max (map turn_of ms) (ls_TurnCount s)
    \<and> session_tokens (fold upd_session ms s) = fold count_usage (concat (map event_usages ms)) (session_tokens s)"
  using assms
proof (induction ms arbitrary: s)
  case Nil
  then show ?case by (simp add: feed_def last_n_def)
next
  case (Cons m ms)
  have len: "length (ls_RecentActivity (upd_session m s)) \<le> maxRecentActivity"
    by (rule upd_session_activity [OF Cons.prems(1)])
  have turn: "ls_TurnCount (upd_session m s) = max (turn_of m) (ls_TurnCount s)"
    using Cons.prems(2) by (auto simp: upd_session_fields turn_of_def)
  have act: "last_n maxRecentActivity (ls_RecentActivity (upd_session m s) @ feed ms)
      = last_n maxRecentActivity (ls_RecentActivity s @ feed (m # ms))"
    by (subst feed_Cons) (simp add: upd_session_fields(1) last_n_last_n, simp add: feed_def)
  show ?case
    using Cons.IH [OF len] Cons.prems(2) act turn
    by (simp add: upd_session_tokens)
qed

text \<open>
  After any sequence of updates to a running issue its session shows the last fifty
  messages in order, its turn count is the largest turn number seen, and its token counters
  have counted exactly the reported usages.
\<close>

theorem session_after_updates:
  assumes "orch_inv ob" and "map_get (running ob) iid = Some e"
  shows "\<exists>e'. map_get (running (fold (onAgentUpdate iid) ms ob)) iid = Some e'
    \<and> e' = e\<lparr>re_Session := re_Session e'\<rparr>
    \<and> ls_RecentActivity (re_Session e') = last_n 50 (ls_RecentActivity (re_Session e) @ feed ms)
    \<and> ls_TurnCount (re_Session e') = fold max (map turn_of ms) (ls_TurnCount (re_Session e))
    \<and> session_tokens (re_Session e') = fold count_usage (concat (map event_usages ms)) (session_tokens (re_Session e))"
proof -
  have "map_get (running (fold (onAgentUpdate iid) ms ob)) iid
      = Some (e\<lparr>re_Session := fold upd_session ms (re_Session e)\<rparr>)"
    using assms(2) by (induction ms arbitrary: ob e) (simp_all add: onAgentUpdate_def)
  moreover have "length (ls_RecentActivity (re_Session e)) \<le> maxRecentActivity"
    "0 \<le> ls_TurnCount (re_Session e)"
    using state_invD(5) [OF assms] by (auto simp: entry_ok_def)
  ultimately show ?thesis
    using fold_upd_session by (simp add: maxRecentActivity_def)
qed

theorem session_after_updates_witness:
  "\<exists>e'. map_get (running (fold (onAgentUpdate ''b'') [ex_event, ex_event] ex_ticked)) ''b'' = Some e'
    \<and> length (ls_RecentActivity (re_Session e')) = 2 \<and> session_tokens (re_Session e') = Tokens 20 10 30"
  using session_after_updates [OF ex_ticked_inv ex_running, of "[ex_event, ex_event]"]
  by (auto simp: last_n_def feed_def ex_event_def zero_session_def session_tokens_def event_usages_def
      count_usage_def usage_tokens_def wrap_tokens_def plus_tokens_def zero_tokens_def wrap64_def)

section \<open>Snapshots\<close>

interpretation rrow: less_by_key
  "\<lambda>x y :: running_row. rr_IssueIdentifier x < rr_IssueIdentifier y" rr_IssueIdentifier
  by unfold_locales simp

interpretation yrow: less_by_key
  "\<lambda>x y :: retry_row. ry_IssueIdentifier x < ry_IssueIdentifier y" ry_IssueIdentifier
  by unfold_locales simp

lemma live_seconds_sum:
  "live_seconds now m acc = acc + sum_list (map (\<lambda>p. seconds (now - re_StartedAt (snd p))) m)"
  unfolding live_seconds_def by (induction m arbitrary: acc) (simp_all add: add.assoc)

text \<open>
  A snapshot request is answered with one row per running issue and one per queued
  retry, each sorted by issue identifier, with the right counts, the token totals of the
  state and the run time of the finished workers plus that of the live ones; answering it
  changes nothing.
\<close>

theorem snapshot_faithful:
  "\<exists>sn. handle env SnapshotRequest ob = ob\<lparr>o_out := o_out ob @ [EReply sn]\<rparr>
    \<and> mset (sn_Running sn) = mset (map running_row_of (running ob))
    \<and> mset (sn_Retrying sn) = mset (map retry_row_of (retries ob))
    \<and> sorted (map rr_IssueIdentifier (sn_Running sn)) \<and> sorted (map ry_IssueIdentifier (sn_Retrying sn))
    \<and> sn_CountRunning sn = int (length (running ob)) \<and> sn_CountRetrying sn = int (length (retries ob))
    \<and> sn_ClaudeTotals sn = (rs_ClaudeTotals (o_state ob))\<lparr>tt_SecondsRunning :=
        tt_SecondsRunning (rs_ClaudeTotals (o_state ob))
        + sum_list (map (\<lambda>p. seconds (e_now env - re_StartedAt (snd p))) (running ob))\<rparr>"
  by (intro exI [of _ "buildSnapshot (e_now env) (o_state ob)"])
    (simp add: buildSnapshot_def Let_def rrow.sorted_slice_stable yrow.sorted_slice_stable
      live_seconds_sum)

end
