(* ===== verification/SystemBounds.thy ===== *)
theory SystemBounds
  imports Dispatch Accounting
begin

text \<open>
  What holds along every run of the system of theory System: the number of agent processes stays
  within the largest limit that was ever in force, and the token totals account for every report a
  worker has sent.
\<close>

section \<open>Slots\<close>

lemma length_running_card: "orch_inv ob \<Longrightarrow> length (running ob) = card (map_keys (running ob))"
  by (metis map_wf_card state_invD(1))

lemma dispatch_loop_limits [simp]:
  "rs_MaxConcurrentAgents (o_state (dispatch_loop env is ob)) = rs_MaxConcurrentAgents (o_state ob)"
  by (induction "is" arbitrary: ob) (simp_all add: dispatchIssue_state)

text \<open>Only an accepted reload changes the limit.\<close>

lemma handle_limit:
  "rs_MaxConcurrentAgents (o_state (handle env e ob)) =
     (case e of
        ReloadConfig cfg tmpl \<Rightarrow>
          (case tracker_factory cfg of
             Inl _ \<Rightarrow> rs_MaxConcurrentAgents (o_state ob) | Inr _ \<Rightarrow> ac_MaxConcurrent (c_Agent cfg))
      | _ \<Rightarrow> rs_MaxConcurrentAgents (o_state ob))"
  by (cases e)
    (simp_all add: onTick_def onAgentUpdate_def onWorkerExit_def onRetryTimer_def onReload_def Let_def
      end_session_def scheduleRetry_state dispatchIssue_state release_claim_def split: option.split sum.split)

lemma onRetryTimer_length:
  assumes "orch_inv ob"
  shows "int (length (running (onRetryTimer env iid ob)))
    \<le> max (int (length (running ob))) (rs_MaxConcurrentAgents (o_state ob))"
proof (cases "map_get (retries ob) iid")
  case None
  then show ?thesis by (simp add: onRetryTimer_def)
next
  case (Some r)
  then have fresh: "iid \<notin> map_keys (running ob)"
    using state_invD(4) [OF assms] by (auto dest: gm.get_SomeD)
  then have "length (map_put iid v (running ob)) = Suc (length (running ob))" for v
    by (simp add: map_put_fresh)
  then show ?thesis
    using Some
    by (auto simp: onRetryTimer_def Let_def release_claim_def scheduleRetry_state dispatchIssue_state
        no_slot_def globalAvailable_def dest!: findByID_SomeD split: option.split sum.split if_splits)
qed

lemma onTick_length:
  assumes "orch_inv ob"
  shows "int (length (running (onTick env ob)))
    \<le> max (int (length (running ob))) (rs_MaxConcurrentAgents (o_state ob))"
proof -
  have len: "length (running (onTick env ob)) = length (running ob) + length (tick_picks env ob)"
    using onTick_running(1) [OF assms, of env] reconcile_length [OF assms, of env] by simp
  show ?thesis
    using select_global [of "running_states (reconcile env ob)" "o_cfg ob"
        "rs_MaxConcurrentAgents (o_state ob)" "claimed ob" "sortForDispatch (tick_candidates env ob)"]
    by (simp add: len tick_picks_select reconcile_length [OF assms])
qed

lemma map_put_length_has: "map_get m k \<noteq> None \<Longrightarrow> length (map_put k v m) = length m"
  by (induction m) (auto simp: map_put_def map_get_def)

lemma map_del_length: "length (map_del k m) \<le> length m"
  by (simp add: map_del_def length_delete_le)

lemma handle_length:
  assumes "orch_inv ob"
  shows "int (length (running (handle env e ob)))
    \<le> max (int (length (running ob))) (rs_MaxConcurrentAgents (o_state ob))"
proof (cases e)
  case TickEvent
  then show ?thesis using onTick_length [OF assms] by simp
next
  case (RetryTimerFired iid)
  then show ?thesis using onRetryTimer_length [OF assms] by simp
next
  case (AgentUpdate iid m)
  then show ?thesis by (simp add: onAgentUpdate_def map_put_length_has split: option.split)
next
  case (WorkerExit iid reason err)
  then show ?thesis
    using map_del_length [of iid "running ob"]
    by (auto simp: onWorkerExit_def end_session_def Let_def scheduleRetry_state split: option.split)
next
  case (ReloadConfig cfg tmpl)
  then show ?thesis by (simp add: onReload_def Let_def split: sum.split)
qed simp_all

section \<open>Runs below a limit\<close>

definition reload_within :: "int \<Rightarrow> event \<Rightarrow> bool" where
  "reload_within M e = (case e of ReloadConfig cfg tmpl \<Rightarrow> ac_MaxConcurrent (c_Agent cfg) \<le> M | _ \<Rightarrow> True)"

text \<open>The runs in which the first configuration and every reload ask for at most \<open>M\<close> agents.\<close>

inductive limited :: "int \<Rightarrow> sys \<Rightarrow> bool" for M where
  start: "orch_New cfg tmpl = Inr ob \<Longrightarrow> run_startup env ob = Inr ob' \<Longrightarrow>
     0 \<le> M \<Longrightarrow> ac_MaxConcurrent (c_Agent cfg) \<le> M \<Longrightarrow>
     limited M \<lparr>y_orch = ob', y_queue = [], y_workers = {#}, y_timers = {#}\<rparr>"
| step: "limited M s \<Longrightarrow> sys_step s t \<Longrightarrow> list_all (reload_within M) (y_queue t) \<Longrightarrow> limited M t"

definition in_limit :: "int \<Rightarrow> sys \<Rightarrow> bool" where
  "in_limit M s \<longleftrightarrow> int (length (running (y_orch s))) \<le> M
     \<and> rs_MaxConcurrentAgents (o_state (y_orch s)) \<le> M \<and> list_all (reload_within M) (y_queue s)"

lemma in_limit_process:
  assumes "orch_inv (y_orch s)" and "y_queue s = e # q" and "in_limit M s"
  shows "in_limit M (process env e q s)"
proof -
  let ?ob = "(y_orch s)\<lparr>o_out := []\<rparr>"
  have "rs_MaxConcurrentAgents (o_state (handle env e ?ob)) \<le> M"
    using assms(2,3) unfolding handle_limit in_limit_def reload_within_def
    by (auto split: event.splits sum.split)
  moreover have "int (length (running (handle env e ?ob))) \<le> M"
    using handle_length [of ?ob env e] assms(1,3) by (auto simp: in_limit_def)
  ultimately show ?thesis using assms(2,3) by (simp add: in_limit_def process_def Let_def)
qed

lemma limited_reachable: "limited M s \<Longrightarrow> reachable s"
  by (induction rule: limited.induct) (auto intro: reachable.intros)

lemma step_in_limit:
  assumes "sys_step s t" and "sys_inv s" and "in_limit M s" and "list_all (reload_within M) (y_queue t)"
  shows "in_limit M t"
  using assms
proof cases
  case (loop_turn e q env)
  with assms show ?thesis using in_limit_process by (auto simp: sys_inv_def)
qed (use assms in \<open>simp_all add: in_limit_def post_def\<close>)

lemma limited_in_limit: "limited M s \<Longrightarrow> in_limit M s"
proof (induction rule: limited.induct)
  case (start cfg tmpl ob env ob')
  then show ?case
    by (auto simp: in_limit_def orch_New_def run_startup_def startupTerminalCleanup_def newRuntimeState_def
        split: sum.splits option.splits)
next
  case (step s t)
  then show ?case using step_in_limit [OF _ reachable_inv [OF limited_reachable [OF step(1)]]] by blast
qed

lemma workers_le_running: "sys_inv s \<Longrightarrow> size (y_workers s) \<le> length (running (y_orch s))"
proof -
  assume inv: "sys_inv s"
  have "count (y_workers s) iid \<le> count (mset (map fst (running (y_orch s)))) iid" for iid
  proof (cases "map_has (running (y_orch s)) iid")
    case True
    then have "iid \<in># mset (map fst (running (y_orch s)))"
      by (auto simp: gm.in_keys [symmetric] map_has_def map_keys_def)
    then have "1 \<le> count (mset (map fst (running (y_orch s)))) iid"
      by (simp only: count_greater_eq_one_iff)
    moreover have "count (y_workers s) iid \<le> 1" using sys_inv_workers [OF inv, of iid] True by simp
    ultimately show ?thesis by (rule order_trans [rotated])
  next
    case False
    then show ?thesis using sys_inv_workers [OF inv, of iid] by simp
  qed
  then have "y_workers s \<subseteq># mset (map fst (running (y_orch s)))" by (rule mset_subset_eqI)
  then show ?thesis using size_mset_mono by fastforce
qed

section \<open>Reports\<close>

text \<open>The usages reported in the updates that wait in the channel, in their order.\<close>

fun queued_usages :: "event list \<Rightarrow> usage list" where
  "queued_usages [] = []"
| "queued_usages (AgentUpdate iid m # q) = event_usages m @ queued_usages q"
| "queued_usages (_ # q) = queued_usages q"

lemma queued_usages_append [simp]: "queued_usages (p @ q) = queued_usages p @ queued_usages q"
  by (induction p rule: queued_usages.induct) simp_all

text \<open>What a step adds to the channel, and a run with the usages its workers have reported so far.\<close>

definition newly_sent :: "sys \<Rightarrow> sys \<Rightarrow> usage list" where
  "newly_sent s t = queued_usages (drop (length (y_queue s)) (y_queue t))"

inductive metered :: "sys \<Rightarrow> usage list \<Rightarrow> bool" where
  start: "orch_New cfg tmpl = Inr ob \<Longrightarrow> run_startup env ob = Inr ob' \<Longrightarrow>
     metered \<lparr>y_orch = ob', y_queue = [], y_workers = {#}, y_timers = {#}\<rparr> []"
| step: "metered s us \<Longrightarrow> sys_step s t \<Longrightarrow> metered t (us @ newly_sent s t)"

lemma metered_reachable: "metered s us \<Longrightarrow> reachable s"
  by (induction rule: metered.induct) (auto intro: reachable.intros)

lemma reachable_metered: "reachable s \<Longrightarrow> \<exists>us. metered s us"
  by (induction rule: reachable.induct) (blast intro: metered.intros)+

text \<open>The head of the channel is credited in full: an update never outlives its entry.\<close>

lemma credit_head:
  assumes "sys_inv s" and "y_queue s = e # q"
  shows "queued_usages (y_queue s) = credit (y_orch s) e @ queued_usages q"
proof (cases e)
  case (AgentUpdate iid m)
  have "1 \<le> count (y_workers s) iid + exits_in iid (y_queue s)"
    using assms AgentUpdate by (simp add: sys_inv_def)
  then have "map_has (running (y_orch s)) iid"
    using sys_inv_workers [OF assms(1), of iid] by (simp split: if_splits)
  then show ?thesis using assms(2) AgentUpdate by (simp add: credit_def)
qed (use assms(2) in \<open>simp_all add: credit_def\<close>)

text \<open>A step counts a prefix of the usages in the channel and appends the new ones.\<close>

lemma step_usages:
  assumes "sys_step s t" and "sys_inv s"
  shows "\<exists>counted. queued_usages (y_queue s) @ newly_sent s t = counted @ queued_usages (y_queue t)
    \<and> total_tokens (y_orch t) = fold count_usage counted (total_tokens (y_orch s))"
  using assms(1)
proof cases
  case (loop_turn e q env)
  let ?ob = "(y_orch s)\<lparr>o_out := []\<rparr>"
  have "total_tokens ?ob = total_tokens (y_orch s)" "credit ?ob e = credit (y_orch s) e"
    by (simp_all add: total_tokens_def credit_def split: event.split)
  then have "total_tokens (handle env e ?ob) = fold count_usage (credit (y_orch s) e) (total_tokens (y_orch s))"
    by (simp add: handle_tokens)
  then show ?thesis
    using loop_turn credit_head [OF assms(2) loop_turn(2)]
    by (intro exI [of _ "credit (y_orch s) e"]) (simp add: process_def Let_def newly_sent_def)
qed (auto simp: post_def newly_sent_def)

lemma metered_counted:
  "metered s us \<Longrightarrow> \<exists>counted. us = counted @ queued_usages (y_queue s)
     \<and> total_tokens (y_orch s) = wrap_tokens (sum_list (map usage_tokens counted))"
proof (induction rule: metered.induct)
  case (start cfg tmpl ob env ob')
  then have "total_tokens ob' = 0"
    by (auto simp: total_tokens_def orch_New_def run_startup_def startupTerminalCleanup_def newRuntimeState_def
        zero_totals_def zero_tokens_def split: sum.splits option.splits)
  then show ?case by simp
next
  case (step s us t)
  obtain c where c: "us = c @ queued_usages (y_queue s)"
    "total_tokens (y_orch s) = wrap_tokens (sum_list (map usage_tokens c))"
    using step.IH by blast
  obtain d where d: "queued_usages (y_queue s) @ newly_sent s t = d @ queued_usages (y_queue t)"
    "total_tokens (y_orch t) = fold count_usage d (total_tokens (y_orch s))"
    using step_usages [OF step(2) reachable_inv [OF metered_reachable [OF step(1)]]] by blast
  show ?case
    by (intro exI [of _ "c @ d"]) (simp add: c d count_usages_wrap)
qed

end
