(* ===== verification/Clock.thy ===== *)
theory Clock
  imports GoStrings
begin

text \<open>
  \<^verbatim>\<open>time.Parse(time.RFC3339, s)\<close>, which the tracker client applies to the timestamps it
  receives, with the leniencies of Go's layout parser: an hour of one digit, a fraction
  after a period or a comma of which nine digits count, and a zone offset up to 24:60. A
  time is its number of nanoseconds since the Unix epoch.
\<close>

section \<open>The calendar\<close>

definition leap_year :: "nat \<Rightarrow> bool" where
  "leap_year y \<longleftrightarrow> 4 dvd y \<and> (\<not> 100 dvd y \<or> 400 dvd y)"

definition days_in :: "nat \<Rightarrow> nat \<Rightarrow> nat" where
  "days_in m y =
     (if m = 2 then (if leap_year y then 29 else 28) else if m \<in> {4, 6, 9, 11} then 30 else 31)"

text \<open>Days from the start of year 0 to the start of a year, and of a month in its year.\<close>

definition days_before_year :: "nat \<Rightarrow> nat" where
  "days_before_year y = 365 * y + (y + 3) div 4 - (y + 99) div 100 + (y + 399) div 400"

definition days_before_month :: "nat \<Rightarrow> nat \<Rightarrow> nat" where
  "days_before_month m y = sum_list (map (\<lambda>k. days_in k y) [1..<m])"

definition epoch_day :: nat where "epoch_day = 719528"

definition unix_seconds :: "nat \<Rightarrow> nat \<Rightarrow> nat \<Rightarrow> nat \<Rightarrow> nat \<Rightarrow> nat \<Rightarrow> int" where
  "unix_seconds y mo d h mi s =
     (int (days_before_year y + days_before_month mo y + (d - 1)) - int epoch_day) * 86400
     + int (h * 3600 + mi * 60 + s)"

section \<open>The parser\<close>

text \<open>\<^verbatim>\<open>getnum\<close>: two digits, or one where the layout does not fix the width.\<close>

definition digit :: "char \<Rightarrow> nat" where "digit c = byte c - 48"

fun getnum :: "string \<Rightarrow> bool \<Rightarrow> (nat \<times> string) option" where
  "getnum (a # b # r) fixed =
     (if \<not> is_digit a then None
      else if is_digit b then Some (digit a * 10 + digit b, r)
      else if fixed then None else Some (digit a, b # r))"
| "getnum [a] fixed = (if is_digit a \<and> \<not> fixed then Some (digit a, []) else None)"
| "getnum [] fixed = None"

definition expect :: "char \<Rightarrow> string \<Rightarrow> string option" where
  "expect c s = (case s of x # r \<Rightarrow> if x = c then Some r else None | [] \<Rightarrow> None)"

definition parse_year :: "string \<Rightarrow> (nat \<times> string) option" where
  "parse_year s =
     (if 4 \<le> length s \<and> list_all is_digit (take 4 s)
      then Some (foldl (\<lambda>n c. n * 10 + digit c) 0 (take 4 s), drop 4 s) else None)"

text \<open>The optional fraction, in nanoseconds.\<close>

definition parse_fraction :: "string \<Rightarrow> nat \<times> string" where
  "parse_fraction s = (case s of
     p # d # r \<Rightarrow>
       if p \<in> {CHR ''.'', CHR '',''} \<and> is_digit d then
         (let ds = takeWhile is_digit (d # r); nine = take 9 ds
          in (foldl (\<lambda>n c. n * 10 + digit c) 0 nine * 10 ^ (9 - length nine), drop (length ds) (d # r)))
       else (0, s)
   | _ \<Rightarrow> (0, s))"

definition parse_zone :: "string \<Rightarrow> (int \<times> string) option" where
  "parse_zone s =
     (if take 1 s = ''Z'' then Some (0, drop 1 s)
      else if length s < 6 \<or> s ! 3 \<noteq> CHR '':'' then None
      else (case (getnum (take 2 (drop 1 s)) True, getnum (take 2 (drop 4 s)) True) of
              (Some (hr, _), Some (mm, _)) \<Rightarrow>
                if 24 < hr \<or> 60 < mm then None
                else if hd s = CHR ''+'' then Some (int ((hr * 60 + mm) * 60), drop 6 s)
                else if hd s = CHR ''-'' then Some (- int ((hr * 60 + mm) * 60), drop 6 s)
                else None
            | _ \<Rightarrow> None))"

definition parse_rfc3339 :: "string \<Rightarrow> int option" where
  "parse_rfc3339 s0 =
     Option.bind (parse_year s0) (\<lambda>(y, s1).
     Option.bind (expect (CHR ''-'') s1) (\<lambda>s2.
     Option.bind (getnum s2 True) (\<lambda>(mo, s3).
     Option.bind (expect (CHR ''-'') s3) (\<lambda>s4.
     Option.bind (getnum s4 True) (\<lambda>(d, s5).
     Option.bind (expect (CHR ''T'') s5) (\<lambda>s6.
     Option.bind (getnum s6 False) (\<lambda>(h, s7).
     Option.bind (expect (CHR '':'') s7) (\<lambda>s8.
     Option.bind (getnum s8 True) (\<lambda>(mi, s9).
     Option.bind (expect (CHR '':'') s9) (\<lambda>s10.
     Option.bind (getnum s10 True) (\<lambda>(sec, s11).
     (let fr = parse_fraction s11
      in Option.bind (parse_zone (snd fr)) (\<lambda>(off, s12).
         if s12 = [] \<and> 1 \<le> mo \<and> mo \<le> 12 \<and> h < 24 \<and> mi < 60 \<and> sec < 60 \<and> 1 \<le> d \<and> d \<le> days_in mo y
         then Some ((unix_seconds y mo d h mi sec - off) * 1000000000 + int (fst fr))
         else None)))))))))))))"

section \<open>Reading back\<close>

text \<open>The text of a UTC date and time, as Go formats it, and the proof that it is read back.\<close>

definition num_char :: "nat \<Rightarrow> char" where "num_char n = char_of (48 + n)"

definition pad2 :: "nat \<Rightarrow> string" where "pad2 n = [num_char (n div 10), num_char (n mod 10)]"

definition pad4 :: "nat \<Rightarrow> string" where "pad4 n = pad2 (n div 100) @ pad2 (n mod 100)"

definition format_rfc3339 :: "nat \<Rightarrow> nat \<Rightarrow> nat \<Rightarrow> nat \<Rightarrow> nat \<Rightarrow> nat \<Rightarrow> string" where
  "format_rfc3339 y mo d h mi s =
     pad4 y @ ''-'' @ pad2 mo @ ''-'' @ pad2 d @ ''T'' @ pad2 h @ '':'' @ pad2 mi @ '':'' @ pad2 s @ ''Z''"

lemma num_char [simp]:
  "n < 10 \<Longrightarrow> is_digit (num_char n)" "n < 10 \<Longrightarrow> digit (num_char n) = n"
  by (simp_all add: is_digit_def digit_def num_char_def)

lemma getnum_pad2 [simp]: "n < 100 \<Longrightarrow> getnum (pad2 n @ s) fixed = Some (n, s)"
  by (simp add: pad2_def)

lemma parse_year_pad4 [simp]: "y < 10000 \<Longrightarrow> parse_year (pad4 y @ s) = Some (y, s)"
  by (simp add: parse_year_def pad4_def pad2_def)

lemma days_in_le: "days_in m y \<le> 31"
  by (simp add: days_in_def)

lemma expect_same [simp]: "expect c (c # s) = Some s"
  by (simp add: expect_def)

lemma parse_format:
  assumes "y < 10000" and "1 \<le> mo" and "mo \<le> 12" and "1 \<le> d" and "d \<le> days_in mo y"
    and "h < 24" and "mi < 60" and "s < 60"
  shows "parse_rfc3339 (format_rfc3339 y mo d h mi s) = Some (unix_seconds y mo d h mi s * 1000000000)"
  using assms days_in_le [of mo y]
  by (simp add: parse_rfc3339_def format_rfc3339_def parse_fraction_def parse_zone_def Let_def)

end
