(* ===== verification/LinearAPI.thy ===== *)
theory LinearAPI
  imports Linear Clock
begin

text \<open>
  Package \<^verbatim>\<open>linear\<close> (linear.go, normalize.go): one GraphQL request with its error mapping,
  cursor pagination, and the normalization of an issue node. The HTTP exchange and the
  JSON decoding of its body are parameters; the exchange is indexed by the number of the
  request, so that the server may answer equal requests differently over time.
\<close>

section \<open>The response\<close>

record relation_node =
  rn_Type :: string
  rn_Related :: "(string \<times> string \<times> string option) option"

text \<open>
  \<open>rn_Related\<close> holds the id, the identifier and the state name of the related issue, the
  fields the query asks for. \<open>n_Priority\<close> is the decoded JSON value, \<open>VNil\<close> when absent.
\<close>

record issue_node =
  n_ID :: string
  n_Identifier :: string
  n_Title :: string
  n_Description :: "string option"
  n_Priority :: gvalue
  n_BranchName :: "string option"
  n_URL :: "string option"
  n_CreatedAt :: "string option"
  n_UpdatedAt :: "string option"
  n_State :: "string option"
  n_Assignee :: "string option"
  n_Labels :: "string list option"
  n_Inverse :: "relation_node list option"

record issue_page =
  pg_Nodes :: "issue_node list"
  pg_HasNextPage :: bool
  pg_EndCursor :: "string option"

record gql_response =
  gr_Data :: "issue_page option"
  gr_Errors :: "string list"

record gql_request =
  gq_Query :: string
  gq_Vars :: "(string, gvalue) gmap"

section \<open>normalize.go\<close>

definition normalizePriority :: "gvalue \<Rightarrow> int option" where
  "normalizePriority raw = (case raw of VFloat f \<Rightarrow> float_to_int f | _ \<Rightarrow> None)"

definition parseTime :: "string option \<Rightarrow> int option" where
  "parseTime s = (case s of None \<Rightarrow> None | Some t \<Rightarrow> if t = [] then None else parse_rfc3339 t)"

definition non_empty :: "string \<Rightarrow> string option" where
  "non_empty s = (if s = [] then None else Some s)"

definition normalize_blocker :: "relation_node \<Rightarrow> blocker_ref" where
  "normalize_blocker rel = (case rn_Related rel of
     None \<Rightarrow> \<lparr>br_ID = None, br_Identifier = None, br_State = None\<rparr>
   | Some (iid, ident, state) \<Rightarrow>
       \<lparr>br_ID = non_empty iid, br_Identifier = non_empty ident,
        br_State = (case state of None \<Rightarrow> None | Some n \<Rightarrow> non_empty n)\<rparr>)"

definition is_blocks :: "relation_node \<Rightarrow> bool" where
  "is_blocks rel \<longleftrightarrow> to_lower (trim_space (rn_Type rel)) = ''blocks''"

definition normalizeIssue :: "issue_node \<Rightarrow> issue" where
  "normalizeIssue n =
     \<lparr>i_ID = n_ID n, i_Identifier = n_Identifier n, i_Title = n_Title n,
      i_Description = n_Description n, i_Priority = normalizePriority (n_Priority n),
      i_State = (case n_State n of None \<Rightarrow> [] | Some st \<Rightarrow> st),
      i_BranchName = n_BranchName n, i_URL = n_URL n,
      i_Labels = (case n_Labels n of None \<Rightarrow> []
        | Some ls \<Rightarrow> filter (\<lambda>l. l \<noteq> []) (map (\<lambda>l. to_lower (trim_space l)) ls)),
      i_BlockedBy = (case n_Inverse n of None \<Rightarrow> []
        | Some rels \<Rightarrow> map normalize_blocker (filter is_blocks rels)),
      i_CreatedAt = parseTime (n_CreatedAt n), i_UpdatedAt = parseTime (n_UpdatedAt n),
      i_Assignee = (case n_Assignee n of None \<Rightarrow> None | Some a \<Rightarrow> non_empty a)\<rparr>"

section \<open>linear.go\<close>

text \<open>
  What stands outside the client: the JSON encoder, the HTTP exchange (status and body, the
  \<open>k\<close>-th request of a fetch) and the decoder of the body.
\<close>

record tracker_env =
  te_Marshal :: "gvalue \<Rightarrow> string result"
  te_HTTP :: "nat \<Rightarrow> http_request \<Rightarrow> (string \<times> int) result"
  te_Decode :: "string \<Rightarrow> gql_response result"

definition linear_do :: "tracker_env \<Rightarrow> linear_client \<Rightarrow> nat \<Rightarrow> gql_request \<Rightarrow> issue_page result" where
  "linear_do te c k req =
     (case te_Marshal te (VMap [(''query'', VStr (gq_Query req)), (''variables'', VMap (gq_Vars req))]) of
        Inl e \<Rightarrow> Inl (TypedErr ''linear_unknown_payload'' (error_string e))
      | Inr payload \<Rightarrow>
        (case te_HTTP te k (graphql_request (lc_endpoint c) (lc_apiKey c) payload) of
           Inl e \<Rightarrow> Inl (TypedErr ''linear_api_request'' (error_string e))
         | Inr (body, status) \<Rightarrow>
             if status \<noteq> 200 then Inl (TypedErr ''linear_api_status'' (''status '' @ itoa status))
             else (case te_Decode te body of
                     Inl e \<Rightarrow> Inl (TypedErr ''linear_unknown_payload'' (error_string e))
                   | Inr parsed \<Rightarrow>
                       if gr_Errors parsed \<noteq> []
                         then Inl (TypedErr ''linear_graphql_errors'' (hd (gr_Errors parsed)))
                       else (case gr_Data parsed of
                               None \<Rightarrow> Inl (TypedErr ''linear_unknown_payload'' ''response has no data'')
                             | Some page \<Rightarrow> Inr page))))"

text \<open>
  The request of one page, and the loop over the pages. \<open>ask k\<close> performs the \<open>k\<close>-th
  request; the loop has no bound of its own, so its value is \<open>None\<close> when the server keeps
  announcing further pages.
\<close>

definition page_request :: "string \<Rightarrow> (string, gvalue) gmap \<Rightarrow> string option \<Rightarrow> gql_request" where
  "page_request query baseVars after =
     \<lparr>gq_Query = query,
      gq_Vars = (case after of None \<Rightarrow> baseVars | Some a \<Rightarrow> map_put ''after'' (VStr a) baseVars)\<rparr>"

partial_function (option) paginateWith ::
  "(nat \<Rightarrow> gql_request \<Rightarrow> issue_page result) \<Rightarrow> string \<Rightarrow> (string, gvalue) gmap
    \<Rightarrow> nat \<Rightarrow> string option \<Rightarrow> issue list \<Rightarrow> issue list result option" where
  "paginateWith ask query baseVars k after all =
     (case ask k (page_request query baseVars after) of
        Inl e \<Rightarrow> Some (Inl e)
      | Inr page \<Rightarrow>
          (let all' = all @ map normalizeIssue (pg_Nodes page)
           in if \<not> pg_HasNextPage page then Some (Inr all')
              else (case pg_EndCursor page of
                      None \<Rightarrow> Some (Inl (TypedErr ''linear_missing_end_cursor''
                                ''page reports hasNextPage but omits endCursor''))
                    | Some cur \<Rightarrow>
                        if cur = [] then Some (Inl (TypedErr ''linear_missing_end_cursor''
                                ''page reports hasNextPage but omits endCursor''))
                        else paginateWith ask query baseVars (Suc k) (Some cur) all')))"

definition ascii_lf :: string where "ascii_lf = [CHR 0x0A]"

definition text_lines :: "string list \<Rightarrow> string" where "text_lines ls = join_str ascii_lf ls"

definition issueFields :: string where
  "issueFields = text_lines [[], ''    id'', ''    identifier'', ''    title'', ''    description'',
     ''    priority'', ''    branchName'', ''    url'', ''    createdAt'', ''    updatedAt'',
     ''    state { name type }'', ''    assignee { name }'', ''    labels { nodes { name } }'',
     ''    inverseRelations { nodes { type relatedIssue { id identifier state { name } } } }'', []]"

definition candidates_query :: string where
  "candidates_query = text_lines
     [''query CandidateIssues($filter: IssueFilter, $first: Int, $after: String) {'',
      ''  issues(filter: $filter, first: $first, after: $after) {'',
      ''    nodes { '' @ issueFields @ '' }'', ''    pageInfo { hasNextPage endCursor }'', ''  }'', ''}'']"

definition states_query :: string where
  "states_query = text_lines
     [''query IssueStates($ids: [ID!], $first: Int, $after: String) {'',
      ''  issues(filter: { id: { in: $ids } }, first: $first, after: $after) {'',
      ''    nodes { '' @ issueFields @ '' }'', ''    pageInfo { hasNextPage endCursor }'', ''  }'', ''}'']"

definition project_filter :: "linear_client \<Rightarrow> string \<times> gvalue" where
  "project_filter c = (''project'', VMap [(''slugId'', VMap [(''eq'', VStr (lc_projectSlug c))])])"

definition state_filter :: "string list \<Rightarrow> string \<times> gvalue" where
  "state_filter states = (''state'', VMap [(''name'', VMap [(''in'', VList (map VStr states))])])"

definition paginateIssues ::
  "(nat \<Rightarrow> gql_request \<Rightarrow> issue_page result) \<Rightarrow> linear_client \<Rightarrow> gvalue \<Rightarrow> issue list result option" where
  "paginateIssues ask c flt =
     paginateWith ask candidates_query [(''filter'', flt), (''first'', VInt (lc_pageSize c))] 0 None []"

definition FetchCandidateIssues ::
  "(nat \<Rightarrow> gql_request \<Rightarrow> issue_page result) \<Rightarrow> linear_client \<Rightarrow> issue list result option" where
  "FetchCandidateIssues ask c =
     paginateIssues ask c (VMap (project_filter c #
       (if lc_activeStates c \<noteq> [] then [state_filter (lc_activeStates c)] else [])))"

definition FetchIssuesByStates ::
  "(nat \<Rightarrow> gql_request \<Rightarrow> issue_page result) \<Rightarrow> linear_client \<Rightarrow> string list \<Rightarrow> issue list result option" where
  "FetchIssuesByStates ask c states =
     (if states = [] then Some (Inr [])
      else paginateIssues ask c (VMap [project_filter c, state_filter states]))"

definition FetchIssueStatesByIDs ::
  "(nat \<Rightarrow> gql_request \<Rightarrow> issue_page result) \<Rightarrow> linear_client \<Rightarrow> string list \<Rightarrow> issue list result option" where
  "FetchIssueStatesByIDs ask c ids =
     (if ids = [] then Some (Inr [])
      else paginateWith ask states_query
             [(''ids'', VList (map VStr ids)), (''first'', VInt (lc_pageSize c))] 0 None [])"

section \<open>Pages\<close>

text \<open>
  A run of the server over \<open>n\<close> pages that all announce a successor: page \<open>i\<close> is the answer
  to the request with the cursor of the page before.
\<close>

definition cursor_at :: "(nat \<Rightarrow> issue_page) \<Rightarrow> nat \<Rightarrow> string option" where
  "cursor_at page k = (case k of 0 \<Rightarrow> None | Suc j \<Rightarrow> pg_EndCursor (page j))"

definition announces :: "issue_page \<Rightarrow> bool" where
  "announces p \<longleftrightarrow> pg_HasNextPage p \<and> pg_EndCursor p \<noteq> None \<and> pg_EndCursor p \<noteq> Some []"

definition served ::
  "(nat \<Rightarrow> gql_request \<Rightarrow> issue_page result) \<Rightarrow> string \<Rightarrow> (string, gvalue) gmap \<Rightarrow> (nat \<Rightarrow> issue_page) \<Rightarrow> nat \<Rightarrow> bool"
  where
  "served ask query vars page n \<longleftrightarrow>
     (\<forall>i < n. ask i (page_request query vars (cursor_at page i)) = Inr (page i) \<and> announces (page i))"

definition issues_of :: "(nat \<Rightarrow> issue_page) \<Rightarrow> nat \<Rightarrow> issue list" where
  "issues_of page n = concat (map (\<lambda>i. map normalizeIssue (pg_Nodes (page i))) [0..<n])"

lemma paginate_announced:
  assumes "ask k (page_request query vars after) = Inr p" and "announces p"
  shows "paginateWith ask query vars k after all =
    paginateWith ask query vars (Suc k) (pg_EndCursor p) (all @ map normalizeIssue (pg_Nodes p))"
  using assms by (subst paginateWith.simps) (auto simp: announces_def Let_def)

lemma paginate_served:
  assumes "served ask query vars page n"
  shows "paginateWith ask query vars 0 None [] =
    paginateWith ask query vars n (cursor_at page n) (issues_of page n)"
  using assms
proof (induction n)
  case 0
  then show ?case by (simp add: cursor_at_def issues_of_def)
next
  case (Suc n)
  then have "served ask query vars page n" by (simp add: served_def)
  moreover have "ask n (page_request query vars (cursor_at page n)) = Inr (page n)" "announces (page n)"
    using Suc.prems by (simp_all add: served_def)
  ultimately show ?case
    using Suc.IH by (simp add: paginate_announced) (simp add: cursor_at_def issues_of_def)
qed

text \<open>A request that ends the loop: it failed, or its page announces no usable successor.\<close>

definition final :: "issue_page result \<Rightarrow> bool" where
  "final r \<longleftrightarrow> (case r of Inl _ \<Rightarrow> True | Inr p \<Rightarrow> \<not> announces p)"

definition outcome_at :: "(nat \<Rightarrow> issue_page) \<Rightarrow> nat \<Rightarrow> issue_page result \<Rightarrow> issue list result" where
  "outcome_at page n r = (case r of
     Inl e \<Rightarrow> Inl e
   | Inr p \<Rightarrow>
       if pg_HasNextPage p
       then Inl (TypedErr ''linear_missing_end_cursor'' ''page reports hasNextPage but omits endCursor'')
       else Inr (issues_of page n @ map normalizeIssue (pg_Nodes p)))"

lemma paginate_final:
  "final (ask k (page_request query vars after)) \<Longrightarrow>
     paginateWith ask query vars k after (issues_of page n) =
       Some (outcome_at page n (ask k (page_request query vars after)))"
  by (subst paginateWith.simps)
    (auto simp: final_def outcome_at_def announces_def Let_def split: sum.splits option.splits)

text \<open>From request \<open>k\<close> on every page announces the next, at the cursors \<open>cur\<close>.\<close>

definition endless ::
  "(nat \<Rightarrow> gql_request \<Rightarrow> issue_page result) \<Rightarrow> string \<Rightarrow> (string, gvalue) gmap \<Rightarrow> (nat \<Rightarrow> string option) \<Rightarrow> nat \<Rightarrow> bool"
  where
  "endless ask query vars cur k \<longleftrightarrow>
     (\<forall>i \<ge> k. \<exists>p. ask i (page_request query vars (cur i)) = Inr p \<and> announces p
        \<and> cur (Suc i) = pg_EndCursor p)"

lemma endless_step:
  assumes "endless ask query vars cur k"
  obtains p c where "ask k (page_request query vars (cur k)) = Inr p" "pg_HasNextPage p"
    "pg_EndCursor p = Some c" "c \<noteq> []" "cur (Suc k) = Some c" "endless ask query vars cur (Suc k)"
proof -
  from assms obtain p where p: "ask k (page_request query vars (cur k)) = Inr p" "announces p"
    "cur (Suc k) = pg_EndCursor p" by (auto simp: endless_def)
  moreover have "endless ask query vars cur (Suc k)" using assms by (simp add: endless_def)
  ultimately show thesis using that by (auto simp: announces_def)
qed

lemma paginate_endless:
  "paginateWith ask query vars k after all = Some r \<Longrightarrow> \<forall>cur. after = cur k \<longrightarrow> \<not> endless ask query vars cur k"
proof (induction rule: paginateWith.raw_induct [rotated, consumes 1, case_names step])
  case (step loop ask query vars k after all r)
  show ?case
  proof (intro allI impI notI)
    fix cur
    assume after: "after = cur k" and "endless ask query vars cur k"
    from this(2) obtain p c where p: "ask k (page_request query vars (cur k)) = Inr p" "pg_HasNextPage p"
      "pg_EndCursor p = Some c" "c \<noteq> []" "cur (Suc k) = Some c" "endless ask query vars cur (Suc k)"
      by (rule endless_step)
    have "loop ask query vars (Suc k) (Some c) (all @ map normalizeIssue (pg_Nodes p)) = Some r"
      using step(2) p by (simp add: after Let_def)
    from step(1) [OF this] p(5,6) show False by metis
  qed
qed

section \<open>Properties\<close>

lemma pages_outcome:
  assumes "served ask query vars page n"
    and "final (ask n (page_request query vars (cursor_at page n)))"
  shows "paginateWith ask query vars 0 None [] =
    Some (case ask n (page_request query vars (cursor_at page n)) of
        Inl e \<Rightarrow> Inl e
      | Inr p \<Rightarrow>
          if pg_HasNextPage p
          then Inl (TypedErr ''linear_missing_end_cursor'' ''page reports hasNextPage but omits endCursor'')
          else Inr (concat (map (\<lambda>i. map normalizeIssue (pg_Nodes (page i))) [0..<n])
                    @ map normalizeIssue (pg_Nodes p)))"
  unfolding paginate_served [OF assms(1)]
    paginate_final [where ask = ask and k = n and page = page and n = n, OF assms(2)]
  unfolding outcome_at_def issues_of_def ..

text \<open>Every failure of a request has one of four codes; a page with errors is never used.\<close>

lemma linear_do_error:
  "linear_do te c k req = Inl e \<Longrightarrow>
     err_code e \<in> {''linear_unknown_payload'', ''linear_api_request'', ''linear_api_status'', ''linear_graphql_errors''}"
  by (auto simp: linear_do_def split: sum.splits if_splits option.splits)

lemma clean_response: "gr_Data r = Some p \<Longrightarrow> gr_Errors r = [] \<Longrightarrow> r = \<lparr>gr_Data = Some p, gr_Errors = []\<rparr>"
  by (cases r) simp

lemma linear_do_page:
  "linear_do te c k req = Inr p \<Longrightarrow>
     \<exists>payload body. te_HTTP te k (graphql_request (lc_endpoint c) (lc_apiKey c) payload) = Inr (body, 200)
       \<and> te_Decode te body = Inr \<lparr>gr_Data = Some p, gr_Errors = []\<rparr>"
  by (auto simp: linear_do_def split: sum.splits if_splits option.splits) (blast dest: clean_response)

text \<open>
  C36: A fetch returns every issue of every page in the server's order, and nothing else,
  when the last page announces no successor; a failing request at any page, or a page that
  announces a successor without a cursor, makes the whole fetch an error, never a partial
  list. The error then has one of the five codes of the tracker, and the last page of a
  successful fetch was answered by the configured endpoint with status 200 and no GraphQL
  errors.
\<close>

theorem pagination_outcome:
  assumes "served (linear_do te c) query vars page n"
    and "final (linear_do te c n (page_request query vars (cursor_at page n)))"
  shows "case linear_do te c n (page_request query vars (cursor_at page n)) of
      Inl e \<Rightarrow> paginateWith (linear_do te c) query vars 0 None [] = Some (Inl e)
        \<and> err_code e \<in> {''linear_unknown_payload'', ''linear_api_request'', ''linear_api_status'', ''linear_graphql_errors''}
    | Inr p \<Rightarrow>
        (\<exists>payload body. te_HTTP te n (graphql_request (lc_endpoint c) (lc_apiKey c) payload) = Inr (body, 200)
           \<and> te_Decode te body = Inr \<lparr>gr_Data = Some p, gr_Errors = []\<rparr>)
        \<and> paginateWith (linear_do te c) query vars 0 None [] =
          Some (if pg_HasNextPage p
            then Inl (TypedErr ''linear_missing_end_cursor'' ''page reports hasNextPage but omits endCursor'')
            else Inr (concat (map (\<lambda>i. map normalizeIssue (pg_Nodes (page i))) [0..<n])
                      @ map normalizeIssue (pg_Nodes p)))"
proof (cases "linear_do te c n (page_request query vars (cursor_at page n))")
  case (Inl e)
  with pages_outcome [OF assms] linear_do_error [OF Inl] show ?thesis by (simp only: sum.case)
next
  case (Inr p)
  with pages_outcome [OF assms] linear_do_page [OF Inr] show ?thesis by (simp only: sum.case)
qed

definition ex_node :: "string \<Rightarrow> issue_node" where
  "ex_node iid = \<lparr>n_ID = iid, n_Identifier = iid, n_Title = ''t'', n_Description = None, n_Priority = VNil,
     n_BranchName = None, n_URL = None, n_CreatedAt = None, n_UpdatedAt = None, n_State = Some ''todo'',
     n_Assignee = None, n_Labels = None, n_Inverse = None\<rparr>"

text \<open>Two pages: the first is answered without a cursor in the request, the second with it.\<close>

definition ex_te :: tracker_env where
  "ex_te = \<lparr>te_Marshal = (\<lambda>v. case v of VMap m \<Rightarrow> (case vget m ''variables'' of
        VMap vs \<Rightarrow> Inr (if vget vs ''after'' = VStr ''c'' then ''2'' else ''1'') | _ \<Rightarrow> Inr []) | _ \<Rightarrow> Inr []),
     te_HTTP = (\<lambda>k r. Inr (hq_Body r, 200)),
     te_Decode = (\<lambda>b. Inr \<lparr>gr_Data = Some (if b = ''2''
          then \<lparr>pg_Nodes = [ex_node ''b''], pg_HasNextPage = False, pg_EndCursor = None\<rparr>
          else \<lparr>pg_Nodes = [ex_node ''a''], pg_HasNextPage = True, pg_EndCursor = Some ''c''\<rparr>), gr_Errors = []\<rparr>)\<rparr>"

definition ex_client :: linear_client where
  "ex_client = \<lparr>lc_endpoint = ''e'', lc_apiKey = ''k'', lc_projectSlug = ''p'', lc_activeStates = [], lc_pageSize = 50\<rparr>"

theorem pagination_outcome_witness:
  "paginateWith (linear_do ex_te ex_client) ''q'' [] 0 None [] = Some (Inr (map normalizeIssue [ex_node ''a'', ex_node ''b'']))"
proof -
  let ?p = "\<lambda>i :: nat. \<lparr>pg_Nodes = [ex_node ''a''], pg_HasNextPage = True, pg_EndCursor = Some ''c''\<rparr>"
  note eval = linear_do_def ex_te_def page_request_def cursor_at_def vget_def map_get_def map_put_def
    graphql_request_def
  have first: "served (linear_do ex_te ex_client) ''q'' [] ?p 1"
    by (simp add: served_def eval announces_def)
  have last: "linear_do ex_te ex_client 1 (page_request ''q'' [] (cursor_at ?p 1))
      = Inr \<lparr>pg_Nodes = [ex_node ''b''], pg_HasNextPage = False, pg_EndCursor = None\<rparr>"
    by (simp add: eval)
  then have "final (linear_do ex_te ex_client 1 (page_request ''q'' [] (cursor_at ?p 1)))"
    by (simp add: final_def announces_def)
  from pagination_outcome [OF first this] last show ?thesis by simp
qed

text \<open>
  C37: The loop over the pages returns exactly when some request ends it; a server that
  announces a further page with a cursor each time keeps it running, since the code bounds
  neither the number of pages nor checks that the cursor changes.
\<close>

theorem pagination_returns_iff:
  "(\<exists>r. paginateWith ask query vars 0 None [] = Some r) \<longleftrightarrow>
     (\<exists>n page. served ask query vars page n \<and> final (ask n (page_request query vars (cursor_at page n))))"
proof
  assume "\<exists>n page. served ask query vars page n \<and> final (ask n (page_request query vars (cursor_at page n)))"
  then show "\<exists>r. paginateWith ask query vars 0 None [] = Some r"
    using paginate_served paginate_final by fastforce
next
  assume "\<exists>r. paginateWith ask query vars 0 None [] = Some r"
  then obtain r where r: "paginateWith ask query vars 0 None [] = Some r" ..
  define cur where "cur = rec_nat None (\<lambda>i c. case ask i (page_request query vars c) of
      Inl _ \<Rightarrow> None | Inr p \<Rightarrow> pg_EndCursor p)"
  define page where "page i = projr (ask i (page_request query vars (cur i)))" for i
  have cur: "cur 0 = None" "ask i (page_request query vars (cur i)) = Inr p \<Longrightarrow> cur (Suc i) = pg_EndCursor p" for i p
    by (simp_all add: cur_def)
  have "\<not> endless ask query vars cur 0" using paginate_endless [OF r] cur(1) by simp
  then have ex: "\<exists>i. final (ask i (page_request query vars (cur i)))"
    using cur(2) by (fastforce simp: endless_def final_def split: sum.splits)
  define n where "n = (LEAST i. final (ask i (page_request query vars (cur i))))"
  have n: "final (ask n (page_request query vars (cur n)))"
    "\<And>i. i < n \<Longrightarrow> \<not> final (ask i (page_request query vars (cur i)))"
    using LeastI_ex [OF ex] not_less_Least by (auto simp: n_def)
  have ok: "ask i (page_request query vars (cur i)) = Inr (page i) \<and> announces (page i)" if "i < n" for i
    using n(2) [OF that] by (auto simp: final_def page_def split: sum.splits)
  have cc: "cursor_at page i = cur i" if "i \<le> n" for i
    using that ok cur by (cases i) (auto simp: cursor_at_def)
  have "served ask query vars page n" using ok cc by (simp add: served_def)
  then show "\<exists>n page. served ask query vars page n
      \<and> final (ask n (page_request query vars (cursor_at page n)))"
    using n(1) cc [OF order_refl] by (intro exI [of _ n] exI [of _ page]) simp
qed

text \<open>
  A timestamp in the format the tracker sends (UTC, whole seconds, a valid date) is read
  as the instant it denotes; the epoch and a leap day serve as anchors of the calendar.
\<close>

lemma parseTime_reads_back:
  assumes "y < 10000" and "1 \<le> mo" and "mo \<le> 12" and "1 \<le> d" and "d \<le> days_in mo y"
    and "h < 24" and "mi < 60" and "s < 60"
  shows "parseTime (Some (format_rfc3339 y mo d h mi s)) = Some (unix_seconds y mo d h mi s * 1000000000)"
  using parse_format [OF assms] by (simp add: parseTime_def format_rfc3339_def pad4_def pad2_def)

lemma parseTime_reads_anchors:
  "parseTime (Some ''1970-01-01T00:00:00Z'') = Some 0
   \<and> parseTime (Some ''2024-02-29T12:30:05Z'') = Some (1709209805 * 1000000000)"
proof -
  have "format_rfc3339 1970 1 1 0 0 0 = ''1970-01-01T00:00:00Z''"
    "format_rfc3339 2024 2 29 12 30 5 = ''2024-02-29T12:30:05Z''"
    by (simp_all add: format_rfc3339_def pad4_def pad2_def num_char_def char_of_def bit_Suc_0_iff)
  moreover have "unix_seconds 1970 1 1 0 0 0 = 0" "unix_seconds 2024 2 29 12 30 5 = 1709209805"
    by (simp_all add: unix_seconds_def days_before_year_def days_before_month_def epoch_day_def
        upt_rec days_in_def leap_year_def)
  ultimately show ?thesis
    using parseTime_reads_back [of 1970 1 1 0 0 0] parseTime_reads_back [of 2024 2 29 12 30 5]
    by (simp add: days_in_def leap_year_def)
qed

end
