(* ===== verification/TrackerClient.thy ===== *)
theory TrackerClient
  imports Dispatch LinearAPI
begin

text \<open>
  The interface \<^verbatim>\<open>tracker.Client\<close> (tracker.go) between the orchestrator and the Linear adapter.
  What the orchestrator relies on is a locale: a fetch gives nothing but issues the tracker
  presents, and asking for no states or no ids gives none. The adapter provides it, with the issues
  of the pages the service has answered.
\<close>

section \<open>The contract\<close>

definition new_spawns :: "env \<Rightarrow> event \<Rightarrow> orch \<Rightarrow> (issue \<times> int option) list" where
  "new_spawns env e ob = drop (length (spawned (o_out ob))) (spawned (o_out (handle env e ob)))"

text \<open>Only a tick and a retry timer start workers, of the candidates of that moment.\<close>

lemma spawned_dispatch [simp]:
  "spawned (o_out (dispatchIssue env i a ob)) = spawned (o_out ob) @ [(i, a)]"
  by (simp add: dispatchIssue_out)

lemma spawned_scheduleRetry [simp]:
  "spawned (o_out (scheduleRetry env iid a ident url msg c ob)) = spawned (o_out ob)"
  by (simp add: scheduleRetry_out)

lemma onRetryTimer_spawned:
  assumes "(i, a) \<in> set (drop (length (spawned (o_out ob))) (spawned (o_out (onRetryTimer env iid ob))))"
  shows "\<exists>cs. e_candidates env (o_tracker ob) = Inr cs \<and> i \<in> set cs \<and> isEligible (o_cfg ob) i
    \<and> i_ID i \<in> map_keys (retries ob)"
  using assms
  by (auto simp: onRetryTimer_def Let_def release_claim_def dest!: findByID_SomeD dest: gm.get_SomeD
      split: option.splits sum.splits if_splits)

lemma new_spawns_candidates:
  assumes "orch_inv ob" and "(i, a) \<in> set (new_spawns env e ob)"
  shows "\<exists>cs. e_candidates env (o_tracker ob) = Inr cs \<and> i \<in> set cs \<and> isEligible (o_cfg ob) i
    \<and> i_ID i \<notin> map_keys (running ob)"
proof (cases e)
  case TickEvent
  then have i: "i \<in> set (tick_picks env ob)" using assms by (auto simp: new_spawns_def onTick_spawned)
  then have "i \<in> set (tick_candidates env ob)"
    using list_emb_set [OF tick_picks_facts(1) i] by auto
  then show ?thesis
    using tick_picks_facts(3) [OF i] state_invD(3) [OF assms(1)] reconcile_moves [of env ob]
    by (auto simp: tick_candidates_def split: if_splits sum.splits)
next
  case (RetryTimerFired iid)
  then show ?thesis
    using onRetryTimer_spawned [of i a ob env iid] assms(2) state_invD(4) [OF assms(1)]
    by (auto simp: new_spawns_def)
next
  case (AgentUpdate iid m)
  with assms(2) show ?thesis by (simp add: new_spawns_def onAgentUpdate_def split: option.splits)
next
  case (WorkerExit iid reason err)
  with assms(2) show ?thesis
    by (auto simp: new_spawns_def onWorkerExit_def Let_def split: option.splits if_splits)
next
  case (ReloadConfig cfg tmpl)
  with assms(2) show ?thesis by (simp add: new_spawns_def onReload_def Let_def split: sum.splits)
qed (use assms(2) in \<open>simp_all add: new_spawns_def\<close>)

text \<open>What the orchestrator relies on, and what it gets from it.\<close>

locale tracker_client =
  fixes candidates :: "linear_client \<Rightarrow> issue list result option"
    and by_states :: "linear_client \<Rightarrow> string list \<Rightarrow> issue list result option"
    and by_ids :: "linear_client \<Rightarrow> string list \<Rightarrow> issue list result option"
    and presents :: "linear_client \<Rightarrow> issue \<Rightarrow> bool"
  assumes candidates_presented: "candidates c = Some (Inr is) \<Longrightarrow> i \<in> set is \<Longrightarrow> presents c i"
    and states_presented: "by_states c sts = Some (Inr is) \<Longrightarrow> i \<in> set is \<Longrightarrow> presents c i"
    and ids_presented: "by_ids c ids = Some (Inr is) \<Longrightarrow> i \<in> set is \<Longrightarrow> presents c i"
    and no_states: "by_states c [] = Some (Inr [])"
    and no_ids: "by_ids c [] = Some (Inr [])"
begin

lemma spawned_presented:
  assumes "orch_inv ob" and "(i, a) \<in> set (new_spawns env e ob)"
    and "candidates (o_tracker ob) = Some (e_candidates env (o_tracker ob))"
  shows "presents (o_tracker ob) i \<and> isEligible (o_cfg ob) i \<and> i_ID i \<notin> map_keys (running ob)"
  using new_spawns_candidates [OF assms(1,2)] candidates_presented assms(3) by metis

lemma cleanups_presented:
  assumes "by_states (o_tracker ob) (tc_TerminalStates (c_Tracker (o_cfg ob)))
      = Some (e_by_states env (o_tracker ob) (tc_TerminalStates (c_Tracker (o_cfg ob))))"
    and "ECleanup ident \<in> set (drop (length (o_out ob)) (o_out (startupTerminalCleanup env ob)))"
  shows "tc_TerminalStates (c_Tracker (o_cfg ob)) \<noteq> []
    \<and> (\<exists>i. presents (o_tracker ob) i \<and> i_Identifier i = ident)"
  using assms no_states [of "o_tracker ob"]
  by (auto simp: startupTerminalCleanup_def dest: states_presented split: sum.splits)

end

section \<open>The Linear adapter\<close>

text \<open>An issue on a page the service has answered without errors to a request of this client.\<close>

definition answered_node :: "tracker_env \<Rightarrow> linear_client \<Rightarrow> issue_node \<Rightarrow> bool" where
  "answered_node te c n \<longleftrightarrow>
     (\<exists>k payload body p. te_HTTP te k (graphql_request (lc_endpoint c) (lc_apiKey c) payload) = Inr (body, 200)
        \<and> te_Decode te body = Inr \<lparr>gr_Data = Some p, gr_Errors = []\<rparr> \<and> n \<in> set (pg_Nodes p))"

definition answered_issue :: "tracker_env \<Rightarrow> linear_client \<Rightarrow> issue \<Rightarrow> bool" where
  "answered_issue te c i \<longleftrightarrow> (\<exists>n. answered_node te c n \<and> i = normalizeIssue n)"

lemma linear_do_answered: "linear_do te c k req = Inr p \<Longrightarrow> n \<in> set (pg_Nodes p) \<Longrightarrow> answered_node te c n"
  using linear_do_page unfolding answered_node_def by metis

lemma paginate_answered:
  "paginateWith ask query vars k after all = Some r \<Longrightarrow>
     \<forall>te c is. ask = linear_do te c \<longrightarrow> list_all (answered_issue te c) all \<longrightarrow> r = Inr is \<longrightarrow>
       list_all (answered_issue te c) is"
proof (induction rule: paginateWith.raw_induct [rotated, consumes 1, case_names step])
  case (step loop ask query vars k after all r)
  show ?case
  proof (intro allI impI)
    fix te c "is"
    assume ask: "ask = linear_do te c" and all: "list_all (answered_issue te c) all" and r: "r = Inr is"
    obtain p where p: "linear_do te c k (page_request query vars after) = Inr p"
      using step(2) r by (auto simp: ask split: sum.splits)
    let ?all = "all @ map normalizeIssue (pg_Nodes p)"
    have good: "list_all (answered_issue te c) ?all"
      using all linear_do_answered [OF p] by (auto simp: list_all_iff answered_issue_def)
    show "list_all (answered_issue te c) is"
    proof (cases "pg_HasNextPage p")
      case False
      then have "is = ?all" using step(2) p by (simp add: ask r)
      with good show ?thesis by simp
    next
      case True
      then obtain cur where "loop ask query vars (Suc k) (Some cur) ?all = Some (Inr is)"
        using step(2) p by (cases "pg_EndCursor p") (simp_all add: ask r split: if_splits)
      from step(1) [OF this] ask good show ?thesis by simp
    qed
  qed
qed

lemma fetch_answered:
  assumes "paginateWith (linear_do te c) query vars 0 None [] = Some (Inr is)" and "i \<in> set is"
  shows "answered_issue te c i"
  using paginate_answered [OF assms(1)] assms(2) by (simp add: list_all_iff)

interpretation linear: tracker_client
  "\<lambda>c. FetchCandidateIssues (linear_do te c) c" "\<lambda>c. FetchIssuesByStates (linear_do te c) c"
  "\<lambda>c. FetchIssueStatesByIDs (linear_do te c) c" "answered_issue te"
  for te
  by unfold_locales
    (auto simp: FetchCandidateIssues_def FetchIssuesByStates_def FetchIssueStatesByIDs_def paginateIssues_def
      split: if_splits intro: fetch_answered)

end
