(* ===== verification/Runner.thy ===== *)
theory Runner
  imports Orchestrator
begin

text \<open>
  Package \<^verbatim>\<open>agent\<close> (runner.go): one worker attempt. What the runner calls (workspace
  manager, prompt rendering, agent backend, tracker) is the record \<open>worker_env\<close> of the
  outcomes of these calls, per turn where they are made per turn; a run returns the list
  of the calls it made, in order, and its error (\<open>None\<close> for a normal exit).
\<close>

record runner =
  rn_template :: string
  rn_promptOverride :: bool
  rn_activeStates :: "string list"
  rn_maxTurns :: int

definition NewRunner :: "runner_config \<Rightarrow> runner" where
  "NewRunner cfg =
     \<lparr>rn_template = rc_Template cfg, rn_promptOverride = rc_PromptOverride cfg,
      rn_activeStates = map NormalizeState (rc_ActiveStates cfg),
      rn_maxTurns = (if rc_MaxTurns cfg \<le> 0 then 1 else rc_MaxTurns cfg)\<rparr>"

record worker_env =
  we_Create :: "string \<Rightarrow> workspace result"
  we_RunHook :: "string \<Rightarrow> string \<Rightarrow> go_error option"
  we_AssertCWD :: "string \<Rightarrow> string \<Rightarrow> go_error option"
  we_Render :: "string \<Rightarrow> issue \<Rightarrow> int option \<Rightarrow> string result"
  we_RunTurn :: "int \<Rightarrow> string \<Rightarrow> agent_event list \<times> usage option result"
  we_Refresh :: "int \<Rightarrow> string list \<Rightarrow> issue list result"

datatype wk_op =
    WCreate string
  | WHook string string
  | WStart string string string
  | WTurn int string
  | WEmit agent_event
  | WRefresh "string list"
  | WStop

definition isActive :: "runner \<Rightarrow> string \<Rightarrow> bool" where
  "isActive r state \<longleftrightarrow> NormalizeState state \<in> set (rn_activeStates r)"

definition mergeState :: "issue \<Rightarrow> issue \<Rightarrow> issue" where
  "mergeState orig refreshed =
     (if i_State refreshed \<noteq> [] then orig\<lparr>i_State := i_State refreshed\<rparr> else orig)
       \<lparr>i_Labels := i_Labels refreshed\<rparr>"

definition newline :: string where "newline = [CHR 0x0A]"

definition buildTurnPrompt :: "worker_env \<Rightarrow> runner \<Rightarrow> issue \<Rightarrow> int option \<Rightarrow> int \<Rightarrow> string result" where
  "buildTurnPrompt we r issue attempt turn =
     (if turn = 1 then we_Render we (rn_template r) issue attempt
      else if rn_promptOverride r then
        Inr (''Continue with '' @ i_Identifier issue @ '': '' @ i_Title issue @ newline @ newline
          @ ''The issue is still active. Keep following your original task instructions above. ''
          @ ''Do not restart from scratch; build on what you have already done in this session.'')
      else
        Inr (''Continue working on '' @ i_Identifier issue @ '': '' @ i_Title issue @ newline @ newline
          @ ''The issue is still active. Review what remains to be done and continue. ''
          @ ''Do not restart from scratch; build on the work already in this session.''))"

text \<open>\<^verbatim>\<open>StopSession\<close> and the best-effort after_run hook, which end every started session.\<close>

definition finish :: "string \<Rightarrow> wk_op list" where
  "finish path = [WStop, WHook ''after_run'' path]"

definition refreshed_issue :: "issue \<Rightarrow> issue list \<Rightarrow> issue" where
  "refreshed_issue issue refreshed =
     (case refreshed of [] \<Rightarrow> issue | x # _ \<Rightarrow> mergeState issue x)"

text \<open>The turn loop.\<close>

function turn_loop :: "worker_env \<Rightarrow> runner \<Rightarrow> string \<Rightarrow> string \<Rightarrow> int option \<Rightarrow> issue \<Rightarrow> int
  \<Rightarrow> wk_op list \<times> go_error option" where
  "turn_loop we r dispatchState path attempt issue turn =
     (case buildTurnPrompt we r issue attempt turn of
        Inl e \<Rightarrow> (finish path, Some (PlainErr (''prompt error: '' @ error_string e)))
      | Inr p \<Rightarrow>
        (let run = we_RunTurn we turn p; ops = WTurn turn p # map WEmit (fst run)
         in case snd run of
              Inl e \<Rightarrow> (ops @ finish path, Some (PlainErr (''agent turn error: '' @ error_string e)))
            | Inr _ \<Rightarrow>
              (let ops = ops @ [WRefresh [i_ID issue]]
               in case we_Refresh we turn [i_ID issue] of
                    Inl e \<Rightarrow> (ops @ finish path,
                              Some (PlainErr (''issue state refresh error: '' @ error_string e)))
                  | Inr refreshed \<Rightarrow>
                    (let issue' = refreshed_issue issue refreshed
                     in if \<not> isActive r (i_State issue') then (ops @ finish path, None)
                        else if NormalizeState (i_State issue') \<noteq> dispatchState
                          then (ops @ finish path, None)
                        else if rn_maxTurns r \<le> turn then (ops @ finish path, None)
                        else (let rest = turn_loop we r dispatchState path attempt issue' (turn + 1)
                              in (ops @ fst rest, snd rest))))))"
  by pat_completeness auto
termination
  by (relation "measure (\<lambda>(we, r, d, path, a, issue, turn). nat (rn_maxTurns r - turn))") auto

declare turn_loop.simps [simp del]

definition run_worker :: "worker_env \<Rightarrow> runner \<Rightarrow> issue \<Rightarrow> int option \<Rightarrow> wk_op list \<times> go_error option" where
  "run_worker we r issue attempt =
     (let ident = i_Identifier issue
      in case we_Create we ident of
           Inl e \<Rightarrow> ([WCreate ident], Some (PlainErr (''workspace error: '' @ error_string e)))
         | Inr ws \<Rightarrow>
           (let path = w_Path ws; ops = [WCreate ident, WHook ''before_run'' path]
            in case we_RunHook we ''before_run'' path of
                 Some e \<Rightarrow> (ops, Some (PlainErr (''before_run hook error: '' @ error_string e)))
               | None \<Rightarrow>
                 (case we_AssertCWD we ident path of
                    Some e \<Rightarrow> (ops @ [WHook ''after_run'' path],
                               Some (PlainErr (''workspace safety error: '' @ error_string e)))
                  | None \<Rightarrow>
                    (let rest = turn_loop we r (NormalizeState (i_State issue)) path attempt issue 1
                     in (ops @ [WStart path ident (i_Title issue)] @ fst rest, snd rest)))))"

section \<open>Turns\<close>

fun turns_of :: "wk_op list \<Rightarrow> int list" where
  "turns_of [] = []"
| "turns_of (WTurn n p # ops) = n # turns_of ops"
| "turns_of (_ # ops) = turns_of ops"

lemma turns_of_append [simp]: "turns_of (xs @ ys) = turns_of xs @ turns_of ys"
  by (induction xs rule: turns_of.induct) auto

lemma turns_of_emits [simp]: "turns_of (map WEmit evs) = []"
  by (induction evs) auto

lemma turns_of_finish [simp]: "turns_of (finish path) = []"
  by (simp add: finish_def)

text \<open>One unfolding of the loop: it either ends after this turn or continues with the next.\<close>

lemma turn_loop_cases:
  obtains (prompt_error) e where "buildTurnPrompt we r issue attempt turn = Inl e"
      "turn_loop we r d path attempt issue turn
         = (finish path, Some (PlainErr (''prompt error: '' @ error_string e)))"
  | (ends) p evs refresh res where "buildTurnPrompt we r issue attempt turn = Inr p"
      "refresh = [] \<or> refresh = [WRefresh [i_ID issue]]" "evs = fst (we_RunTurn we turn p)"
      "turn_loop we r d path attempt issue turn
         = (WTurn turn p # map WEmit evs @ refresh @ finish path, res)"
      "res = None \<Longrightarrow> \<exists>is. we_Refresh we turn [i_ID issue] = Inr is \<and>
         (let st = i_State (refreshed_issue issue is) in
            \<not> isActive r st \<or> NormalizeState st \<noteq> d \<or> rn_maxTurns r \<le> turn)"
  | (continues) p evs u "is" where "buildTurnPrompt we r issue attempt turn = Inr p"
      "we_RunTurn we turn p = (evs, Inr u)"
      "we_Refresh we turn [i_ID issue] = Inr is"
      "isActive r (i_State (refreshed_issue issue is))"
      "NormalizeState (i_State (refreshed_issue issue is)) = d" "turn < rn_maxTurns r"
      "turn_loop we r d path attempt issue turn =
         (WTurn turn p # map WEmit evs @ WRefresh [i_ID issue]
            # fst (turn_loop we r d path attempt (refreshed_issue issue is) (turn + 1)),
          snd (turn_loop we r d path attempt (refreshed_issue issue is) (turn + 1)))"
proof (cases "buildTurnPrompt we r issue attempt turn")
  case (Inl e)
  then show thesis
    by (intro prompt_error [of e]) (simp_all add: turn_loop.simps [of we r d path attempt issue turn])
next
  case (Inr p)
  note loop = turn_loop.simps [of we r d path attempt issue turn]
  let ?run = "we_RunTurn we turn p"
  show thesis
  proof (cases "snd ?run")
    case (Inl e)
    with Inr show thesis
      by (intro ends [of p "[]" "fst ?run" "Some (PlainErr (''agent turn error: '' @ error_string e))"])
        (simp_all add: loop Let_def)
  next
    case run: (Inr u)
    show thesis
    proof (cases "we_Refresh we turn [i_ID issue]")
      case (Inl e)
      with Inr run show thesis
        by (intro ends [of p "[WRefresh [i_ID issue]]" "fst ?run"
              "Some (PlainErr (''issue state refresh error: '' @ error_string e))"])
          (simp_all add: loop Let_def)
    next
      case refr: (Inr "is")
      let ?st = "i_State (refreshed_issue issue is)"
      show thesis
      proof (cases "isActive r ?st \<and> NormalizeState ?st = d \<and> turn < rn_maxTurns r")
        case True
        with Inr run refr show thesis
          by (intro continues [of p "fst ?run" u "is"]) (simp_all add: loop Let_def prod_eq_iff)
      next
        case False
        with Inr run refr show thesis
          by (intro ends [of p "[WRefresh [i_ID issue]]" "fst ?run" None])
            (auto simp: loop Let_def)
      qed
    qed
  qed
qed

lemma turn_loop_turns:
  "\<exists>n. turns_of (fst (turn_loop we r d path attempt issue turn)) = [turn..n]
     \<and> turn - 1 \<le> n \<and> n \<le> max turn (rn_maxTurns r)"
proof (induction we r d path attempt issue turn rule: turn_loop.induct)
  case (1 we r d path attempt issue turn)
  show ?case
  proof (cases rule: turn_loop_cases [where we = we and r = r and d = d and path = path
        and attempt = attempt and issue = issue and turn = turn])
    case (prompt_error e)
    then show ?thesis by (intro exI [of _ "turn - 1"]) simp
  next
    case (ends p evs refresh res)
    then show ?thesis by (intro exI [of _ turn]) auto
  next
    case (continues p evs u "is")
    with 1 obtain n where
      "turns_of (fst (turn_loop we r d path attempt (refreshed_issue issue is) (turn + 1))) = [turn + 1..n]"
      "turn \<le> n" "n \<le> max (turn + 1) (rn_maxTurns r)"
      by (fastforce simp: not_le)
    with continues show ?thesis by (intro exI [of _ n]) (auto simp: upto.simps [of turn])
  qed
qed

section \<open>What a run goes through\<close>

text \<open>The issue as the run sees it after the refresh of turn \<open>k\<close>.\<close>

fun issue_at :: "worker_env \<Rightarrow> issue \<Rightarrow> nat \<Rightarrow> issue" where
  "issue_at we issue 0 = issue"
| "issue_at we issue (Suc k) =
     (case we_Refresh we (int (Suc k)) [i_ID issue] of
        Inl _ \<Rightarrow> issue_at we issue k
      | Inr is \<Rightarrow> refreshed_issue (issue_at we issue k) is)"

lemma refreshed_issue_ID [simp]: "i_ID (refreshed_issue issue is) = i_ID issue"
  by (simp add: refreshed_issue_def mergeState_def split: list.splits)

lemma refreshed_issue_names [simp]:
  "i_Identifier (refreshed_issue issue is) = i_Identifier issue"
  "i_Title (refreshed_issue issue is) = i_Title issue"
  by (simp_all add: refreshed_issue_def mergeState_def split: list.splits)

lemma issue_at_ID [simp]: "i_ID (issue_at we issue k) = i_ID issue"
  by (induction k) (simp_all split: sum.splits)

definition stays :: "runner \<Rightarrow> string \<Rightarrow> issue \<Rightarrow> bool" where
  "stays r d i \<longleftrightarrow> isActive r (i_State i) \<and> NormalizeState (i_State i) = d"

text \<open>
  From turn \<open>Suc k\<close> on: the last turn \<open>n\<close> is within the budget, every turn before it left
  the issue active in the state of dispatch, and a normal exit has one of the three
  reasons of the code.
\<close>

lemma turn_loop_run:
  assumes "i = issue_at we issue k"
  shows "\<exists>n. turns_of (fst (turn_loop we r d path attempt i (int (Suc k)))) = [int (Suc k)..int n]
    \<and> k \<le> n \<and> int n \<le> max (int (Suc k)) (rn_maxTurns r)
    \<and> (\<forall>j. k < j \<and> j < n \<longrightarrow> stays r d (issue_at we issue j))
    \<and> (snd (turn_loop we r d path attempt i (int (Suc k))) = None \<longrightarrow>
         k < n \<and> (\<not> stays r d (issue_at we issue n) \<or> rn_maxTurns r \<le> int n))"
  using assms
proof (induction "nat (rn_maxTurns r - int k)" arbitrary: k i rule: less_induct)
  case less
  show ?case
  proof (cases rule: turn_loop_cases [where we = we and r = r and d = d and path = path
        and attempt = attempt and issue = i and turn = "int (Suc k)"])
    case (prompt_error e)
    then show ?thesis by (intro exI [of _ k]) (auto simp: le_max_iff_disj)
  next
    case (ends p evs refresh res)
    then show ?thesis
      using less.prems by (intro exI [of _ "Suc k"]) (auto simp: stays_def Let_def)
  next
    case (continues p evs u "is")
    let ?i' = "refreshed_issue i is"
    have i': "?i' = issue_at we issue (Suc k)" using continues(3) less.prems by simp
    have st: "stays r d (issue_at we issue (Suc k))"
      using continues(4,5) i' by (simp add: stays_def)
    have lt: "nat (rn_maxTurns r - int (Suc k)) < nat (rn_maxTurns r - int k)"
      using continues(6) by simp
    let ?l = "\<lambda>n. turns_of (fst (turn_loop we r d path attempt ?i' (int (Suc (Suc k)))))
          = [int (Suc (Suc k))..int n]
      \<and> Suc k \<le> n \<and> int n \<le> max (int (Suc (Suc k))) (rn_maxTurns r)
      \<and> (\<forall>j. Suc k < j \<and> j < n \<longrightarrow> stays r d (issue_at we issue j))
      \<and> (snd (turn_loop we r d path attempt ?i' (int (Suc (Suc k)))) = None \<longrightarrow>
         Suc k < n \<and> (\<not> stays r d (issue_at we issue n) \<or> rn_maxTurns r \<le> int n))"
    have "\<exists>n. ?l n" by (rule less.hyps [OF lt i'])
    then obtain n where n: "?l n" ..
    have stay: "\<forall>j. k < j \<and> j < n \<longrightarrow> stays r d (issue_at we issue j)"
      using conjunct1 [OF conjunct2 [OF conjunct2 [OF conjunct2 [OF n]]]] st
      by (metis Suc_lessI)
    have le: "Suc k \<le> n" and le': "int n \<le> max (int (Suc (Suc k))) (rn_maxTurns r)"
      using n by blast+
    have up: "[int (Suc k)..int n] = int (Suc k) # [int (Suc (Suc k))..int n]"
      using le upto.simps [of "int (Suc k)" "int n"] by (simp add: algebra_simps)
    have bound: "k \<le> n" "int n \<le> max (int (Suc k)) (rn_maxTurns r)"
      using le le' continues(6) by linarith+
    have sc: "int (Suc k) + 1 = int (Suc (Suc k))" by simp
    have eq: "turns_of (fst (turn_loop we r d path attempt i (int (Suc k)))) = [int (Suc k)..int n]"
      "snd (turn_loop we r d path attempt i (int (Suc k)))
         = snd (turn_loop we r d path attempt ?i' (int (Suc (Suc k))))"
      unfolding continues(7) up sc using conjunct1 [OF n] by simp_all
    show ?thesis
      unfolding eq using stay bound n by (intro exI [of _ n] conjI refl) (blast dest: Suc_lessD)+
  qed
qed

text \<open>Every run of the loop ends with the two closing calls, with turn operations before them.\<close>

definition turn_op :: "string \<Rightarrow> wk_op \<Rightarrow> bool" where
  "turn_op iid x \<longleftrightarrow> (\<exists>n p. x = WTurn n p) \<or> (\<exists>e. x = WEmit e) \<or> x = WRefresh [iid]"

lemma turn_op_simps [simp]:
  "turn_op iid (WTurn n p)" "turn_op iid (WEmit e)" "turn_op iid (WRefresh ids) \<longleftrightarrow> ids = [iid]"
  by (simp_all add: turn_op_def)


section \<open>The launch contract at work\<close>

text \<open>
  With a workspace manager that satisfies \<open>launch_contract\<close> the safety branch of the run
  is never taken: the run starts the session in the created workspace or has failed before.
\<close>

context launch_contract
begin

lemma run_worker_launches:
  assumes "ok m" and "we_Create we = create e m" and "we_AssertCWD we = assert_cwd e m"
    and "create e m (i_Identifier issue) = Inr ws"
    and "we_RunHook we ''before_run'' (w_Path ws) = None"
  shows "WStart (w_Path ws) (i_Identifier issue) (i_Title issue) \<in> set (fst (run_worker we r issue attempt))"
  using assms launchable [OF assms(1,4)] by (simp add: run_worker_def Let_def)

end

section \<open>Properties\<close>

definition ex_rc :: runner_config where
  "ex_rc = \<lparr>rc_Command = ''claude'', rc_Model = [], rc_ReasoningEffort = [], rc_ResumeAcrossTurns = True,
     rc_TurnTimeoutMs = 0, rc_ReadTimeoutMs = 0,
     rc_Workspace = ex_manager,
     rc_Tracker = \<lparr>lc_endpoint = [], lc_apiKey = ''k'', lc_projectSlug = ''p'', lc_activeStates = [''todo''],
       lc_pageSize = 50\<rparr>,
     rc_Template = ''work'', rc_PromptOverride = False, rc_ActiveStates = [''todo'', ''doing''], rc_MaxTurns = 3\<rparr>"

definition ex_worker_issue :: issue where
  "ex_worker_issue = zero_issue\<lparr>i_ID := ''1'', i_Identifier := ''a'', i_Title := ''t'', i_State := ''todo''\<rparr>"

text \<open>The tracker moves the issue on to another active state after the second turn.\<close>

definition ex_we :: worker_env where
  "ex_we = \<lparr>we_Create = (\<lambda>_. Inr \<lparr>w_Path = ''/w/ws/a'', w_Key = ''a'', w_CreatedNow = True\<rparr>),
     we_RunHook = (\<lambda>_ _. None), we_AssertCWD = (\<lambda>_ _. None), we_Render = (\<lambda>t _ _. Inr t),
     we_RunTurn = (\<lambda>_ _. ([], Inr None)),
     we_Refresh = (\<lambda>n _. Inr [ex_worker_issue\<lparr>i_State := (if n < 2 then ''todo'' else ''doing'')\<rparr>])\<rparr>"

lemma run_worker_cases:
  obtains (fails) "turns_of (fst (run_worker we r issue attempt)) = []"
      "\<forall>x \<in> set (fst (run_worker we r issue attempt)). \<exists>i n p. x = WCreate i \<or> x = WHook n p"
      "snd (run_worker we r issue attempt) \<noteq> None"
  | (loops) path ws where
      "run_worker we r issue attempt =
         ([WCreate (i_Identifier issue), WHook ''before_run'' path, WStart path (i_Identifier issue) (i_Title issue)]
            @ fst (turn_loop we r (NormalizeState (i_State issue)) path attempt issue 1),
          snd (turn_loop we r (NormalizeState (i_State issue)) path attempt issue 1))"
      "we_Create we (i_Identifier issue) = Inr ws" "path = w_Path ws" "we_RunHook we ''before_run'' path = None"
proof (cases "we_Create we (i_Identifier issue)")
  case (Inl e)
  then show thesis by (intro fails) (simp_all add: run_worker_def Let_def)
next
  case (Inr ws)
  show thesis
  proof (cases "we_RunHook we ''before_run'' (w_Path ws)")
    case None
    show thesis
    proof (cases "we_AssertCWD we (i_Identifier issue) (w_Path ws)")
      case safe: None
      show thesis
        by (rule loops [OF _ Inr refl None]) (simp add: run_worker_def Let_def Inr None safe)
    next
      case (Some e)
      with Inr None show thesis by (intro fails) (simp_all add: run_worker_def Let_def)
    qed
  next
    case (Some e)
    with Inr show thesis by (intro fails) (simp_all add: run_worker_def Let_def)
  qed
qed

lemma run_worker_turns:
  "int (length (turns_of (fst (run_worker we r issue attempt)))) \<le> max 1 (rn_maxTurns r)"
proof (cases rule: run_worker_cases [where we = we and r = r and issue = issue and attempt = attempt])
  case fails
  then show ?thesis by simp
next
  case (loops path ws)
  obtain n where "turns_of (fst (turn_loop we r (NormalizeState (i_State issue)) path attempt issue 1)) = [1..n]"
    "0 \<le> n" "n \<le> max 1 (rn_maxTurns r)"
    using turn_loop_turns [of we r "NormalizeState (i_State issue)" path attempt issue 1] by auto
  then show ?thesis by (simp add: loops)
qed

text \<open>
  C29: A run takes its turns one after the other from 1 and never more than the budget (at
  least one); every turn but the last left the issue active and in the state it was
  dispatched for; and a normal exit means that it left that state or the budget is used up.
\<close>

theorem run_within_budget:
  "\<exists>n. turns_of (fst (run_worker we (NewRunner cfg) issue attempt)) = [1..int n]
    \<and> int n \<le> max 1 (rc_MaxTurns cfg)
    \<and> (\<forall>j. 0 < j \<and> j < n \<longrightarrow>
         stays (NewRunner cfg) (NormalizeState (i_State issue)) (issue_at we issue j))
    \<and> (snd (run_worker we (NewRunner cfg) issue attempt) = None \<longrightarrow>
         0 < n \<and> (\<not> stays (NewRunner cfg) (NormalizeState (i_State issue)) (issue_at we issue n)
           \<or> max 1 (rc_MaxTurns cfg) \<le> int n))"
proof (cases rule: run_worker_cases [where we = we and r = "NewRunner cfg" and issue = issue and attempt = attempt])
  case fails
  then show ?thesis by (intro exI [of _ 0]) auto
next
  case (loops path ws)
  have m: "rn_maxTurns (NewRunner cfg) = max 1 (rc_MaxTurns cfg)" by (simp add: NewRunner_def)
  show ?thesis
    using turn_loop_run [of issue we issue 0 "NewRunner cfg" "NormalizeState (i_State issue)" path attempt]
    by (simp add: loops m)
qed

theorem run_within_budget_witness:
  "\<exists>n. turns_of (fst (run_worker ex_we (NewRunner ex_rc) ex_worker_issue None)) = [1..int n] \<and> int n \<le> 3"
  using run_within_budget [of ex_we ex_rc ex_worker_issue None] by (auto simp: ex_rc_def)


fun hook_runs :: "(string \<Rightarrow> fs_env) \<Rightarrow> manager \<Rightarrow> wk_op list \<Rightarrow> fs_op list" where
  "hook_runs fs m [] = []"
| "hook_runs fs m (WHook name path # ops) = fst (RunHook (fs name) m name path) @ hook_runs fs m ops"
| "hook_runs fs m (_ # ops) = hook_runs fs m ops"




text \<open>The script of the after_run hook is not started once the run is cancelled, whatever the script.\<close>

lemma cancelled_run_skips_after_run:
  "fs_Done (fs ''after_run'') \<Longrightarrow> hook_runs fs m (finish path) = []"
  by (simp add: finish_def fst_RunHook)

text \<open>
  With the workspace manager of the program, whose root is absolute, the last safety
  check never stops a run: once the workspace is created and the before_run hook succeeds,
  the agent is started, in the issue's own path.
\<close>

theorem run_launches_in_workspace:
  assumes "is_abs (m_root m)"
    and "we_Create we = (\<lambda>ident. snd (CreateForIssue env m ident))"
    and "we_AssertCWD we = AssertLaunchCWD env m"
    and "we_Create we (i_Identifier issue) = Inr ws"
    and "we_RunHook we ''before_run'' (w_Path ws) = None"
  shows "WStart (PathFor m (i_Identifier issue)) (i_Identifier issue) (i_Title issue)
    \<in> set (fst (run_worker we r issue attempt))"
proof -
  have c: "snd (CreateForIssue env m (i_Identifier issue)) = Inr ws" using assms(2,4) by simp
  have "WStart (w_Path ws) (i_Identifier issue) (i_Title issue) \<in> set (fst (run_worker we r issue attempt))"
    by (rule wm.run_worker_launches [OF assms(1,2,3) c assms(5)])
  then show ?thesis using CreateForIssue_result [OF c] by simp
qed

definition ex_we_fs :: worker_env where
  "ex_we_fs = ex_we\<lparr>we_Create := (\<lambda>ident. snd (CreateForIssue ex_fs ex_manager ident)),
     we_AssertCWD := AssertLaunchCWD ex_fs ex_manager\<rparr>"

lemma ex_created: "\<exists>ws. snd (CreateForIssue ex_fs ex_manager ''a'') = Inr ws"
proof -
  have key: "WorkspaceKey ''a'' = ''a''"
    by (simp add: WorkspaceKey_def segs_ascii is_ascii_def ws_key_rune_def)
  have ok: "assertContained ex_fs ex_manager (PathFor ex_manager ''a'') = None"
    using below_PathFor [OF ex_manager_abs, of "''a''"] key
      assertContained_iff [OF ex_manager_abs PathFor_abs [OF ex_manager_abs], of ex_fs] by simp
  have "fs_Stat ex_fs p = StatNotExist" "fs_MkdirAll ex_fs p = None" "fs_Mkdir ex_fs p = MkdirOK"
    "fs_RunScript ex_fs p p' t = ScriptOK" "\<not> fs_Done ex_fs" for p p' t
    by (simp_all add: ex_fs_def)
  with ok [unfolded PathFor_def key] show ?thesis
    by (simp add: CreateForIssue_def after_create_def RunHook_def key Let_def)
qed

theorem run_launches_in_workspace_witness:
  "WStart (PathFor ex_manager ''a'') ''a'' ''t'' \<in> set (fst (run_worker ex_we_fs (NewRunner ex_rc) ex_worker_issue None))"
proof -
  obtain ws where "snd (CreateForIssue ex_fs ex_manager ''a'') = Inr ws" using ex_created by blast
  then have "we_Create ex_we_fs (i_Identifier ex_worker_issue) = Inr ws"
    by (simp add: ex_we_fs_def ex_worker_issue_def)
  from run_launches_in_workspace [OF ex_manager_abs _ _ this, of ex_fs "NewRunner ex_rc" None]
  show ?thesis by (simp add: ex_we_fs_def ex_we_def ex_worker_issue_def)
qed

end
