(* ===== verification/Workers.thy ===== *)
theory Workers
  imports TrackerClient Runner
begin

text \<open>
  The worker goroutines as the code has them: the function \<^verbatim>\<open>dispatchIssue\<close> starts runs the runner,
  posts every report and then the exit. In theory System a worker may post any update and any
  exit; here each follows the script of a run, and the system of scripts refines the other. From every state all runs can be
  brought to their end.
\<close>

section \<open>The goroutine of dispatchIssue\<close>

fun emitted :: "wk_op list \<Rightarrow> agent_event list" where
  "emitted [] = []"
| "emitted (WEmit e # ops) = e # emitted ops"
| "emitted (_ # ops) = emitted ops"

definition goroutine :: "string \<Rightarrow> wk_op list \<times> go_error option \<Rightarrow> event list" where
  "goroutine iid run =
     map (AgentUpdate iid) (emitted (fst run))
     @ [WorkerExit iid (if snd run \<noteq> None then ExitAbnormal else ExitNormal) (snd run)]"

text \<open>The workers a handler starts, and what one of them may go on to post.\<close>

fun spawns_of :: "effect list \<Rightarrow> (string \<times> runner_config \<times> issue \<times> int option) list" where
  "spawns_of [] = []"
| "spawns_of (ESpawn i r iss a # out) = (i, r, iss, a) # spawns_of out"
| "spawns_of (_ # out) = spawns_of out"

definition runs_as :: "string \<times> runner_config \<times> issue \<times> int option \<Rightarrow> string \<times> event list \<Rightarrow> bool" where
  "runs_as w s = (case w of (iid, cfg, issue, attempt) \<Rightarrow>
     fst s = iid \<and> (\<exists>we. snd s = goroutine iid (run_worker we (NewRunner cfg) issue attempt)))"

section \<open>The system of scripts\<close>

record crew =
  w_orch :: orch
  w_queue :: "event list"
  w_scripts :: "(string \<times> event list) multiset"
  w_timers :: "string multiset"

definition crew_abs :: "crew \<Rightarrow> sys" where
  "crew_abs c = \<lparr>y_orch = w_orch c, y_queue = w_queue c, y_workers = image_mset fst (w_scripts c),
     y_timers = w_timers c\<rparr>"

definition script_left :: "string \<Rightarrow> event list \<Rightarrow> (string \<times> event list) multiset" where
  "script_left iid es = (if es = [] then {#} else {#(iid, es)#})"

inductive crew_step :: "crew \<Rightarrow> crew \<Rightarrow> bool" where
  turn: "w_queue c = e # q \<Longrightarrow> ob = handle env e ((w_orch c)\<lparr>o_out := []\<rparr>) \<Longrightarrow>
     list_all2 runs_as (spawns_of (o_out ob)) scripts \<Longrightarrow>
     crew_step c \<lparr>w_orch = ob, w_queue = q, w_scripts = w_scripts c + mset scripts,
       w_timers = w_timers c + mset (armed_ids (o_out ob))\<rparr>"
| posts: "(iid, e # es) \<in># w_scripts c \<Longrightarrow> length (w_queue c) < queue_cap \<Longrightarrow>
     crew_step c (c\<lparr>w_queue := w_queue c @ [e],
       w_scripts := w_scripts c - {#(iid, e # es)#} + script_left iid es\<rparr>)"
| timer: "iid \<in># w_timers c \<Longrightarrow> length (w_queue c) < queue_cap \<Longrightarrow>
     crew_step c (c\<lparr>w_queue := w_queue c @ [RetryTimerFired iid], w_timers := w_timers c - {#iid#}\<rparr>)"
| outside: "outside_event e \<Longrightarrow> length (w_queue c) < queue_cap \<Longrightarrow>
     crew_step c (c\<lparr>w_queue := w_queue c @ [e]\<rparr>)"

inductive crew_reachable :: "crew \<Rightarrow> bool" where
  start: "orch_New cfg tmpl = Inr ob \<Longrightarrow> run_startup env ob = Inr ob' \<Longrightarrow>
     crew_reachable \<lparr>w_orch = ob', w_queue = [], w_scripts = {#}, w_timers = {#}\<rparr>"
| step: "crew_reachable c \<Longrightarrow> crew_step c d \<Longrightarrow> crew_reachable d"

section \<open>Refinement\<close>

text \<open>A script: reports of its issue and, last, its one exit, normal exactly without an error.\<close>

fun script_ok :: "string \<Rightarrow> event list \<Rightarrow> bool" where
  "script_ok iid [] = False"
| "script_ok iid [e] = (case e of WorkerExit i r err \<Rightarrow> i = iid \<and> (r = ExitNormal \<longleftrightarrow> err = None) | _ \<Rightarrow> False)"
| "script_ok iid (e # es) = ((\<exists>m. e = AgentUpdate iid m) \<and> script_ok iid es)"

lemma script_ok_goroutine: "script_ok iid (goroutine iid run)"
proof -
  have "script_ok iid (map (AgentUpdate iid) ms @ [WorkerExit iid (if err \<noteq> None then ExitAbnormal else ExitNormal) err])"
    for ms err
  proof (induction ms)
    case (Cons m ms)
    then show ?case by (cases ms) auto
  qed simp
  then show ?thesis by (simp add: goroutine_def)
qed

lemma script_ok_Cons:
  assumes "script_ok iid (e # es)"
  obtains (report) m where "e = AgentUpdate iid m" "es \<noteq> []" "script_ok iid es"
  | (exit) r err where "e = WorkerExit iid r err" "r = ExitNormal \<longleftrightarrow> err = None" "es = []"
  using assms by (cases es) (auto split: event.splits)

definition crew_inv :: "crew \<Rightarrow> bool" where
  "crew_inv c \<longleftrightarrow> (\<forall>s \<in># w_scripts c. script_ok (fst s) (snd s))"

lemma runs_as_facts:
  assumes "list_all2 runs_as ws scripts"
  shows "map fst scripts = map fst ws" "\<forall>s \<in> set scripts. script_ok (fst s) (snd s)"
  using assms by (induction rule: list_all2_induct) (auto simp: runs_as_def script_ok_goroutine)

lemma spawns_of_ids: "map fst (spawns_of out) = spawned_ids out"
  by (induction out rule: spawns_of.induct) auto

lemma crew_step_inv: "crew_step c d \<Longrightarrow> crew_inv c \<Longrightarrow> crew_inv d"
proof (induction rule: crew_step.induct)
  case (turn c e q ob env scripts)
  then show ?case using runs_as_facts(2) [OF turn(3)] by (auto simp: crew_inv_def)
next
  case (posts iid e es c)
  then have "script_ok iid (e # es)" by (auto simp: crew_inv_def)
  then have "\<forall>s \<in># script_left iid es. script_ok (fst s) (snd s)"
    by (cases rule: script_ok_Cons) (simp_all add: script_left_def)
  then show ?case using posts(3) by (auto simp: crew_inv_def dest: in_diffD)
qed (auto simp: crew_inv_def)

lemma crew_step_refines:
  assumes "crew_step c d" and "crew_inv c"
  shows "sys_step (crew_abs c) (crew_abs d)"
  using assms
proof (induction rule: crew_step.induct)
  case (turn c e q ob env scripts)
  have "image_mset fst (mset scripts) = mset (spawned_ids (o_out ob))"
    using runs_as_facts(1) [OF turn(3)] by (simp add: spawns_of_ids flip: mset_map)
  then have "crew_abs \<lparr>w_orch = ob, w_queue = q, w_scripts = w_scripts c + mset scripts,
       w_timers = w_timers c + mset (armed_ids (o_out ob))\<rparr> = process env e q (crew_abs c)"
    using turn(2) by (simp add: crew_abs_def process_def Let_def)
  then show ?case using sys_step.loop_turn [of "crew_abs c" e q env] turn(1) by (simp add: crew_abs_def)
next
  case (posts iid e es c)
  then have ok: "script_ok iid (e # es)" by (auto simp: crew_inv_def)
  have m: "iid \<in># y_workers (crew_abs c)" "length (y_queue (crew_abs c)) < queue_cap"
    using posts(1,2) by (force simp: crew_abs_def)+
  have rest: "image_mset fst (w_scripts c - {#(iid, e # es)#} + {#(iid, es)#}) = image_mset fst (w_scripts c)"
    "image_mset fst (w_scripts c - {#(iid, e # es)#}) = image_mset fst (w_scripts c) - {#iid#}"
    using posts(1) m(1) by (simp_all add: image_mset_Diff crew_abs_def)
  from ok show ?case
  proof (cases rule: script_ok_Cons)
    case (report m)
    then show ?thesis using sys_step.worker_update [OF m, of m] rest(1)
      by (simp add: crew_abs_def post_def script_left_def)
  next
    case (exit r err)
    then show ?thesis using sys_step.worker_exit [OF m exit(2)] rest(2)
      by (simp add: crew_abs_def post_def script_left_def)
  qed
next
  case (timer iid c)
  then show ?case using sys_step.timer_fires [of iid "crew_abs c"] by (simp add: crew_abs_def post_def)
next
  case (outside e c)
  then show ?case using sys_step.outside [of e "crew_abs c"] by (simp add: crew_abs_def post_def)
qed

lemma crew_reachable_refines: "crew_reachable c \<Longrightarrow> reachable (crew_abs c) \<and> crew_inv c"
proof (induction rule: crew_reachable.induct)
  case (start cfg tmpl ob env ob')
  then show ?case using reachable.start [OF start] by (simp add: crew_abs_def crew_inv_def)
next
  case (step c d)
  then show ?case using crew_step_refines crew_step_inv by (blast intro: reachable.step)
qed

section \<open>Every run can end\<close>

text \<open>While the tracker does not answer, no worker is started.\<close>

definition calm :: env where
  "calm = \<lparr>e_now = 0, e_candidates = (\<lambda>_. Inl (PlainErr [])), e_by_states = (\<lambda>_ _. Inl (PlainErr [])),
     e_by_ids = (\<lambda>_ _. Inl (PlainErr [])), e_notifier = False\<rparr>"

lemma spawned_spawns_of: "spawned out = map (\<lambda>(iid, cfg, issue, a). (issue, a)) (spawns_of out)"
  by (induction out rule: spawns_of.induct) auto

lemma calm_spawns:
  assumes "orch_inv ob"
  shows "spawns_of (o_out (handle calm e (ob\<lparr>o_out := []\<rparr>))) = []"
proof -
  have "new_spawns calm e (ob\<lparr>o_out := []\<rparr>) = []"
  proof (rule ccontr)
    assume "new_spawns calm e (ob\<lparr>o_out := []\<rparr>) \<noteq> []"
    then obtain i a where "(i, a) \<in> set (new_spawns calm e (ob\<lparr>o_out := []\<rparr>))"
      by (cases "new_spawns calm e (ob\<lparr>o_out := []\<rparr>)") auto
    from new_spawns_candidates [OF _ this] assms show False by (simp add: calm_def)
  qed
  then show ?thesis by (simp add: new_spawns_def spawned_spawns_of)
qed

definition script_events :: "crew \<Rightarrow> nat" where
  "script_events c = (\<Sum>s \<in># w_scripts c. length (snd s))"

lemma calm_turn:
  assumes "crew_reachable c" and "w_queue c = e # q"
  shows "\<exists>d. crew_step c d \<and> w_queue d = q \<and> w_scripts d = w_scripts c"
proof -
  have "orch_inv (w_orch c)"
    using reachable_inv [of "crew_abs c"] crew_reachable_refines [OF assms(1)]
    by (simp add: sys_inv_def crew_abs_def)
  from calm_spawns [OF this, of e] crew_step.turn [OF assms(2) refl, of calm "[]"]
  show ?thesis by fastforce
qed

lemma crew_reachable_steps: "crew_step\<^sup>*\<^sup>* c d \<Longrightarrow> crew_reachable c \<Longrightarrow> crew_reachable d"
  by (induction rule: rtranclp_induct) (auto intro: crew_reachable.step)

lemma drain:
  "crew_reachable c \<Longrightarrow> \<exists>d. crew_step\<^sup>*\<^sup>* c d \<and> w_queue d = [] \<and> w_scripts d = w_scripts c"
proof (induction "w_queue c" arbitrary: c)
  case Nil
  then show ?case by (intro exI [of _ c]) simp
next
  case (Cons e q)
  obtain d where d: "crew_step c d" "w_queue d = q" "w_scripts d = w_scripts c"
    using calm_turn [OF Cons(3) Cons(2) [symmetric]] by blast
  then obtain d' where "crew_step\<^sup>*\<^sup>* d d'" "w_queue d' = []" "w_scripts d' = w_scripts d"
    using Cons(1) [of d] crew_reachable.step [OF Cons(3)] by blast
  with d show ?case by (metis converse_rtranclp_into_rtranclp)
qed

lemma post_next:
  assumes "crew_reachable c" and "w_queue c = []" and "w_scripts c \<noteq> {#}"
  shows "\<exists>d. crew_step c d \<and> script_events d < script_events c"
proof -
  obtain s where s: "s \<in># w_scripts c" using assms(3) by blast
  moreover have "snd s \<noteq> []"
    using crew_reachable_refines [OF assms(1)] s by (auto simp: crew_inv_def)
  ultimately obtain iid e es where m: "(iid, e # es) \<in># w_scripts c" by (cases s; cases "snd s") auto
  let ?d = "c\<lparr>w_queue := w_queue c @ [e], w_scripts := w_scripts c - {#(iid, e # es)#} + script_left iid es\<rparr>"
  have "crew_step c ?d" using crew_step.posts [OF m] assms(2) by (simp add: queue_cap_def)
  moreover obtain rest where "w_scripts c = add_mset (iid, e # es) rest" using m by (metis insert_DiffM)
  then have "script_events ?d < script_events c" by (simp add: script_events_def script_left_def)
  ultimately show ?thesis by blast
qed

lemma all_end:
  "crew_reachable c \<Longrightarrow> \<exists>d. crew_step\<^sup>*\<^sup>* c d \<and> w_queue d = [] \<and> w_scripts d = {#}"
proof (induction "script_events c" arbitrary: c rule: less_induct)
  case less
  obtain d where d: "crew_step\<^sup>*\<^sup>* c d" "w_queue d = []" "w_scripts d = w_scripts c"
    using drain [OF less(2)] by blast
  have r: "crew_reachable d" by (rule crew_reachable_steps [OF d(1) less(2)])
  show ?case
  proof (cases "w_scripts c = {#}")
    case True
    with d show ?thesis by auto
  next
    case False
    then obtain f where f: "crew_step d f" "script_events f < script_events d"
      using post_next [OF r d(2)] d(3) by auto
    then have "script_events f < script_events c" using d(3) by (simp add: script_events_def)
    from less(1) [OF this crew_reachable.step [OF r f(1)]] obtain g where
      "crew_step\<^sup>*\<^sup>* f g" "w_queue g = []" "w_scripts g = {#}" by blast
    with d(1) f(1) show ?thesis by (meson converse_rtranclp_into_rtranclp rtranclp_trans)
  qed
qed

lemma idle_running:
  assumes "crew_reachable c" and "w_queue c = []" and "w_scripts c = {#}"
  shows "running (w_orch c) = []"
proof -
  have inv: "sys_inv (crew_abs c)" using crew_reachable_refines [OF assms(1)] reachable_inv by blast
  have "\<not> map_has (running (w_orch c)) iid" for iid
    using sys_inv_workers [OF inv, of iid] assms(2,3) by (simp add: crew_abs_def split: if_splits)
  then have "map_keys (running (w_orch c)) = {}" by (auto simp: map_has_def gm.in_keys)
  then show ?thesis by (simp add: map_keys_def)
qed

section \<open>Property\<close>

text \<open>
  C10: Workers that run the runner's code fit the system: whatever the runs do and however their
  posts, the loop, the timers and the outside interleave, the state is one of the reachable states
  all the other properties are about. And no interleaving gets stuck: from every such state the
  service can bring all runs to their end and come to rest with nothing running.
\<close>

theorem runs_fit_and_end:
  assumes "crew_reachable c"
  shows "reachable (crew_abs c)
    \<and> (\<exists>d. crew_step\<^sup>*\<^sup>* c d \<and> w_scripts d = {#} \<and> w_queue d = [] \<and> running (w_orch d) = [])"
  using crew_reachable_refines [OF assms] all_end [OF assms] idle_running crew_reachable_steps [OF _ assms]
  by blast

definition ex_script :: "string \<times> runner_config \<times> issue \<times> int option \<Rightarrow> string \<times> event list" where
  "ex_script w = (case w of (iid, cfg, issue, a) \<Rightarrow>
     (iid, goroutine iid (run_worker ex_we (NewRunner cfg) issue a)))"

definition ex_crew :: crew where
  "ex_crew = \<lparr>w_orch = onTick ex_env (ex_orch\<lparr>o_out := []\<rparr>), w_queue = [],
     w_scripts = mset (map ex_script (spawns_of (o_out (onTick ex_env (ex_orch\<lparr>o_out := []\<rparr>))))),
     w_timers = mset (armed_ids (o_out (onTick ex_env (ex_orch\<lparr>o_out := []\<rparr>))))\<rparr>"

lemma runs_as_ex_script: "list_all2 runs_as ws (map ex_script ws)"
  by (induction ws) (auto simp: runs_as_def ex_script_def)

lemma ex_crew_reachable: "crew_reachable ex_crew"
proof -
  let ?c = "\<lparr>w_orch = scheduleTick 0 ex_orch, w_queue = [], w_scripts = {#}, w_timers = {#}\<rparr>"
  have "crew_reachable ?c" by (rule crew_reachable.start [OF ex_orch_New ex_startup])
  then have "crew_reachable (?c\<lparr>w_queue := w_queue ?c @ [TickEvent]\<rparr>)"
    by (rule crew_reachable.step) (rule crew_step.outside, simp_all add: outside_event_def queue_cap_def)
  moreover have eq: "(scheduleTick 0 ex_orch)\<lparr>o_out := []\<rparr> = ex_orch\<lparr>o_out := []\<rparr>" by (simp add: scheduleTick_def)
  have "crew_step (?c\<lparr>w_queue := w_queue ?c @ [TickEvent]\<rparr>) ex_crew"
    using crew_step.turn [OF _ refl runs_as_ex_script, of "?c\<lparr>w_queue := w_queue ?c @ [TickEvent]\<rparr>" TickEvent "[]" ex_env]
    by (simp add: ex_crew_def eq)
  ultimately show ?thesis by (rule crew_reachable.step)
qed

theorem runs_fit_and_end_witness:
  "size (w_scripts ex_crew) = 2
   \<and> (\<exists>d. crew_step\<^sup>*\<^sup>* ex_crew d \<and> w_scripts d = {#} \<and> w_queue d = [] \<and> running (w_orch d) = [])"
proof -
  have "ex_orch\<lparr>o_out := []\<rparr> = ex_orch" by (simp add: ex_orch_def)
  moreover have "length (spawns_of (o_out (onTick ex_env ex_orch))) = 2"
    using spawned_spawns_of [of "o_out (onTick ex_env ex_orch)"] onTick_spawned [OF ex_inv, of ex_env]
    by (simp add: ex_tick_picks, simp add: ex_orch_def)
      (metis length_map length_Cons list.size(3) numeral_2_eq_2)
  ultimately have "size (w_scripts ex_crew) = 2" by (simp add: ex_crew_def)
  with runs_fit_and_end [OF ex_crew_reachable] show ?thesis by blast
qed

end
