(* ===== verification/GraphQL.thy ===== *)
theory GraphQL
  imports Domain
begin

text \<open>
  Package \<^verbatim>\<open>lineargql\<close> (parse.go, tool.go): the tool that gives an agent access to the
  tracker's GraphQL endpoint. A document is scanned as bytes: comments and string literals
  are stripped, the operations are counted, and only a document with exactly one is sent.
  The HTTP exchange and the decoding of its JSON envelope are parameters of \<open>Execute\<close>.
\<close>

section \<open>parse.go\<close>

definition isLetter :: "char \<Rightarrow> bool" where
  "isLetter c \<longleftrightarrow> (let b = byte c in 97 \<le> b \<and> b \<le> 122 \<or> 65 \<le> b \<and> b \<le> 90 \<or> c = CHR ''_'')"

definition word_char :: "char \<Rightarrow> bool" where
  "word_char c \<longleftrightarrow> isLetter c \<or> 48 \<le> byte c \<and> byte c \<le> 57"

definition readWord :: "string \<Rightarrow> string \<times> nat" where
  "readWord s = (let w = takeWhile word_char s in (w, length w))"

definition quote :: char where "quote = CHR 0x22"
definition backslash :: char where "backslash = CHR 0x5C"
definition eol :: char where "eol = CHR 0x0A"
definition hash :: char where "hash = CHR ''#''"
definition obrace :: char where "obrace = CHR ''{''"
definition cbrace :: char where "cbrace = CHR ''}''"

lemmas gql_chars = quote_def backslash_def eol_def hash_def obrace_def cbrace_def

lemma gql_chars_distinct [simp]:
  "quote \<noteq> backslash" "backslash \<noteq> quote" "quote \<noteq> eol" "eol \<noteq> quote" "quote \<noteq> hash" "hash \<noteq> quote"
  "hash \<noteq> eol" "eol \<noteq> hash" "obrace \<noteq> cbrace" "cbrace \<noteq> obrace" "quote \<noteq> CHR '' ''" "hash \<noteq> CHR '' ''"
  "obrace \<noteq> CHR '' ''" "cbrace \<noteq> CHR '' ''"
  "\<not> isLetter obrace" "\<not> isLetter cbrace" "\<not> isLetter (CHR '' '')"
  by (simp_all add: gql_chars isLetter_def Let_def)

text \<open>The two inner loops of \<^verbatim>\<open>stripGraphQL\<close>, from the opening quotes on to what follows the literal.\<close>

fun skip_block :: "string \<Rightarrow> string" where
  "skip_block (a # b # c # r) =
     (if a = quote \<and> b = quote \<and> c = quote then r else skip_block (b # c # r))"
| "skip_block _ = []"

fun skip_str :: "string \<Rightarrow> string" where
  "skip_str [] = []"
| "skip_str (c # r) =
     (if c = quote then r
      else if c = backslash then (case r of [] \<Rightarrow> [] | _ # r' \<Rightarrow> skip_str r')
      else skip_str r)"

definition skip_literal :: "string \<Rightarrow> string" where
  "skip_literal r = (case r of
     a # b # r' \<Rightarrow> if a = quote \<and> b = quote then skip_block r' else skip_str r
   | _ \<Rightarrow> skip_str r)"

lemma skip_block_length: "length (skip_block s) \<le> length s"
proof (induction s rule: skip_block.induct)
  case (1 a b c r)
  then show ?case
    unfolding skip_block.simps(1) [of a b c r]
    by (cases "a = quote \<and> b = quote \<and> c = quote") (simp_all add: le_SucI)
qed simp_all

lemma skip_str_length: "length (skip_str s) \<le> length s"
proof (induction s rule: skip_str.induct)
  case (2 c r)
  then show ?case by (cases "c = quote"; cases "c = backslash"; cases r) (simp_all add: le_SucI)
qed simp

lemma skip_literal_length: "length (skip_literal s) \<le> length s"
proof (cases "\<exists>r. s = quote # quote # r")
  case True
  then obtain r where "s = quote # quote # r" by blast
  then show ?thesis using skip_block_length [of r] by (simp add: skip_literal_def)
next
  case False
  then have "skip_literal s = skip_str s" by (auto simp: skip_literal_def split: list.splits)
  then show ?thesis by (simp add: skip_str_length)
qed

function stripGraphQL :: "string \<Rightarrow> string" where
  "stripGraphQL [] = []"
| "stripGraphQL (c # r) =
     (if c = hash then stripGraphQL (dropWhile (\<lambda>x. x \<noteq> eol) r)
      else if c = quote then CHR '' '' # stripGraphQL (skip_literal r)
      else c # stripGraphQL r)"
  by pat_completeness auto
termination
  by (relation "measure length")
    (auto simp: le_imp_less_Suc length_dropWhile_le skip_literal_length)

declare stripGraphQL.simps(2) [simp del]

function count_loop :: "nat \<Rightarrow> bool \<Rightarrow> nat \<Rightarrow> string \<Rightarrow> nat" where
  "count_loop depth atDefStart ops [] = ops"
| "count_loop depth atDefStart ops (c # r) =
     (if c = obrace then
        (if depth = 0 \<and> atDefStart then count_loop (depth + 1) False (ops + 1) r
         else count_loop (depth + 1) atDefStart ops r)
      else if c = cbrace then
        (let d = (if 0 < depth then depth - 1 else depth)
         in count_loop d (if d = 0 then True else atDefStart) ops r)
      else if depth = 0 \<and> atDefStart \<and> isLetter c then
        (let w = readWord (c # r); rest = drop (snd w) (c # r)
         in if fst w \<in> {''query'', ''mutation'', ''subscription''} then count_loop depth False (ops + 1) rest
            else if fst w = ''fragment'' then count_loop depth False ops rest
            else count_loop depth atDefStart ops rest)
      else count_loop depth atDefStart ops r)"
  by pat_completeness auto
termination
  by (relation "measure (\<lambda>(_, _, _, s). length s)") (auto simp: readWord_def word_char_def Let_def)

declare count_loop.simps(2) [simp del]

definition countOperations :: "string \<Rightarrow> nat" where
  "countOperations doc = count_loop 0 True 0 (stripGraphQL doc)"

section \<open>tool.go\<close>

record tool =
  tl_endpoint :: string
  tl_apiKey :: string

definition tool_New :: "string \<Rightarrow> string \<Rightarrow> tool" where
  "tool_New endpoint apiKey =
     \<lparr>tl_endpoint = (if endpoint = [] then ''https://api.linear.app/graphql'' else endpoint),
      tl_apiKey = apiKey\<rparr>"

record tool_input =
  in_Query :: string
  in_Variables :: "gvalue option"

text \<open>\<^verbatim>\<open>Data\<close> and \<^verbatim>\<open>Errors\<close> are raw JSON, empty when the envelope lacks them.\<close>

record tool_result =
  tr_Success :: bool
  tr_Data :: string
  tr_Errors :: string
  tr_Error :: "(string \<times> string) option"

definition failure :: "string \<Rightarrow> string \<Rightarrow> tool_result" where
  "failure code msg = \<lparr>tr_Success = False, tr_Data = [], tr_Errors = [], tr_Error = Some (code, msg)\<rparr>"

text \<open>
  The exchange: \<open>marshal\<close> is the JSON encoder, \<open>http\<close> sends a request and gives body and status.
\<close>

definition tool_post ::
  "(gvalue \<Rightarrow> string result) \<Rightarrow> (http_request \<Rightarrow> (string \<times> int) result) \<Rightarrow> tool \<Rightarrow> tool_input
    \<Rightarrow> (string \<times> int) result" where
  "tool_post marshal http t inp =
     (case marshal (VMap ((''query'', VStr (in_Query inp))
         # (case in_Variables inp of None \<Rightarrow> [] | Some v \<Rightarrow> [(''variables'', v)]))) of
        Inl e \<Rightarrow> Inl e
      | Inr payload \<Rightarrow> http (graphql_request (tl_endpoint t) (tl_apiKey t) payload))"

text \<open>
  \<open>post\<close> is the exchange with its encoder and transport applied, \<open>decode\<close> the JSON decoding of
  the envelope into the raw data and errors.
\<close>

definition Execute ::
  "(tool \<Rightarrow> tool_input \<Rightarrow> (string \<times> int) result) \<Rightarrow> (string \<Rightarrow> (string \<times> string) option)
    \<Rightarrow> tool \<Rightarrow> tool_input \<Rightarrow> tool_result" where
  "Execute post decode t inp =
     (if trim_space (in_Query inp) = [] then failure ''invalid_input'' ''query must be a non-empty string''
      else if countOperations (in_Query inp) \<noteq> 1 then
        failure ''invalid_input'' (''query must contain exactly one GraphQL operation, found ''
          @ itoa (int (countOperations (in_Query inp))))
      else if trim_space (tl_apiKey t) = [] then failure ''missing_auth'' ''Linear auth is not configured''
      else case post t inp of
             Inl e \<Rightarrow> failure ''transport_error'' (error_string e)
           | Inr (body, status) \<Rightarrow>
               if status \<noteq> 200 then failure ''transport_error'' (''status '' @ itoa status)
               else case decode body of
                      None \<Rightarrow> failure ''transport_error'' ''malformed GraphQL response''
                    | Some (data, errors) \<Rightarrow>
                        \<lparr>tr_Success = \<not> (errors \<noteq> [] \<and> errors \<noteq> ''null''), tr_Data = data,
                         tr_Errors = errors, tr_Error = None\<rparr>)"

text \<open>
  \<^verbatim>\<open>ParseInput\<close>, with the decoders of a JSON string and of the input object as parameters;
  JSON white space at both ends is trimmed as \<^verbatim>\<open>bytes.TrimSpace\<close> does.
\<close>

definition ParseInput ::
  "(string \<Rightarrow> string result) \<Rightarrow> (string \<Rightarrow> tool_input result) \<Rightarrow> string \<Rightarrow> tool_input result" where
  "ParseInput unquote decode raw =
     (let trimmed = trim_space raw
      in if trimmed = [] then Inl (PlainErr ''empty input'')
         else if hd trimmed = quote then
           (case unquote trimmed of Inl e \<Rightarrow> Inl e
            | Inr q \<Rightarrow> Inr \<lparr>in_Query = q, in_Variables = None\<rparr>)
         else decode trimmed)"

section \<open>Documents\<close>

text \<open>
  The shape of a GraphQL document, with literals and comments stripped: definitions, each
  anonymous or a keyword with its header, and a body of nested braces.
\<close>

datatype gnode = GText string | GBlock "gnode list"

definition no_brace :: "string \<Rightarrow> bool" where
  "no_brace t \<longleftrightarrow> obrace \<notin> set t \<and> cbrace \<notin> set t"

primrec render_node :: "gnode \<Rightarrow> string" where
  "render_node (GText t) = t"
| "render_node (GBlock ns) = obrace # concat (map render_node ns) @ [cbrace]"

primrec node_ok :: "gnode \<Rightarrow> bool" where
  "node_ok (GText t) = no_brace t"
| "node_ok (GBlock ns) = list_all id (map node_ok ns)"

datatype gdef = GAnon "gnode list" | GDef string string "gnode list"

fun render_def :: "gdef \<Rightarrow> string" where
  "render_def (GAnon b) = render_node (GBlock b)"
| "render_def (GDef kw h b) = kw @ h @ render_node (GBlock b)"

fun is_operation :: "gdef \<Rightarrow> bool" where
  "is_operation (GAnon b) = True"
| "is_operation (GDef kw h b) = (kw \<noteq> ''fragment'')"

fun def_ok :: "gdef \<Rightarrow> bool" where
  "def_ok (GAnon b) = node_ok (GBlock b)"
| "def_ok (GDef kw h b) =
     (kw \<in> {''query'', ''mutation'', ''subscription'', ''fragment''} \<and> no_brace h
      \<and> (h = [] \<or> \<not> word_char (hd h)) \<and> node_ok (GBlock b))"

definition separator :: "string \<Rightarrow> bool" where
  "separator t \<longleftrightarrow> no_brace t \<and> (\<forall>c \<in> set t. \<not> isLetter c)"

definition render_doc :: "(string \<times> gdef) list \<Rightarrow> string \<Rightarrow> string" where
  "render_doc ds tail = concat (map (\<lambda>p. fst p @ render_def (snd p)) ds) @ tail"

definition doc_ok :: "(string \<times> gdef) list \<Rightarrow> string \<Rightarrow> bool" where
  "doc_ok ds tail \<longleftrightarrow> list_all (\<lambda>p. separator (fst p) \<and> def_ok (snd p)) ds \<and> separator tail"

lemma no_brace_simps [simp]:
  "no_brace []" "no_brace (c # t) \<longleftrightarrow> c \<noteq> obrace \<and> c \<noteq> cbrace \<and> no_brace t"
  by (auto simp: no_brace_def)

lemma count_text:
  "no_brace t \<Longrightarrow> 0 < d \<or> \<not> ads \<Longrightarrow> count_loop d ads ops (t @ s) = count_loop d ads ops s"
  by (induction t) (auto simp: count_loop.simps(2))

lemma count_nodes:
  assumes "\<And>n s. n \<in> set ns \<Longrightarrow> count_loop d ads ops (render_node n @ s) = count_loop d ads ops s"
  shows "count_loop d ads ops (concat (map render_node ns) @ s) = count_loop d ads ops s"
  using assms by (induction ns) simp_all

lemma count_node:
  "node_ok n \<Longrightarrow> 0 < d \<Longrightarrow> count_loop d ads ops (render_node n @ s) = count_loop d ads ops s"
proof (induction n arbitrary: d s)
  case (GBlock ns)
  have "count_loop (Suc d) ads ops (concat (map render_node ns) @ cbrace # s)
      = count_loop (Suc d) ads ops (cbrace # s)"
    using GBlock by (intro count_nodes) (auto simp: list_all_iff)
  then show ?case using GBlock.prems by (simp add: count_loop.simps(2))
qed (simp add: count_text)

lemma count_body:
  assumes "node_ok (GBlock ns)"
  shows "count_loop 0 False ops (render_node (GBlock ns) @ s) = count_loop 0 True ops s"
    and "count_loop 0 True ops (render_node (GBlock ns) @ s) = count_loop 0 True (Suc ops) s"
proof -
  have "count_loop (Suc 0) False n (concat (map render_node ns) @ cbrace # s)
      = count_loop (Suc 0) False n (cbrace # s)" for n
    using assms by (intro count_nodes count_node) (auto simp: list_all_iff)
  then show "count_loop 0 False ops (render_node (GBlock ns) @ s) = count_loop 0 True ops s"
    "count_loop 0 True ops (render_node (GBlock ns) @ s) = count_loop 0 True (Suc ops) s"
    by (simp_all add: count_loop.simps(2))
qed

lemma count_separator:
  "separator t \<Longrightarrow> count_loop 0 True ops (t @ s) = count_loop 0 True ops s"
  by (induction t) (auto simp: separator_def count_loop.simps(2))

lemma keyword_chars:
  "kw \<in> {''query'', ''mutation'', ''subscription'', ''fragment''} \<Longrightarrow>
     kw \<noteq> [] \<and> list_all isLetter kw"
  by (auto simp: isLetter_def)

lemma readWord_keyword:
  assumes "list_all isLetter kw" and "h = [] \<or> \<not> word_char (hd h)"
  shows "readWord (kw @ h @ obrace # s) = (kw, length kw)"
proof -
  have "takeWhile word_char (h @ obrace # s) = []"
    using assms(2) by (cases h) (auto simp: word_char_def obrace_def isLetter_def)
  moreover have "\<forall>c \<in> set kw. word_char c" using assms(1) by (auto simp: list_all_iff word_char_def)
  ultimately show ?thesis by (simp add: readWord_def takeWhile_append2)
qed

lemma count_def:
  assumes "def_ok d"
  shows "count_loop 0 True ops (render_def d @ s) = count_loop 0 True (ops + (if is_operation d then 1 else 0)) s"
proof (cases d)
  case (GAnon b)
  then show ?thesis using assms count_body(2) by simp
next
  case (GDef kw h b)
  let ?rest = "h @ render_node (GBlock b) @ s"
  have kw: "kw \<in> {''query'', ''mutation'', ''subscription'', ''fragment''}"
    and h: "no_brace h" "h = [] \<or> \<not> word_char (hd h)" and b: "node_ok (GBlock b)"
    using assms GDef by simp_all
  from keyword_chars [OF kw] obtain c w where c: "kw = c # w" "isLetter c"
    by (cases kw) auto
  have rw: "readWord (c # w @ ?rest) = (kw, length kw)"
    using readWord_keyword [of kw h "concat (map render_node b) @ cbrace # s"] keyword_chars [OF kw] h c
    by simp
  have after: "count_loop 0 False n ?rest = count_loop 0 True n s" for n
    using count_text [OF h(1), of 0 False n] count_body(1) [OF b] by simp
  have brace: "c \<noteq> obrace" "c \<noteq> cbrace" using c(2) by auto
  have drop: "drop (length kw) (c # w @ ?rest) = ?rest" by (simp add: c(1))
  have "count_loop 0 True ops (c # w @ ?rest) =
      (if kw \<in> {''query'', ''mutation'', ''subscription''} then count_loop 0 False (ops + 1) ?rest
       else if kw = ''fragment'' then count_loop 0 False ops ?rest else count_loop 0 True ops ?rest)"
    using brace c(2) unfolding count_loop.simps(2) [of 0 True ops c]
    by (simp only: rw fst_conv snd_conv drop Let_def if_False if_True simp_thms)
  also have "\<dots> = count_loop 0 False (ops + (if is_operation d then 1 else 0)) ?rest"
    using kw unfolding GDef is_operation.simps
    by (simp only: insert_iff empty_iff) (elim disjE; simp)
  finally show ?thesis using after by (simp add: GDef c(1))
qed

lemma count_doc:
  assumes "doc_ok ds tail"
  shows "count_loop 0 True ops (render_doc ds tail) = ops + length (filter is_operation (map snd ds))"
  using assms
proof (induction ds arbitrary: ops)
  case Nil
  then show ?case
    using count_separator [of tail ops "[]"] by (simp add: render_doc_def doc_ok_def)
next
  case (Cons p ds)
  then show ?case
    using count_separator [of "fst p"] count_def [of "snd p"] by (simp add: render_doc_def doc_ok_def)
qed

section \<open>Literals and comments\<close>

text \<open>
  The lexical pieces of a document: plain text, a comment up to its line end, a string (in
  which a backslash escapes the next byte) and a block string.
\<close>

datatype gtok = TPlain string | TComment string | TStr string | TBlock string

fun render_tok :: "gtok \<Rightarrow> string" where
  "render_tok (TPlain t) = t"
| "render_tok (TComment t) = hash # t @ [eol]"
| "render_tok (TStr t) = quote # t @ [quote]"
| "render_tok (TBlock t) = [quote, quote, quote] @ t @ [quote, quote, quote]"

definition render_toks :: "gtok list \<Rightarrow> string" where
  "render_toks ts = concat (map render_tok ts)"

fun plain_tok :: "gtok \<Rightarrow> string" where
  "plain_tok (TPlain t) = t"
| "plain_tok (TComment t) = [eol]"
| "plain_tok (TStr t) = '' ''"
| "plain_tok (TBlock t) = '' ''"

definition plain_toks :: "gtok list \<Rightarrow> string" where
  "plain_toks ts = concat (map plain_tok ts)"

fun str_body :: "string \<Rightarrow> bool" where
  "str_body [] = True"
| "str_body (c # r) =
     (if c = backslash then (case r of [] \<Rightarrow> False | _ # r' \<Rightarrow> str_body r') else c \<noteq> quote \<and> str_body r)"

fun no_triple :: "string \<Rightarrow> bool" where
  "no_triple (a # b # c # r) = (\<not> (a = quote \<and> b = quote \<and> c = quote) \<and> no_triple (b # c # r))"
| "no_triple _ = True"

text \<open>An empty string is not followed by another literal; a block string holds no three quotes.\<close>

fun toks_ok :: "gtok list \<Rightarrow> bool" where
  "toks_ok [] = True"
| "toks_ok (TPlain t # ts) = (quote \<notin> set t \<and> hash \<notin> set t \<and> toks_ok ts)"
| "toks_ok (TComment t # ts) = (eol \<notin> set t \<and> toks_ok ts)"
| "toks_ok (TStr t # ts) =
     (str_body t \<and> (t = [] \<longrightarrow> (case render_toks ts of [] \<Rightarrow> True | c # _ \<Rightarrow> c \<noteq> quote)) \<and> toks_ok ts)"
| "toks_ok (TBlock t # ts) = (no_triple (t @ [quote, quote]) \<and> toks_ok ts)"

lemma toks_simps [simp]:
  "render_toks [] = []" "render_toks (t # ts) = render_tok t @ render_toks ts"
  "plain_toks [] = []" "plain_toks (t # ts) = plain_tok t @ plain_toks ts"
  by (simp_all add: render_toks_def plain_toks_def)

lemma skip_str_body: "str_body t \<Longrightarrow> skip_str (t @ quote # s) = s"
proof (induction t rule: str_body.induct)
  case (2 c r)
  then show ?case by (cases "c = backslash"; cases r) simp_all
qed simp

lemma skip_block_body: "no_triple (t @ [quote, quote]) \<Longrightarrow> skip_block (t @ quote # quote # quote # s) = s"
proof (induction t)
  case (Cons a t)
  obtain b c r r' where t: "t @ [quote, quote] = b # c # r" "t @ quote # quote # quote # s = b # c # r'"
    by (cases t; cases "tl t") auto
  have "\<not> (a = quote \<and> b = quote \<and> c = quote)" "no_triple (t @ [quote, quote])"
    using Cons.prems t(1) by simp_all
  with Cons.IH show ?case unfolding append_Cons t(2) by (simp only: skip_block.simps(1) if_False)
qed simp

lemma skip_literal_str:
  assumes "str_body t" and "t = [] \<longrightarrow> (case s of [] \<Rightarrow> True | c # _ \<Rightarrow> c \<noteq> quote)"
  shows "skip_literal (t @ quote # s) = s"
proof -
  have "\<not> (\<exists>r. t @ quote # s = quote # quote # r)"
    using assms by (cases t) (auto split: list.splits if_splits)
  then have "skip_literal (t @ quote # s) = skip_str (t @ quote # s)"
    by (auto simp: skip_literal_def split: list.splits)
  with skip_str_body [OF assms(1)] show ?thesis by simp
qed

lemma skip_literal_block:
  "no_triple (t @ [quote, quote]) \<Longrightarrow> skip_literal (quote # quote # t @ quote # quote # quote # s) = s"
  by (simp add: skip_literal_def skip_block_body)

lemma strip_plain:
  "quote \<notin> set t \<Longrightarrow> hash \<notin> set t \<Longrightarrow> stripGraphQL (t @ s) = t @ stripGraphQL s"
  by (induction t) (auto simp: stripGraphQL.simps(2))

lemma strip_tokens: "toks_ok ts \<Longrightarrow> stripGraphQL (render_toks ts) = plain_toks ts"
proof (induction ts rule: toks_ok.induct)
  case (2 t ts)
  then show ?case by (simp add: strip_plain)
next
  case (3 t ts)
  have "dropWhile (\<lambda>x. x \<noteq> eol) (t @ eol # render_toks ts) = eol # render_toks ts"
    using 3(2) by (induction t) auto
  with 3 show ?case by (simp add: stripGraphQL.simps(2))
next
  case (4 t ts)
  then show ?case
    using skip_literal_str [of t "render_toks ts"] by (simp add: stripGraphQL.simps(2))
next
  case (5 t ts)
  then show ?case
    using skip_literal_block [of t "render_toks ts"] by (simp add: stripGraphQL.simps(2))
qed simp

section \<open>Properties\<close>

text \<open>
  C34: On a document whose literals and comments are delimited and which is, without them,
  a sequence of definitions (keyword, header without braces, balanced body), the scanner
  counts exactly the operations: no keyword or brace inside a string, a comment, a body or
  a header is mistaken for one, and fragments do not count.
\<close>

theorem countOperations_correct:
  assumes "toks_ok ts" and "plain_toks ts = render_doc ds tail" and "doc_ok ds tail"
  shows "countOperations (render_toks ts) = length (filter is_operation (map snd ds))"
  using count_doc [OF assms(3), of 0] by (simp add: countOperations_def strip_tokens [OF assms(1)] assms(2))

theorem countOperations_correct_witness:
  "countOperations (''query A($x: Int) { f(a: '' @ [quote] @ ''} mutation {'' @ [quote] @ '') } fragment B on C { id }'') = 1"
proof -
  let ?ts = "[TPlain ''query A($x: Int) { f(a: '', TStr ''} mutation {'', TPlain '') } fragment B on C { id }'']"
  let ?ds = "[([], GDef ''query'' '' A($x: Int) '' [GText '' f(a:  ) '']),
     ('' '', GDef ''fragment'' '' B on C '' [GText '' id ''])]"
  have "toks_ok ?ts" by (simp add: gql_chars)
  moreover have "plain_toks ?ts = render_doc ?ds []"
    by (simp add: render_doc_def) (simp add: gql_chars)
  moreover have "doc_ok ?ds []"
    by (simp add: doc_ok_def separator_def no_brace_def) (simp add: gql_chars word_char_def isLetter_def)
  ultimately have "countOperations (render_toks ?ts) = length (filter is_operation (map snd ?ds))"
    by (rule countOperations_correct)
  then show ?thesis by (simp only: toks_simps render_tok.simps) simp
qed

lemma Execute_success:
  assumes "tr_Success (Execute post decode t inp)"
  shows "trim_space (in_Query inp) \<noteq> []" and "countOperations (in_Query inp) = 1" and "trim_space (tl_apiKey t) \<noteq> []"
    and "\<exists>body data errors. post t inp = Inr (body, 200) \<and> decode body = Some (data, errors)
      \<and> errors \<in> {[], ''null''} \<and> tr_Data (Execute post decode t inp) = data"
  using assms by (auto simp: Execute_def failure_def split: if_splits sum.splits option.splits)

lemma tool_post_sent:
  "tool_post marshal http t inp = Inr r \<Longrightarrow> \<exists>payload. http (graphql_request (tl_endpoint t) (tl_apiKey t) payload) = Inr r"
  by (auto simp: tool_post_def split: sum.splits)

text \<open>
  C35: Nothing is sent to the tracker unless the query is non-empty, holds exactly one
  operation by the scanner and a key is configured: otherwise the result is a failure that
  does not depend on the transport at all. A reported success means that the configured
  endpoint answered the request, which carries the configured key, with status 200, a
  well-formed envelope and no top-level errors, and it carries the envelope's data.
\<close>

theorem Execute_gated:
  "(tr_Success (Execute (tool_post marshal http) decode t inp) \<longrightarrow>
      trim_space (in_Query inp) \<noteq> [] \<and> countOperations (in_Query inp) = 1 \<and> trim_space (tl_apiKey t) \<noteq> []
      \<and> (\<exists>payload body data errors. http (graphql_request (tl_endpoint t) (tl_apiKey t) payload) = Inr (body, 200)
           \<and> decode body = Some (data, errors) \<and> errors \<in> {[], ''null''}
           \<and> tr_Data (Execute (tool_post marshal http) decode t inp) = data))
    \<and> (trim_space (in_Query inp) = [] \<or> countOperations (in_Query inp) \<noteq> 1 \<or> trim_space (tl_apiKey t) = [] \<longrightarrow>
      (\<exists>code msg. \<forall>post decode. Execute post decode t inp = failure code msg))"
proof (intro conjI impI)
  assume "tr_Success (Execute (tool_post marshal http) decode t inp)"
  note ok = Execute_success [OF this]
  show "trim_space (in_Query inp) \<noteq> []" "countOperations (in_Query inp) = 1" "trim_space (tl_apiKey t) \<noteq> []"
    by (fact ok)+
  show "\<exists>payload body data errors. http (graphql_request (tl_endpoint t) (tl_apiKey t) payload) = Inr (body, 200)
           \<and> decode body = Some (data, errors) \<and> errors \<in> {[], ''null''}
           \<and> tr_Data (Execute (tool_post marshal http) decode t inp) = data"
    using ok(4) tool_post_sent [of marshal http t inp] by blast
next
  assume "trim_space (in_Query inp) = [] \<or> countOperations (in_Query inp) \<noteq> 1 \<or> trim_space (tl_apiKey t) = []"
  then consider "trim_space (in_Query inp) = []"
    | "trim_space (in_Query inp) \<noteq> []" "countOperations (in_Query inp) \<noteq> 1"
    | "trim_space (in_Query inp) \<noteq> []" "countOperations (in_Query inp) = 1" "trim_space (tl_apiKey t) = []"
    by blast
  then show "\<exists>code msg. \<forall>post decode. Execute post decode t inp = failure code msg"
    by cases (auto simp: Execute_def)
qed

lemmas count_eval = countOperations_def stripGraphQL.simps(2) count_loop.simps(2) gql_chars isLetter_def
  readWord_def word_char_def skip_literal_def

lemma count_sample: "countOperations ''{ x }'' = 1"
  by (simp add: count_eval)

theorem Execute_gated_witness:
  "tr_Data (Execute (tool_post (\<lambda>v. Inr ''p'') (\<lambda>r. Inr (''b'', 200))) (\<lambda>b. Some (''d'', [])) (tool_New [] ''k'')
      \<lparr>in_Query = ''{ x }'', in_Variables = None\<rparr>) = ''d''
   \<and> (\<exists>code msg. \<forall>post decode. Execute post decode (tool_New [] ''k'')
        \<lparr>in_Query = [], in_Variables = None\<rparr> = failure code msg)"
proof -
  have "tr_Success (Execute (tool_post (\<lambda>v. Inr ''p'') (\<lambda>r. Inr (''b'', 200))) (\<lambda>b. Some (''d'', [])) (tool_New [] ''k'')
      \<lparr>in_Query = ''{ x }'', in_Variables = None\<rparr>)"
    by (simp add: Execute_def tool_post_def count_sample tool_New_def str_eval)
  with Execute_gated [of "\<lambda>v. Inr ''p''" "\<lambda>r. Inr (''b'', 200)" "\<lambda>b. Some (''d'', [])" "tool_New [] ''k''"
      "\<lparr>in_Query = ''{ x }'', in_Variables = None\<rparr>"]
  have "tr_Data (Execute (tool_post (\<lambda>v. Inr ''p'') (\<lambda>r. Inr (''b'', 200))) (\<lambda>b. Some (''d'', [])) (tool_New [] ''k'')
      \<lparr>in_Query = ''{ x }'', in_Variables = None\<rparr>) = ''d''" by auto
  moreover have "\<exists>code msg. \<forall>post decode. Execute post decode (tool_New [] ''k'')
        \<lparr>in_Query = [], in_Variables = None\<rparr> = failure code msg"
    using Execute_gated [of _ _ _ "tool_New [] ''k''" "\<lparr>in_Query = [], in_Variables = None\<rparr>"] by simp
  ultimately show ?thesis ..
qed

text \<open>
  Outside that shape the scanner errs in both directions. The braces of an object value in
  a variable's default end the header early, so a valid operation counts twice and is
  refused; and an escaped triple quote inside a block string ends the literal for the
  scanner alone, which can hide a second operation behind the next one.
\<close>

lemma default_value_counts_twice:
  "countOperations ''query Q($f: F = {a: 1}) { x }'' = 2"
  by (simp add: count_eval)

lemma escaped_block_quote_hides_operation:
  "countOperations (''query A { f(a: '' @ [quote, quote, quote, backslash, quote, quote, quote]
     @ '' { '' @ [quote, quote, quote] @ '') } query B { g }'') = 1"
  by (simp add: count_eval)

end
