(* ===== verification/Workflow.thy ===== *)
theory Workflow
  imports Domain
begin

text \<open>
  Package \<^verbatim>\<open>workflow\<close> (workflow.go): splitting WORKFLOW.md into front matter and prompt.
  The YAML decoder is a parameter. Lines are those of a \<^verbatim>\<open>bufio.Scanner\<close>: without the
  line feed and one carriage return before it, and no further line once one does not fit
  the buffer of \<open>max_line\<close> bytes (the scanner's error is not looked at).
\<close>

section \<open>Lines\<close>

definition linefeed :: char where "linefeed = CHR 0x0A"
definition carriage :: char where "carriage = CHR 0x0D"

definition max_line :: nat where "max_line = 10 * 1024 * 1024"

definition dropCR :: "string \<Rightarrow> string" where
  "dropCR l = (if l \<noteq> [] \<and> last l = carriage then butlast l else l)"

function scan_lines :: "string \<Rightarrow> string list" where
  "scan_lines s =
     (if s = [] then []
      else (let line = takeWhile (\<lambda>c. c \<noteq> linefeed) s; rest = dropWhile (\<lambda>c. c \<noteq> linefeed) s
            in if max_line \<le> length line then []
               else dropCR line # scan_lines (tl rest)))"
  by pat_completeness auto
termination
  by (relation "measure length") (auto intro: le_less_trans [OF diff_le_mono [OF length_dropWhile_le]])

declare scan_lines.simps [simp del]

definition trim_right :: "string \<Rightarrow> string" where
  "trim_right l = rev (dropWhile (\<lambda>c. c \<in> {CHR '' '', CHR 0x09, carriage}) (rev l))"

definition fence :: "string \<Rightarrow> bool" where
  "fence l \<longleftrightarrow> trim_right l = ''---''"

definition write_lines :: "string list \<Rightarrow> string" where
  "write_lines ls = concat (map (\<lambda>l. l @ [linefeed]) ls)"

section \<open>workflow.go\<close>

record workflow_definition =
  wd_Config :: "(string, gvalue) gmap"
  wd_PromptTemplate :: string

definition bom :: string where "bom = [CHR 0xEF, CHR 0xBB, CHR 0xBF]"

text \<open>The scan loop: what goes to the front matter, what to the body, and whether the fence closed.\<close>

fun split_loop :: "bool \<Rightarrow> string list \<Rightarrow> string list \<times> string list \<times> bool" where
  "split_loop inFront [] = ([], [], inFront)"
| "split_loop inFront (l # ls) =
     (if inFront \<and> fence l then split_loop False ls
      else (case split_loop inFront ls of (fr, bo, unclosed) \<Rightarrow>
        if inFront then (l # fr, bo, unclosed) else (fr, l # bo, unclosed)))"

definition splitFrontMatter :: "string \<Rightarrow> string \<times> string \<times> bool" where
  "splitFrontMatter content0 =
     (let content = trim_prefix content0 bom
      in case scan_lines content of
           [] \<Rightarrow> ([], content, False)
         | first # rest \<Rightarrow>
             if \<not> fence first then ([], content, False)
             else (case split_loop True rest of (fr, bo, unclosed) \<Rightarrow>
               if unclosed then (write_lines fr, [], True) else (write_lines fr, write_lines bo, True)))"

fun normalizeValue :: "gvalue \<Rightarrow> gvalue" where
  "normalizeValue (VMap m) = VMap (map (\<lambda>p. (fst p, normalizeValue (snd p))) m)"
| "normalizeValue (VList vs) = VList (map normalizeValue vs)"
| "normalizeValue v = v"

definition normalizeMap :: "gvalue \<Rightarrow> (string, gvalue) gmap option" where
  "normalizeMap v = (case v of
     VMap m \<Rightarrow> (case normalizeValue (VMap m) of VMap m' \<Rightarrow> Some m' | _ \<Rightarrow> None) | _ \<Rightarrow> None)"

definition workflow_Parse :: "(string \<Rightarrow> gvalue result) \<Rightarrow> string \<Rightarrow> workflow_definition result" where
  "workflow_Parse yaml content =
     (case splitFrontMatter content of (front, body, hasFront) \<Rightarrow>
        (let done = (\<lambda>cfg. Inr \<lparr>wd_Config = cfg, wd_PromptTemplate = trim_space body\<rparr>)
         in if \<not> hasFront then done []
            else (case yaml front of
                    Inl e \<Rightarrow> Inl (TypedErr ''workflow_parse_error'' (error_string e))
                  | Inr raw \<Rightarrow>
                      if raw = VNil then done []
                      else (case normalizeMap raw of
                              None \<Rightarrow> Inl (TypedErr ''workflow_front_matter_not_a_map''
                                        ''front matter did not decode to a map'')
                            | Some m \<Rightarrow> done m))))"

definition workflow_Load ::
  "(string \<Rightarrow> string result) \<Rightarrow> (string \<Rightarrow> gvalue result) \<Rightarrow> string \<Rightarrow> workflow_definition result" where
  "workflow_Load readFile yaml path =
     (case readFile path of
        Inl _ \<Rightarrow> Inl (TypedErr ''missing_workflow_file'' path)
      | Inr data \<Rightarrow> workflow_Parse yaml data)"

section \<open>Lemmas\<close>

lemma normalizeValue_id [simp]: "normalizeValue v = v"
  by (induction v rule: normalizeValue.induct) (simp_all add: map_idI)

lemma normalizeMap_map: "normalizeMap v = (case v of VMap m \<Rightarrow> Some m | _ \<Rightarrow> None)"
  by (simp add: normalizeMap_def split: gvalue.split del: normalizeValue.simps)

definition line_ok :: "string \<Rightarrow> bool" where
  "line_ok l \<longleftrightarrow> linefeed \<notin> set l \<and> length l < max_line"

lemma scan_lines_Nil [simp]: "scan_lines [] = []"
  by (simp add: scan_lines.simps)

lemma takeWhile_line:
  "linefeed \<notin> set l \<Longrightarrow> takeWhile (\<lambda>c. c \<noteq> linefeed) (l @ linefeed # s) = l"
  "linefeed \<notin> set l \<Longrightarrow> dropWhile (\<lambda>c. c \<noteq> linefeed) (l @ linefeed # s) = linefeed # s"
  by (induction l) auto

lemma scan_lines_line: "line_ok l \<Longrightarrow> scan_lines (l @ linefeed # s) = dropCR l # scan_lines s"
  by (subst scan_lines.simps) (simp add: takeWhile_line line_ok_def Let_def)

lemma write_lines_simps [simp]:
  "write_lines [] = []" "write_lines (l # ls) = l @ linefeed # write_lines ls"
  by (simp_all add: write_lines_def)

interpretation lines: piecewise scan_lines "\<lambda>l. l @ [linefeed]" "\<lambda>l. [dropCR l]" line_ok
  by unfold_locales (simp add: scan_lines_line)

lemma scan_write_lines:
  "list_all line_ok ls \<Longrightarrow> scan_lines (write_lines ls @ s) = map dropCR ls @ scan_lines s"
  unfolding write_lines_def by (simp add: lines.pieces)

lemma scan_long_line:
  assumes "max_line \<le> length l" and "linefeed \<notin> set l"
  shows "scan_lines (l @ s) = []"
proof -
  have "takeWhile (\<lambda>c. c \<noteq> linefeed) (l @ s) = l @ takeWhile (\<lambda>c. c \<noteq> linefeed) s"
    using assms(2) by (intro takeWhile_append2) auto
  with assms(1) show ?thesis by (subst scan_lines.simps) (simp add: Let_def)
qed

lemma split_loop_body: "split_loop False ls = ([], ls, False)"
  by (induction ls) simp_all

lemma split_loop_front:
  "list_all (\<lambda>l. \<not> fence l) fs \<Longrightarrow> fence f \<Longrightarrow> split_loop True (fs @ f # bs) = (fs, bs, False)"
  by (induction fs) (simp_all add: split_loop_body)

lemma split_loop_open: "list_all (\<lambda>l. \<not> fence l) fs \<Longrightarrow> split_loop True fs = (fs, [], True)"
  by (induction fs) simp_all

lemma trim_right_dropCR [simp]: "trim_right (dropCR l) = trim_right l"
proof (cases l rule: rev_cases)
  case (snoc ys y)
  then show ?thesis by (cases "y = carriage") (simp_all add: dropCR_def trim_right_def)
qed (simp add: dropCR_def)

lemma fence_dropCR [simp]: "fence (dropCR l) = fence l"
  by (simp add: fence_def)

section \<open>Properties\<close>

lemma split_document:
  assumes "list_all line_ok (open_fence # fs @ close_fence # bs)" and "fence open_fence"
    and "fence close_fence" and "list_all (\<lambda>l. \<not> fence l) fs"
    and "trim_prefix content bom = write_lines (open_fence # fs @ close_fence # bs)"
  shows "splitFrontMatter content = (write_lines (map dropCR fs), write_lines (map dropCR bs), True)"
proof -
  have scan: "scan_lines (write_lines (open_fence # fs @ close_fence # bs))
      = dropCR open_fence # map dropCR fs @ dropCR close_fence # map dropCR bs"
    using scan_write_lines [OF assms(1), of "[]"] by simp
  have "list_all (\<lambda>l. \<not> fence l) (map dropCR fs)" using assms(4) by (simp add: list_all_iff)
  then have "split_loop True (map dropCR fs @ dropCR close_fence # map dropCR bs)
      = (map dropCR fs, map dropCR bs, False)"
    using assms(3) by (intro split_loop_front) simp_all
  then show ?thesis
    using assms(2) by (simp add: splitFrontMatter_def assms(5) scan del: write_lines_simps)
qed

text \<open>
  C40: A workflow file (with or without a byte order mark) of an opening fence, front matter
  lines, a closing fence and body lines is read back: the decoder gets exactly the front
  matter lines, a map becomes the configuration, an empty front matter gives the empty
  one, anything else is an error with its code, and the prompt is the trimmed body. Fences
  may carry trailing blanks, lines may end in a carriage return.
\<close>

theorem Parse_document:
  assumes "list_all line_ok (open_fence # fs @ close_fence # bs)" and "fence open_fence"
    and "fence close_fence" and "list_all (\<lambda>l. \<not> fence l) fs"
    and "trim_prefix content bom = write_lines (open_fence # fs @ close_fence # bs)"
  shows "workflow_Parse yaml content =
    (case yaml (write_lines (map dropCR fs)) of
       Inl e \<Rightarrow> Inl (TypedErr ''workflow_parse_error'' (error_string e))
     | Inr (VMap m) \<Rightarrow> Inr \<lparr>wd_Config = m, wd_PromptTemplate = trim_space (write_lines (map dropCR bs))\<rparr>
     | Inr VNil \<Rightarrow> Inr \<lparr>wd_Config = [], wd_PromptTemplate = trim_space (write_lines (map dropCR bs))\<rparr>
     | Inr _ \<Rightarrow> Inl (TypedErr ''workflow_front_matter_not_a_map'' ''front matter did not decode to a map''))"
  unfolding workflow_Parse_def split_document [OF assms]
  by (simp add: normalizeMap_map Let_def split: sum.split gvalue.split)

definition ex_yaml :: "string \<Rightarrow> gvalue result" where
  "ex_yaml s = (if s = ''a: 1'' @ [linefeed] then Inr (VMap [(''a'', VInt 1)]) else Inl (PlainErr ''no''))"

theorem Parse_document_witness:
  "workflow_Parse ex_yaml (write_lines [''--- '', ''a: 1'', ''---'', ''do it''])
    = Inr \<lparr>wd_Config = [(''a'', VInt 1)], wd_PromptTemplate = ''do it''\<rparr>"
proof -
  let ?c = "write_lines (''--- '' # [''a: 1''] @ ''---'' # [''do it''])"
  have "list_all line_ok (''--- '' # [''a: 1''] @ ''---'' # [''do it''])"
    by (simp add: line_ok_def linefeed_def max_line_def)
  moreover have "fence ''--- ''" "fence ''---''" "list_all (\<lambda>l. \<not> fence l) [''a: 1'']"
    by (simp_all add: fence_def trim_right_def carriage_def)
  moreover have "trim_prefix ?c bom = ?c"
    by (simp add: trim_prefix_def has_prefix_def bom_def)
  ultimately have "workflow_Parse ex_yaml ?c =
    (case ex_yaml (write_lines (map dropCR [''a: 1''])) of
       Inl e \<Rightarrow> Inl (TypedErr ''workflow_parse_error'' (error_string e))
     | Inr (VMap m) \<Rightarrow> Inr \<lparr>wd_Config = m, wd_PromptTemplate = trim_space (write_lines (map dropCR [''do it'']))\<rparr>
     | Inr VNil \<Rightarrow> Inr \<lparr>wd_Config = [], wd_PromptTemplate = trim_space (write_lines (map dropCR [''do it'']))\<rparr>
     | Inr _ \<Rightarrow> Inl (TypedErr ''workflow_front_matter_not_a_map'' ''front matter did not decode to a map''))"
    by (rule Parse_document)
  then show ?thesis
    by (simp add: ex_yaml_def dropCR_def carriage_def) (simp add: linefeed_def str_eval)
qed

text \<open>
  A file that does not begin with a fence line has no front matter: its configuration is
  empty and its whole text, less a byte order mark and outer white space, is the prompt.
  An opening fence that is never closed makes everything front matter and the prompt empty.
\<close>

theorem Parse_without_fences:
  assumes "list_all line_ok (l # ls)" and "trim_prefix content bom = write_lines (l # ls)"
    and "list_all (\<lambda>x. \<not> fence x) ls"
  shows "if fence l
    then splitFrontMatter content = (write_lines (map dropCR ls), [], True)
    else workflow_Parse yaml content
      = Inr \<lparr>wd_Config = [], wd_PromptTemplate = trim_space (trim_prefix content bom)\<rparr>"
proof -
  have scan: "scan_lines (write_lines (l # ls)) = dropCR l # map dropCR ls"
    using scan_write_lines [OF assms(1), of "[]"] by simp
  have "split_loop True (map dropCR ls) = (map dropCR ls, [], True)"
    using assms(3) by (intro split_loop_open) (simp add: list_all_iff)
  then show ?thesis
    by (simp add: workflow_Parse_def splitFrontMatter_def assms(2) scan del: write_lines_simps)
qed

theorem Parse_without_fences_witness:
  "workflow_Parse ex_yaml (write_lines [''do it'', ''now'']) = Inr \<lparr>wd_Config = [],
     wd_PromptTemplate = trim_space (write_lines [''do it'', ''now''])\<rparr>"
proof -
  have c: "trim_prefix (write_lines [''do it'', ''now'']) bom = write_lines [''do it'', ''now'']"
    by (simp add: trim_prefix_def has_prefix_def bom_def)
  have "list_all line_ok [''do it'', ''now'']" "list_all (\<lambda>x. \<not> fence x) [''now'']" "\<not> fence ''do it''"
    by (simp_all add: line_ok_def linefeed_def max_line_def fence_def trim_right_def carriage_def)
  with Parse_without_fences [OF _ c, of ex_yaml] c show ?thesis by simp
qed

text \<open>
  A line of ten megabytes or more is not reported: the scan ends there and the body is
  silently cut off at it.
\<close>

lemma long_line_truncates:
  assumes "list_all line_ok (open_fence # fs @ close_fence # bs)" and "fence open_fence"
    and "fence close_fence" and "list_all (\<lambda>l. \<not> fence l) fs"
    and "max_line \<le> length l" and "linefeed \<notin> set l"
    and "trim_prefix content bom = write_lines (open_fence # fs @ close_fence # bs) @ l @ s"
  shows "splitFrontMatter content = (write_lines (map dropCR fs), write_lines (map dropCR bs), True)"
proof -
  have scan: "scan_lines (write_lines (open_fence # fs @ close_fence # bs) @ l @ s)
      = dropCR open_fence # map dropCR fs @ dropCR close_fence # map dropCR bs"
    using scan_write_lines [OF assms(1), of "l @ s"] scan_long_line [OF assms(5,6)] by simp
  have "list_all (\<lambda>l. \<not> fence l) (map dropCR fs)" using assms(4) by (simp add: list_all_iff)
  then have "split_loop True (map dropCR fs @ dropCR close_fence # map dropCR bs)
      = (map dropCR fs, map dropCR bs, False)"
    using assms(3) by (intro split_loop_front) simp_all
  then show ?thesis
    using assms(2) by (simp add: splitFrontMatter_def assms(7) scan del: write_lines_simps)
qed

end
