(* ===== verification/ClaudeStream.thy ===== *)
theory ClaudeStream
  imports Config
begin

text \<open>
  Package \<^verbatim>\<open>claude\<close> (client.go, parse.go, tail.go, backend.go): one turn of the agent
  subprocess. The select loop of \<^verbatim>\<open>consume\<close> is a function on the sequence of what it
  receives (lines, a read error, the end of the stream, the read timer, the end of the
  context), each with the clock reading of its handling. The subprocess, the decoding of a
  JSON line and the encoding of a JSON value are parameters; a \<^verbatim>\<open>json.RawMessage\<close> is the
  value it decodes to, \<open>VNil\<close> when it is absent or null.
\<close>

section \<open>parse.go\<close>

definition maxSummaryLen :: nat where "maxSummaryLen = 2000"
definition maxDetailLen :: nat where "maxDetailLen = 4000"
definition malformedLineLimit :: nat where "malformedLineLimit = 10"

record stream_event =
  se_Type :: string
  se_Subtype :: string
  se_SessionID :: string
  se_IsError :: "bool option"
  se_Usage :: gvalue
  se_Message :: gvalue
  se_raw :: "(string, gvalue) gmap option"

definition claude_truncate :: "string \<Rightarrow> nat \<Rightarrow> string" where
  "claude_truncate s n = (if n < length s then take n s else s)"

text \<open>\<^verbatim>\<open>int(t)\<close> of a float64 truncates; out of range it is the smallest int64 (amd64).\<close>

definition int_of_float :: "gofloat \<Rightarrow> int" where
  "int_of_float t = (case t of
     Fin q \<Rightarrow> (let n = (if 0 \<le> q then \<lfloor>q\<rfloor> else \<lceil>q\<rceil>) in if in_int64 n then n else min_int64)
   | _ \<Rightarrow> min_int64)"

definition asInt :: "gvalue \<Rightarrow> int" where
  "asInt v = (case v of VFloat t \<Rightarrow> int_of_float t | VInt n \<Rightarrow> n | _ \<Rightarrow> 0)"

definition usageFromMap :: "(string, gvalue) gmap \<Rightarrow> usage" where
  "usageFromMap m =
     (let input = wrap64 (wrap64 (asInt (vget m ''input_tokens'') + asInt (vget m ''cache_read_input_tokens''))
            + asInt (vget m ''cache_creation_input_tokens''));
          output = asInt (vget m ''output_tokens'')
      in \<lparr>u_InputTokens = input, u_OutputTokens = output, u_TotalTokens = wrap64 (input + output)\<rparr>)"

definition extractUsage :: "gvalue \<Rightarrow> usage option" where
  "extractUsage raw = (case raw of VMap m \<Rightarrow> Some (usageFromMap m) | _ \<Rightarrow> None)"

definition extractMessageUsage :: "gvalue \<Rightarrow> usage option" where
  "extractMessageUsage raw = (case raw of
     VMap m \<Rightarrow> (case vget m ''usage'' of VMap u \<Rightarrow> Some (usageFromMap u) | _ \<Rightarrow> None) | _ \<Rightarrow> None)"

definition extractRateLimits :: "(string, gvalue) gmap option \<Rightarrow> gvalue" where
  "extractRateLimits raw = (case raw of None \<Rightarrow> VNil | Some m \<Rightarrow> vget m ''rate_limits'')"

definition isErrorResult :: "stream_event \<Rightarrow> bool" where
  "isErrorResult evt =
     (if se_IsError evt = Some True then True
      else (let st = to_lower (se_Subtype evt)
            in st \<noteq> [] \<and> st \<noteq> ''success'' \<and> contains_str st ''error''))"

definition text_of :: "gvalue \<Rightarrow> string" where
  "text_of v = (case v of VStr t \<Rightarrow> t | _ \<Rightarrow> [])"

definition nl :: string where "nl = [CHR 0x0A]"

definition toolResultText :: "gvalue \<Rightarrow> string" where
  "toolResultText content = (case content of
     VStr c \<Rightarrow> c
   | VList bs \<Rightarrow> join_str nl (filter (\<lambda>t. t \<noteq> [])
       (map (\<lambda>b. case b of VMap bm \<Rightarrow> text_of (vget bm ''text'') | _ \<Rightarrow> []) bs))
   | _ \<Rightarrow> [])"

text \<open>The arrows of the detail texts are the UTF-8 encodings of U+2192 and U+2190.\<close>

definition arrow_right :: string where "arrow_right = [CHR 0xE2, CHR 0x86, CHR 0x92]"
definition arrow_left :: string where "arrow_left = [CHR 0xE2, CHR 0x86, CHR 0x90]"

definition encodeInput :: "(gvalue \<Rightarrow> string option) \<Rightarrow> gvalue \<Rightarrow> string" where
  "encodeInput marshal inp =
     (if inp = VNil then ''{}'' else case marshal inp of Some b \<Rightarrow> b | None \<Rightarrow> [])"

text \<open>What one content block adds to the summary and to the detail.\<close>

definition describe_block :: "(gvalue \<Rightarrow> string option) \<Rightarrow> (string, gvalue) gmap \<Rightarrow> string list \<times> string list" where
  "describe_block marshal bm =
     (case vget bm ''type'' of
        VStr typ \<Rightarrow>
          if typ = ''text'' then
            (let t = text_of (vget bm ''text'') in (if t \<noteq> [] then [t] else [], []))
          else if typ = ''thinking'' then
            (let t = text_of (vget bm ''thinking'')
             in ([''thinking''], if t \<noteq> [] then [''thinking'' @ nl @ t] else []))
          else if typ = ''tool_use'' then
            (let name0 = text_of (vget bm ''name''); name = (if name0 = [] then ''tool_use'' else name0)
             in ([name], [arrow_right @ '' '' @ name @ '' '' @ encodeInput marshal (vget bm ''input'')]))
          else if typ = ''tool_result'' then
            (let r = toolResultText (vget bm ''content'')
             in ([''tool_result''], if r \<noteq> [] then [arrow_left @ '' result'' @ nl @ r] else []))
          else ([typ], [])
      | _ \<Rightarrow> ([], []))"

definition describeMessage :: "(gvalue \<Rightarrow> string option) \<Rightarrow> gvalue \<Rightarrow> string \<times> string" where
  "describeMessage marshal raw =
     (case raw of
        VMap m \<Rightarrow>
          (case vget m ''content'' of
             VList content \<Rightarrow>
               (let parts = map (\<lambda>b. case b of VMap bm \<Rightarrow> describe_block marshal bm | _ \<Rightarrow> ([], [])) content
                in (claude_truncate (trim_space (join_str '' '' (concat (map fst parts)))) maxSummaryLen,
                    claude_truncate (trim_space (join_str (nl @ nl) (concat (map snd parts)))) maxDetailLen))
           | _ \<Rightarrow> ([], []))
      | _ \<Rightarrow> ([], []))"

section \<open>client.go\<close>

definition PendingID :: string where "PendingID = ''pending''"

record claude_client =
  cl_Command :: string
  cl_Model :: string
  cl_ReasoningEffort :: string
  cl_ResumeAcrossTurns :: bool
  cl_TurnTimeoutMs :: int
  cl_ReadTimeoutMs :: int

record session =
  ss_Workspace :: string
  ss_Identifier :: string
  ss_Title :: string
  ss_SessionID :: string
  ss_turn :: int

definition StartSession :: "string \<Rightarrow> string \<Rightarrow> string \<Rightarrow> session" where
  "StartSession workspace identifier title =
     \<lparr>ss_Workspace = workspace, ss_Identifier = identifier, ss_Title = title,
      ss_SessionID = PendingID, ss_turn = 0\<rparr>"

definition apostrophe :: char where "apostrophe = CHR 0x27"
definition bslash :: char where "bslash = CHR 0x5C"

definition shellSingleQuote :: "string \<Rightarrow> string" where
  "shellSingleQuote s =
     apostrophe # concat (map (\<lambda>c. if c = apostrophe then [apostrophe, bslash, apostrophe, apostrophe] else [c]) s)
       @ [apostrophe]"

definition buildCommand :: "claude_client \<Rightarrow> string \<Rightarrow> string" where
  "buildCommand c sessionID =
     cl_Command c
     @ (if cl_Model c \<noteq> [] then '' --model '' @ shellSingleQuote (cl_Model c) else [])
     @ (if cl_ReasoningEffort c \<noteq> [] then '' --effort '' @ shellSingleQuote (cl_ReasoningEffort c) else [])
     @ (if cl_ResumeAcrossTurns c \<and> sessionID \<noteq> [] \<and> sessionID \<noteq> PendingID
        then '' --resume '' @ sessionID else [])"

text \<open>What the event of one emission has in common: kind, time, process, session and turn.\<close>

definition ev :: "string \<Rightarrow> int \<Rightarrow> string \<Rightarrow> string \<Rightarrow> string \<Rightarrow> agent_event" where
  "ev kind now pid sid turnID =
     \<lparr>ev_Event = kind, ev_Timestamp = now, ev_AgentPID = Some pid, ev_SessionID = sid,
      ev_TurnID = turnID, ev_Message = [], ev_Detail = [], ev_Usage = None, ev_StepUsage = None,
      ev_RateLimits = VNil\<rparr>"

text \<open>
  \<^verbatim>\<open>handleEvent\<close>: the events it emits, the session id it leaves, whether the start of the
  session has been announced, and, when the turn is over, its outcome.
\<close>

record handled =
  hd_Emitted :: "agent_event list"
  hd_SessionID :: string
  hd_Started :: bool
  hd_Outcome :: "usage option result option"

definition handleEvent ::
  "(gvalue \<Rightarrow> string option) \<Rightarrow> int \<Rightarrow> string \<Rightarrow> string \<Rightarrow> string \<Rightarrow> bool \<Rightarrow> stream_event \<Rightarrow> handled" where
  "handleEvent marshal now pid turnID sid started evt =
     (let goOn = (\<lambda>e. \<lparr>hd_Emitted = [e], hd_SessionID = sid, hd_Started = started, hd_Outcome = None\<rparr>)
      in if se_Type evt = ''system'' then
           (if se_Subtype evt = ''init'' \<and> se_SessionID evt \<noteq> [] then
              \<lparr>hd_Emitted = (if started then []
                 else [ev EventSessionStarted now pid (se_SessionID evt) turnID]),
               hd_SessionID = se_SessionID evt, hd_Started = True, hd_Outcome = None\<rparr>
            else goOn (ev EventOtherMessage now pid sid turnID))
         else if se_Type evt = ''assistant'' then
           (let d = describeMessage marshal (se_Message evt)
            in goOn ((ev EventNotification now pid sid turnID)
                 \<lparr>ev_Message := fst d, ev_Detail := snd d,
                  ev_StepUsage := extractMessageUsage (se_Message evt),
                  ev_RateLimits := extractRateLimits (se_raw evt)\<rparr>))
         else if se_Type evt = ''user'' then
           (let d = describeMessage marshal (se_Message evt)
            in goOn ((ev EventOtherMessage now pid sid turnID)
                 \<lparr>ev_Message := fst d, ev_Detail := snd d\<rparr>))
         else if se_Type evt = ''result'' then
           (let sid' = (if se_SessionID evt \<noteq> [] then se_SessionID evt else sid);
                start = (if se_SessionID evt \<noteq> [] \<and> \<not> started
                         then [ev EventSessionStarted now pid sid' turnID] else []);
                started' = (started \<or> se_SessionID evt \<noteq> []);
                usage = extractUsage (se_Usage evt); rate = extractRateLimits (se_raw evt)
            in if isErrorResult evt then
                 \<lparr>hd_Emitted = start @ [(ev EventTurnEndedWithError now pid sid' turnID)
                     \<lparr>ev_Usage := usage, ev_RateLimits := rate, ev_Message := ''result reported error''\<rparr>],
                  hd_SessionID = sid', hd_Started = started',
                  hd_Outcome = Some (Inl (TypedErr ''response_error'' ''result is_error''))\<rparr>
               else
                 \<lparr>hd_Emitted = start @ [(ev EventTurnCompleted now pid sid' turnID)
                     \<lparr>ev_Usage := usage, ev_RateLimits := rate\<rparr>],
                  hd_SessionID = sid', hd_Started = started', hd_Outcome = Some (Inr usage)\<rparr>)
         else goOn (ev EventOtherMessage now pid sid turnID))"

text \<open>What the select loop receives; \<open>SDone True\<close> is the end of the context by its deadline.\<close>

datatype stimulus = SDone bool | SReadTimer | SLine string | SReadErr string | SEOF

record consumed =
  cs_Emitted :: "agent_event list"
  cs_SessionID :: string
  cs_Outcome :: "usage option result option"

definition stop_with :: "string \<Rightarrow> agent_event list \<Rightarrow> go_error \<Rightarrow> consumed" where
  "stop_with sid evs e = \<lparr>cs_Emitted = evs, cs_SessionID = sid, cs_Outcome = Some (Inl e)\<rparr>"

abbreviation and_then :: "agent_event list \<Rightarrow> consumed \<Rightarrow> consumed" where
  "and_then evs r \<equiv> r\<lparr>cs_Emitted := evs @ cs_Emitted r\<rparr>"

text \<open>
  \<^verbatim>\<open>consume\<close>; \<open>cs_Outcome\<close> is \<open>None\<close> while the turn is still running. The read timer only
  exists when its timeout is positive, and is dropped with the first event.
\<close>

fun consume ::
  "(string \<Rightarrow> stream_event result) \<Rightarrow> (gvalue \<Rightarrow> string option) \<Rightarrow> claude_client \<Rightarrow> string \<Rightarrow> string
    \<Rightarrow> string \<Rightarrow> bool \<Rightarrow> nat \<Rightarrow> bool \<Rightarrow> (int \<times> stimulus) list \<Rightarrow> consumed" where
  "consume parse marshal c pid turnID sid started malformed sawEvent [] =
     \<lparr>cs_Emitted = [], cs_SessionID = sid, cs_Outcome = None\<rparr>"
| "consume parse marshal c pid turnID sid started malformed sawEvent ((now, x) # xs) =
     (let again = (\<lambda>m. consume parse marshal c pid turnID sid started m sawEvent xs)
      in case x of
        SDone deadline \<Rightarrow>
          (if deadline then
             stop_with sid [(ev EventTurnFailed now pid sid turnID)\<lparr>ev_Message := ''turn timeout''\<rparr>]
               (TypedErr ''turn_timeout'' [])
           else stop_with sid [ev EventTurnCancelled now pid sid turnID] (TypedErr ''turn_cancelled'' []))
      | SReadTimer \<Rightarrow>
          (if 0 < duration_ms (cl_ReadTimeoutMs c) \<and> \<not> sawEvent then
             stop_with sid [(ev EventStartupFailed now pid sid turnID)\<lparr>ev_Message := ''response timeout''\<rparr>]
               (TypedErr ''response_timeout'' [])
           else again malformed)
      | SEOF \<Rightarrow>
          stop_with sid [(ev EventTurnFailed now pid sid turnID)\<lparr>ev_Message := ''stream ended before result''\<rparr>]
            (TypedErr ''turn_failed'' ''stream ended before result'')
      | SReadErr e \<Rightarrow>
          stop_with sid [(ev EventTurnFailed now pid sid turnID)\<lparr>ev_Message := ''stdout read error''\<rparr>]
            (TypedErr ''response_error'' e)
      | SLine line \<Rightarrow>
          (if line = [] then again malformed
           else case parse line of
             Inl _ \<Rightarrow>
               (let bad = [(ev EventMalformed now pid sid turnID)\<lparr>ev_Message := ''malformed line''\<rparr>]
                in if malformedLineLimit \<le> malformed + 1 then
                     stop_with sid bad (TypedErr ''stream_corruption''
                       (itoa (int (malformed + 1)) @ '' consecutive malformed lines''))
                   else and_then bad (again (malformed + 1)))
           | Inr evt \<Rightarrow>
               (let h = handleEvent marshal now pid turnID sid started evt
                in case hd_Outcome h of
                     Some r \<Rightarrow> \<lparr>cs_Emitted = hd_Emitted h, cs_SessionID = hd_SessionID h, cs_Outcome = Some r\<rparr>
                   | None \<Rightarrow> and_then (hd_Emitted h)
                       (consume parse marshal c pid turnID (hd_SessionID h) (hd_Started h) 0 True xs))))"

text \<open>
  \<^verbatim>\<open>RunTurn\<close>, with the subprocess as a parameter: one of its pipes or its start fails, or it gives the
  process id, what the loop receives, and the lines of its standard error.
\<close>

datatype launch_error = StdinPipe | StdoutPipe | StderrPipe | NotStarted go_error

definition launch_failure :: "launch_error \<Rightarrow> go_error" where
  "launch_failure e = (case e of
     StdinPipe \<Rightarrow> TypedErr ''response_error'' ''stdin pipe''
   | StdoutPipe \<Rightarrow> TypedErr ''response_error'' ''stdout pipe''
   | StderrPipe \<Rightarrow> TypedErr ''response_error'' ''stderr pipe''
   | NotStarted e \<Rightarrow> TypedErr ''claude_not_found'' (error_string e))"

definition stderr_limit :: nat where "stderr_limit = 8 * 1024"

definition tail_add :: "nat \<Rightarrow> string \<Rightarrow> string \<Rightarrow> string" where
  "tail_add limit buf line =
     (let b = buf @ line @ nl in if limit < length b then drop (length b - limit) b else b)"

definition boundedTail :: "nat \<Rightarrow> string list \<Rightarrow> string" where
  "boundedTail limit ls = foldl (tail_add limit) [] ls"

record turn_run =
  tu_Emitted :: "agent_event list"
  tu_Session :: session
  tu_Outcome :: "usage option result option"

definition with_tail :: "string \<Rightarrow> usage option result option \<Rightarrow> usage option result option" where
  "with_tail tail out = (case out of
     Some (Inl (TypedErr code msg)) \<Rightarrow> Some (Inl (TypedErr code (if msg = [] then tail else msg)))
   | r \<Rightarrow> r)"

definition RunTurn ::
  "(string \<Rightarrow> string \<Rightarrow> string \<Rightarrow> launch_error + (string \<times> (int \<times> stimulus) list \<times> string list))
    \<Rightarrow> (string \<Rightarrow> stream_event result) \<Rightarrow> (gvalue \<Rightarrow> string option) \<Rightarrow> claude_client \<Rightarrow> session \<Rightarrow> string
    \<Rightarrow> turn_run" where
  "RunTurn spawn parse marshal c s0 prompt =
     (let s = s0\<lparr>ss_turn := ss_turn s0 + 1\<rparr>; turnID = itoa (ss_turn s)
      in case spawn (buildCommand c (ss_SessionID s)) (ss_Workspace s) prompt of
           Inl e \<Rightarrow> \<lparr>tu_Emitted = [], tu_Session = s,
                     tu_Outcome = Some (Inl (launch_failure e))\<rparr>
         | Inr (pid, xs, errs) \<Rightarrow>
             (let r = consume parse marshal c pid turnID (ss_SessionID s) False 0 False xs
              in \<lparr>tu_Emitted = cs_Emitted r, tu_Session = s\<lparr>ss_SessionID := cs_SessionID r\<rparr>,
                  tu_Outcome = with_tail (boundedTail stderr_limit errs) (cs_Outcome r)\<rparr>))"

section \<open>The shape of a turn\<close>

definition terminal :: "agent_event \<Rightarrow> bool" where
  "terminal e \<longleftrightarrow> ev_Event e \<in> {EventTurnCompleted, EventTurnFailed, EventTurnCancelled,
     EventTurnEndedWithError, EventStartupFailed}"

definition plain_event :: "agent_event \<Rightarrow> bool" where
  "plain_event e \<longleftrightarrow> \<not> terminal e \<and> ev_Usage e = None"

definition turn_shape :: "agent_event list \<Rightarrow> usage option result option \<Rightarrow> bool" where
  "turn_shape evs out \<longleftrightarrow> (\<exists>pre last. evs = pre @ last \<and> list_all plain_event pre
     \<and> (case out of
          None \<Rightarrow> last = []
        | Some (Inr u) \<Rightarrow> (\<exists>e. last = [e] \<and> ev_Event e = EventTurnCompleted \<and> ev_Usage e = u)
        | Some (Inl _) \<Rightarrow> last = [] \<or> (\<exists>e. last = [e] \<and> terminal e \<and> ev_Event e \<noteq> EventTurnCompleted)))"

lemmas event_names = EventSessionStarted_def EventStartupFailed_def EventTurnCompleted_def
  EventTurnFailed_def EventTurnCancelled_def EventTurnEndedWithError_def EventNotification_def
  EventOtherMessage_def EventMalformed_def

lemma ev_fields [simp]:
  "ev_Event (ev k now pid sid turn) = k" "ev_Usage (ev k now pid sid turn) = None"
  "ev_TurnID (ev k now pid sid turn) = turn" "ev_SessionID (ev k now pid sid turn) = sid"
  by (simp_all add: ev_def)

lemma plain_kinds [simp]:
  "plain_event (ev EventSessionStarted now pid sid turn)"
  "plain_event (ev EventOtherMessage now pid sid turn)"
  "plain_event (ev EventNotification now pid sid turn)"
  "plain_event (ev EventMalformed now pid sid turn)"
  by (simp_all add: plain_event_def terminal_def event_names)

lemma plain_upd [simp]:
  "plain_event (e\<lparr>ev_Message := m\<rparr>) = plain_event e" "plain_event (e\<lparr>ev_Detail := d\<rparr>) = plain_event e"
  "plain_event (e\<lparr>ev_StepUsage := u\<rparr>) = plain_event e" "plain_event (e\<lparr>ev_RateLimits := v\<rparr>) = plain_event e"
  by (simp_all add: plain_event_def terminal_def)

lemma turn_shape_stop:
  "terminal e \<Longrightarrow> ev_Event e \<noteq> EventTurnCompleted \<Longrightarrow> turn_shape [e] (Some (Inl err))"
  "plain_event e \<Longrightarrow> turn_shape [e] (Some (Inl err))"
  unfolding turn_shape_def by (rule exI [of _ "[]"], simp) (rule exI [of _ "[e]"], simp)

lemma turn_shape_prepend:
  assumes "list_all plain_event evs" and "turn_shape evs' out"
  shows "turn_shape (evs @ evs') out"
proof -
  from assms(2) obtain pre last where "evs' = pre @ last" "list_all plain_event pre"
    "case out of
          None \<Rightarrow> last = []
        | Some (Inr u) \<Rightarrow> (\<exists>e. last = [e] \<and> ev_Event e = EventTurnCompleted \<and> ev_Usage e = u)
        | Some (Inl _) \<Rightarrow> last = [] \<or> (\<exists>e. last = [e] \<and> terminal e \<and> ev_Event e \<noteq> EventTurnCompleted)"
    unfolding turn_shape_def by blast
  then show ?thesis
    unfolding turn_shape_def using assms(1) by (intro exI [of _ "evs @ pre"] exI [of _ last]) simp
qed

lemma turn_shape_end:
  "ev_Event e = EventTurnCompleted \<Longrightarrow> turn_shape [e] (Some (Inr (ev_Usage e)))"
  unfolding turn_shape_def by (rule exI [of _ "[]"]) simp

lemma handleEvent_shape:
  "turn_shape (hd_Emitted (handleEvent marshal now pid turn sid started evt))
     (hd_Outcome (handleEvent marshal now pid turn sid started evt))"
proof (cases "se_Type evt = ''result''")
  case True
  let ?start = "if se_SessionID evt \<noteq> [] \<and> \<not> started then [ev EventSessionStarted now pid (se_SessionID evt) turn] else []"
  show ?thesis
  proof (cases "isErrorResult evt")
    case err: True
    have "turn_shape (?start @ [(ev EventTurnEndedWithError now pid
        (if se_SessionID evt \<noteq> [] then se_SessionID evt else sid) turn)
          \<lparr>ev_Usage := extractUsage (se_Usage evt), ev_RateLimits := extractRateLimits (se_raw evt),
           ev_Message := ''result reported error''\<rparr>]) (Some (Inl (TypedErr ''response_error'' ''result is_error'')))"
      by (intro turn_shape_prepend turn_shape_stop(1)) (simp_all add: terminal_def event_names plain_event_def)
    with True err show ?thesis by (auto simp: handleEvent_def Let_def)
  next
    case ok: False
    let ?e = "(ev EventTurnCompleted now pid (if se_SessionID evt \<noteq> [] then se_SessionID evt else sid) turn)
          \<lparr>ev_Usage := extractUsage (se_Usage evt), ev_RateLimits := extractRateLimits (se_raw evt)\<rparr>"
    have "turn_shape (?start @ [?e]) (Some (Inr (ev_Usage ?e)))"
      by (intro turn_shape_prepend turn_shape_end) simp_all
    with True ok show ?thesis by (auto simp: handleEvent_def Let_def)
  qed
next
  case False
  then have "hd_Outcome (handleEvent marshal now pid turn sid started evt) = None
    \<and> list_all plain_event (hd_Emitted (handleEvent marshal now pid turn sid started evt))"
    by (simp add: handleEvent_def Let_def)
  then show ?thesis
    using turn_shape_prepend [of _ "[]" None] by (simp add: turn_shape_def)
qed

lemma turn_shape_plain: "turn_shape evs None \<longleftrightarrow> list_all plain_event evs"
  by (auto simp: turn_shape_def)

lemma consume_shape:
  "turn_shape (cs_Emitted (consume parse marshal c pid turn sid started bad saw xs))
     (cs_Outcome (consume parse marshal c pid turn sid started bad saw xs))"
proof (induction xs arbitrary: sid started bad saw)
  case Nil
  then show ?case by (simp add: turn_shape_plain)
next
  case (Cons p xs)
  obtain now x where p: "p = (now, x)" by (cases p)
  show ?case
  proof (cases x)
    case (SLine line)
    show ?thesis
    proof (cases "line = [] \<or> (\<exists>e. parse line = Inl e)")
      case True
      then show ?thesis
        using p SLine Cons.IH
        by (auto simp: Let_def stop_with_def intro!: turn_shape_stop(2) turn_shape_prepend [of "[_]", simplified])
    next
      case False
      then obtain evt where evt: "line \<noteq> []" "parse line = Inr evt" by (cases "parse line") auto
      note h = handleEvent_shape [of marshal now pid turn sid started evt]
      show ?thesis
        using p SLine evt h Cons.IH
        by (auto simp: Let_def turn_shape_plain split: option.splits intro!: turn_shape_prepend)
    qed
  qed (use p Cons.IH in \<open>auto simp: Let_def stop_with_def terminal_def event_names intro!: turn_shape_stop(1)\<close>)
qed

text \<open>The usages a list of events carries, and the number of announced sessions.\<close>

definition usages :: "agent_event list \<Rightarrow> usage list" where
  "usages evs = concat (map (\<lambda>e. case ev_Usage e of None \<Rightarrow> [] | Some u \<Rightarrow> [u]) evs)"

definition starts :: "agent_event list \<Rightarrow> nat" where
  "starts evs = length (filter (\<lambda>e. ev_Event e = EventSessionStarted) evs)"

lemma starts_simps [simp]:
  "starts [] = 0" "starts (evs @ evs') = starts evs + starts evs'"
  "starts (e # evs) = (if ev_Event e = EventSessionStarted then 1 else 0) + starts evs"
  by (simp_all add: starts_def)

lemma usages_plain: "list_all plain_event evs \<Longrightarrow> usages evs = []"
  by (auto simp: usages_def plain_event_def list_all_iff)

lemma usages_append [simp]: "usages (evs @ evs') = usages evs @ usages evs'"
  by (simp add: usages_def)

lemma handleEvent_starts:
  "(if started then 1 else 0) + starts (hd_Emitted (handleEvent marshal now pid turn sid started evt))
     = (if hd_Started (handleEvent marshal now pid turn sid started evt) then 1 else 0)"
  by (simp add: handleEvent_def Let_def) (simp add: event_names)

lemma consume_starts:
  "(if started then 1 else 0)
     + starts (cs_Emitted (consume parse marshal c pid turn sid started bad saw xs)) \<le> 1"
proof (induction xs arbitrary: sid started bad saw)
  case (Cons p xs)
  obtain now x where p: "p = (now, x)" by (cases p)
  show ?case
  proof (cases x)
    case (SLine line)
    show ?thesis
    proof (cases "line = [] \<or> (\<exists>e. parse line = Inl e)")
      case True
      then show ?thesis
        using p SLine Cons.IH [of started] by (auto simp: Let_def stop_with_def) (simp_all add: event_names)
    next
      case False
      then obtain evt where evt: "line \<noteq> []" "parse line = Inr evt" by (cases "parse line") auto
      let ?h = "handleEvent marshal now pid turn sid started evt"
      show ?thesis
        using p SLine evt handleEvent_starts [of started marshal now pid turn sid evt]
          Cons.IH [of "hd_Started ?h" "hd_SessionID ?h" _ True]
        by (auto simp: Let_def split: option.splits if_splits)
    qed
  qed (use p Cons.IH [of started] in \<open>auto simp: Let_def stop_with_def event_names\<close>)
qed simp

lemma usages_simps [simp]: "usages [] = []" "usages [e] = (case ev_Usage e of None \<Rightarrow> [] | Some u \<Rightarrow> [u])"
  by (simp_all add: usages_def)

lemma turn_shape_usages:
  "turn_shape evs (Some (Inr u)) \<Longrightarrow> usages evs = (case u of None \<Rightarrow> [] | Some v \<Rightarrow> [v])"
  by (auto simp: turn_shape_def usages_plain)

section \<open>Properties\<close>

text \<open>
  C17: In a turn the session is announced at most once, only the last event can end the turn
  or carry the turn's usage, and the turn succeeds exactly when that event says completed,
  with the usage it carries: whatever is added up from the events counts each turn once.
\<close>

theorem turn_reports_once:
  fixes parse marshal c pid turn sid xs
  defines "r \<equiv> consume parse marshal c pid turn sid False 0 False xs"
  shows "starts (cs_Emitted r) \<le> 1
    \<and> list_all plain_event (butlast (cs_Emitted r))
    \<and> ((\<exists>u. cs_Outcome r = Some (Inr u)) =
        (\<exists>e \<in> set (cs_Emitted r). ev_Event e = EventTurnCompleted))
    \<and> (cs_Outcome r = Some (Inr u) \<longrightarrow> usages (cs_Emitted r) = (case u of None \<Rightarrow> [] | Some v \<Rightarrow> [v]))
    \<and> (cs_Outcome r = None \<longrightarrow> usages (cs_Emitted r) = [])"
proof -
  obtain pre last where pl: "cs_Emitted r = pre @ last" "list_all plain_event pre"
    and l: "case cs_Outcome r of
          None \<Rightarrow> last = []
        | Some (Inr u) \<Rightarrow> (\<exists>e. last = [e] \<and> ev_Event e = EventTurnCompleted \<and> ev_Usage e = u)
        | Some (Inl _) \<Rightarrow> last = [] \<or> (\<exists>e. last = [e] \<and> terminal e \<and> ev_Event e \<noteq> EventTurnCompleted)"
    using consume_shape [of parse marshal c pid turn sid False 0 False xs]
    unfolding r_def turn_shape_def by blast
  have not_done: "ev_Event e \<noteq> EventTurnCompleted" if "e \<in> set pre" for e
    using pl(2) that by (auto simp: list_all_iff plain_event_def terminal_def)
  have "starts (cs_Emitted r) \<le> 1"
    using consume_starts [of False parse marshal c pid turn sid 0 False xs] by (simp add: r_def)
  moreover have "length last \<le> 1" using l by (auto split: option.splits sum.splits)
  then have "list_all plain_event (butlast (cs_Emitted r))"
    using pl by (cases last) (auto simp: list_all_iff butlast_append dest: in_set_butlastD)
  moreover have "(\<exists>u. cs_Outcome r = Some (Inr u)) =
        (\<exists>e \<in> set (cs_Emitted r). ev_Event e = EventTurnCompleted)"
    using l not_done by (auto simp: pl(1) split: option.splits sum.splits)
  moreover have "cs_Outcome r = Some (Inr u) \<longrightarrow> usages (cs_Emitted r) = (case u of None \<Rightarrow> [] | Some v \<Rightarrow> [v])"
    using l by (auto simp: pl(1) usages_plain [OF pl(2)])
  moreover have "cs_Outcome r = None \<longrightarrow> usages (cs_Emitted r) = []"
    using l by (auto simp: pl(1) usages_plain [OF pl(2)])
  ultimately show ?thesis by blast
qed

definition ex_result_event :: stream_event where
  "ex_result_event = \<lparr>se_Type = ''result'', se_Subtype = ''success'', se_SessionID = ''s1'', se_IsError = None,
     se_Usage = VMap [(''input_tokens'', VFloat (Fin 7)), (''output_tokens'', VFloat (Fin 2))],
     se_Message = VNil, se_raw = None\<rparr>"

definition ex_parse :: "string \<Rightarrow> stream_event result" where
  "ex_parse l = (if l = ''r'' then Inr ex_result_event else Inl (PlainErr ''bad''))"

definition ex_client :: claude_client where
  "ex_client = \<lparr>cl_Command = ''claude'', cl_Model = ''it's'', cl_ReasoningEffort = [],
     cl_ResumeAcrossTurns = True, cl_TurnTimeoutMs = 0, cl_ReadTimeoutMs = 0\<rparr>"

theorem turn_reports_once_witness:
  "usages (cs_Emitted (consume ex_parse (\<lambda>_. None) ex_client ''1'' ''1'' PendingID False 0 False
      [(0, SLine ''x''), (1, SLine ''r''), (2, SEOF)]))
    = [\<lparr>u_InputTokens = 7, u_OutputTokens = 2, u_TotalTokens = 9\<rparr>]"
proof -
  let ?r = "consume ex_parse (\<lambda>_. None) ex_client ''1'' ''1'' PendingID False 0 False
      [(0, SLine ''x''), (1, SLine ''r''), (2, SEOF)]"
  have "contains_str ''success'' ''error'' = False" "to_lower ''success'' = ''success''"
    by (simp_all add: has_prefix_def str_eval)
  then have "cs_Outcome ?r = Some (Inr (Some \<lparr>u_InputTokens = 7, u_OutputTokens = 2, u_TotalTokens = 9\<rparr>))"
    by (simp add: ex_parse_def ex_result_event_def malformedLineLimit_def handleEvent_def Let_def
        isErrorResult_def extractUsage_def usageFromMap_def vget_def map_get_def asInt_def int_of_float_def
        in_int64_def min_int64_def max_int64_def wrap64_def)
  with turn_reports_once [of ex_parse "\<lambda>_. None" ex_client "''1''" "''1''" PendingID
      "[(0, SLine ''x''), (1, SLine ''r''), (2, SEOF)]"
      "Some \<lparr>u_InputTokens = 7, u_OutputTokens = 2, u_TotalTokens = 9\<rparr>"]
  show ?thesis by simp
qed

text \<open>
  Ten malformed lines in a row, read off a whole stream of lines: the count goes back to zero at
  each good line, and empty lines are not counted.
\<close>

lemma itoa_ten: "itoa 10 = ''10''"
  by (simp add: itoa_def nat_digits.simps char_of_def bit_Suc_0_iff)

definition has_run :: "bool list \<Rightarrow> bool" where
  "has_run bs \<longleftrightarrow> (\<exists>us ws. bs = us @ replicate 10 True @ ws)"

lemma has_run_False: "n < 10 \<Longrightarrow> has_run (replicate n True @ False # bs) \<longleftrightarrow> has_run bs"
proof
  assume n: "n < 10" and "has_run (replicate n True @ False # bs)"
  then obtain us ws where e: "replicate n True @ False # bs = us @ replicate 10 True @ ws"
    by (auto simp: has_run_def)
  have "n < length us"
  proof (rule ccontr)
    assume "\<not> n < length us"
    moreover have "n - length us < 10" using n by simp
    ultimately have "(us @ replicate 10 True @ ws) ! n" by (simp add: nth_append)
    then show False unfolding e [symmetric] by (simp add: nth_append)
  qed
  then have "bs = drop (Suc n) us @ replicate 10 True @ ws"
    using arg_cong [OF e, of "drop (Suc n)"] by simp
  then show "has_run bs" by (auto simp: has_run_def)
next
  assume "has_run bs"
  then obtain us ws where "bs = us @ replicate 10 True @ ws" by (auto simp: has_run_def)
  then have "replicate n True @ False # bs = (replicate n True @ False # us) @ replicate 10 True @ ws" by simp
  then show "has_run (replicate n True @ False # bs)" unfolding has_run_def by blast
qed

lemma has_run_map:
  "has_run (map B ls) \<longleftrightarrow> (\<exists>us vs ws. ls = us @ vs @ ws \<and> length vs = 10 \<and> (\<forall>l \<in> set vs. B l))"
proof
  assume "has_run (map B ls)"
  then obtain us ws where e: "map B ls = us @ replicate 10 True @ ws" by (auto simp: has_run_def)
  define vs where "vs = take 10 (drop (length us) ls)"
  have m: "map B vs = replicate 10 True" by (simp add: vs_def take_map [symmetric] drop_map [symmetric] e)
  have "ls = take (length us) ls @ vs @ drop 10 (drop (length us) ls)"
    unfolding vs_def append_take_drop_id ..
  moreover have "length vs = 10" using arg_cong [OF m, of length] by simp
  moreover have "\<forall>l \<in> set vs. B l" using arg_cong [OF m, of set] by auto
  ultimately show "\<exists>us vs ws. ls = us @ vs @ ws \<and> length vs = 10 \<and> (\<forall>l \<in> set vs. B l)" by blast
next
  assume "\<exists>us vs ws. ls = us @ vs @ ws \<and> length vs = 10 \<and> (\<forall>l \<in> set vs. B l)"
  then obtain us vs ws where "ls = us @ vs @ ws" "length vs = 10" "\<forall>l \<in> set vs. B l" by blast
  then have "map B ls = map B us @ replicate 10 True @ map B ws"
    by (simp add: map_replicate_const cong: map_cong)
  then show "has_run (map B ls)" unfolding has_run_def by blast
qed

lemma handleEvent_goes_on: "se_Type e \<noteq> ''result'' \<Longrightarrow> hd_Outcome (handleEvent enc now pid turn sid started e) = None"
  by (simp add: handleEvent_def Let_def)

lemma lines_outcome:
  assumes "bad < 10" and "\<forall>p \<in> set ls. \<forall>e. parse (snd p) = Inr e \<longrightarrow> se_Type e \<noteq> ''result''"
  shows "cs_Outcome (consume parse marshal c pid turn sid started bad saw (map (\<lambda>(t, l). (t, SLine l)) ls)) =
    (if has_run (replicate bad True @ map (\<lambda>l. \<exists>e. parse l = Inl e) (filter (\<lambda>l. l \<noteq> []) (map snd ls)))
     then Some (Inl (TypedErr ''stream_corruption'' ''10 consecutive malformed lines'')) else None)"
  using assms
proof (induction ls arbitrary: sid started bad saw)
  case Nil
  have "\<not> has_run (replicate bad True)"
    using Nil.prems(1) by (auto simp: has_run_def dest: arg_cong [where f = length])
  then show ?case by simp
next
  case (Cons p ls)
  obtain t l where p: "p = (t, l)" by (cases p)
  have rest: "\<forall>p \<in> set ls. \<forall>e. parse (snd p) = Inr e \<longrightarrow> se_Type e \<noteq> ''result''" using Cons.prems(2) by simp
  consider "l = []" | e where "l \<noteq> []" "parse l = Inl e" | e where "l \<noteq> []" "parse l = Inr e" "se_Type e \<noteq> ''result''"
    using Cons.prems(2) p by (cases "parse l") auto
  then show ?case
  proof cases
    case 1
    then show ?thesis using Cons.IH [OF Cons.prems(1) rest] by (simp add: p)
  next
    case 2
    let ?bs = "map (\<lambda>l. \<exists>e. parse l = Inl e) (filter (\<lambda>l. l \<noteq> []) (map snd ls))"
    have "replicate bad True @ True # ?bs = replicate (Suc bad) True @ ?bs"
      by (simp add: replicate_app_Cons_same)
    then have shift: "has_run (replicate bad True @ True # ?bs) = has_run (replicate (Suc bad) True @ ?bs)"
      by (simp only:)
    show ?thesis
    proof (cases "bad = 9")
      case True
      then have "has_run (replicate bad True @ True # ?bs)"
        unfolding shift unfolding has_run_def by (intro exI [of _ "[]"] exI [of _ ?bs]) simp
      then show ?thesis
        using 2 True by (simp add: p malformedLineLimit_def Let_def stop_with_def itoa_ten)
    next
      case False
      then have b: "Suc bad < 10" using Cons.prems(1) by simp
      then show ?thesis
        using 2 shift Cons.IH [OF b rest] by (simp add: p malformedLineLimit_def Let_def)
    qed
  next
    case 3
    have zero: "(0 :: nat) < 10" by simp
    show ?thesis
      using 3 Cons.IH [OF zero rest] has_run_False [OF Cons.prems(1)]
      by (simp add: p Let_def handleEvent_goes_on)
  qed
qed

text \<open>
  C18: A turn cannot hang on its input: as soon as the stream ends, a read fails or the
  context is done, whatever came before, the turn has an outcome. Lines that do not parse
  are survived up to nine in a row, and the tenth in a row ends the turn as corrupted: a turn
  that has read lines only, none of them its result, goes on unless ten consecutive non-empty
  lines among them do not parse, however many others do not.
\<close>

theorem turn_ends:
  "((\<exists>t b e. (t, SEOF) \<in> set xs \<or> (t, SDone b) \<in> set xs \<or> (t, SReadErr e) \<in> set xs) \<longrightarrow>
      cs_Outcome (consume parse marshal c pid turn sid started bad saw xs) \<noteq> None)
   \<and> (list_all (\<lambda>p. \<exists>l e. snd p = SLine l \<and> l \<noteq> [] \<and> parse l = Inl e) ys \<and> bad < 10 \<longrightarrow>
      cs_Outcome (consume parse marshal c pid turn sid started bad saw (ys @ xs)) =
        (if bad + length ys < 10
         then cs_Outcome (consume parse marshal c pid turn sid started (bad + length ys) saw xs)
         else Some (Inl (TypedErr ''stream_corruption'' ''10 consecutive malformed lines''))))
   \<and> ((\<forall>p \<in> set ls. \<forall>e. parse (snd p) = Inr e \<longrightarrow> se_Type e \<noteq> ''result'') \<longrightarrow>
      cs_Outcome (consume parse marshal c pid turn sid False 0 False (map (\<lambda>(t, l). (t, SLine l)) ls)) =
        (if \<exists>us vs ws. filter (\<lambda>l. l \<noteq> []) (map snd ls) = us @ vs @ ws \<and> length vs = 10
              \<and> (\<forall>l \<in> set vs. \<exists>e. parse l = Inl e)
         then Some (Inl (TypedErr ''stream_corruption'' ''10 consecutive malformed lines''))
         else None))"
proof (intro conjI impI)
  assume "\<exists>t b e. (t, SEOF) \<in> set xs \<or> (t, SDone b) \<in> set xs \<or> (t, SReadErr e) \<in> set xs"
  then show "cs_Outcome (consume parse marshal c pid turn sid started bad saw xs) \<noteq> None"
  proof (induction xs arbitrary: sid started bad saw)
    case (Cons p xs)
    obtain now x where p: "p = (now, x)" by (cases p)
    show ?case
      using Cons p by (cases x) (auto simp: Let_def stop_with_def split: sum.splits option.splits)
  qed simp
next
  assume "list_all (\<lambda>p. \<exists>l e. snd p = SLine l \<and> l \<noteq> [] \<and> parse l = Inl e) ys \<and> bad < 10"
  then show "cs_Outcome (consume parse marshal c pid turn sid started bad saw (ys @ xs)) =
        (if bad + length ys < 10
         then cs_Outcome (consume parse marshal c pid turn sid started (bad + length ys) saw xs)
         else Some (Inl (TypedErr ''stream_corruption'' ''10 consecutive malformed lines'')))"
  proof (induction ys arbitrary: bad)
    case (Cons p ys)
    obtain now x where p: "p = (now, x)" by (cases p)
    then obtain l e where l: "x = SLine l" "l \<noteq> []" "parse l = Inl e" using Cons.prems by auto
    show ?case
    proof (cases "bad = 9")
      case True
      then show ?thesis
        using l by (simp add: p malformedLineLimit_def Let_def stop_with_def itoa_ten)
    next
      case False
      with Cons.prems have b: "bad + 1 < 10" by simp
      then have "cs_Outcome (consume parse marshal c pid turn sid started bad saw ((p # ys) @ xs))
          = cs_Outcome (consume parse marshal c pid turn sid started (bad + 1) saw (ys @ xs))"
        using l by (simp add: p malformedLineLimit_def Let_def)
      with Cons b show ?thesis by simp
    qed
  qed simp
next
  assume "\<forall>p \<in> set ls. \<forall>e. parse (snd p) = Inr e \<longrightarrow> se_Type e \<noteq> ''result''"
  then show "cs_Outcome (consume parse marshal c pid turn sid False 0 False (map (\<lambda>(t, l). (t, SLine l)) ls)) =
        (if \<exists>us vs ws. filter (\<lambda>l. l \<noteq> []) (map snd ls) = us @ vs @ ws \<and> length vs = 10
              \<and> (\<forall>l \<in> set vs. \<exists>e. parse l = Inl e)
         then Some (Inl (TypedErr ''stream_corruption'' ''10 consecutive malformed lines'')) else None)"
    using lines_outcome [of 0 ls parse marshal c pid turn sid False False]
    unfolding has_run_map [symmetric] by simp
qed

definition ex_other_event :: stream_event where
  "ex_other_event = ex_result_event\<lparr>se_Type := ''note''\<rparr>"

definition ex_notes :: "string \<Rightarrow> stream_event result" where
  "ex_notes l = (if l = ''n'' then Inr ex_other_event else Inl (PlainErr ''bad''))"

definition ex_nine_nine :: "(int \<times> string) list" where
  "ex_nine_nine = replicate 9 (0, ''x'') @ [(1, ''n'')] @ replicate 9 (2, ''x'')"

theorem turn_ends_witness:
  "cs_Outcome (consume ex_parse (\<lambda>_. None) ex_client ''1'' ''1'' PendingID False 9 False [(0, SLine ''x'')])
     = Some (Inl (TypedErr ''stream_corruption'' ''10 consecutive malformed lines''))
   \<and> cs_Outcome (consume ex_parse (\<lambda>_. None) ex_client ''1'' ''1'' PendingID False 0 False [(0, SEOF)]) \<noteq> None
   \<and> cs_Outcome (consume ex_notes (\<lambda>_. None) ex_client ''1'' ''1'' PendingID False 0 False
        (map (\<lambda>(t, l). (t, SLine l)) ex_nine_nine)) = None"
proof (intro conjI)
  have "list_all (\<lambda>p. \<exists>l e. snd p = SLine l \<and> l \<noteq> [] \<and> ex_parse l = Inl e) [(0 :: int, SLine ''x'')] \<and> (9 :: nat) < 10"
    by (simp add: ex_parse_def)
  with turn_ends [of "[]" ex_parse "\<lambda>_. None" ex_client "''1''" "''1''" PendingID False 9 False "[(0, SLine ''x'')]"]
  show "cs_Outcome (consume ex_parse (\<lambda>_. None) ex_client ''1'' ''1'' PendingID False 9 False [(0, SLine ''x'')])
     = Some (Inl (TypedErr ''stream_corruption'' ''10 consecutive malformed lines''))" by simp
  show "cs_Outcome (consume ex_parse (\<lambda>_. None) ex_client ''1'' ''1'' PendingID False 0 False [(0, SEOF)]) \<noteq> None"
    using turn_ends [of "[(0, SEOF)]" ex_parse "\<lambda>_. None" ex_client "''1''" "''1''" PendingID False 0 False "[]" "[]"] by simp
  have good: "\<forall>p \<in> set ex_nine_nine. \<forall>e. ex_notes (snd p) = Inr e \<longrightarrow> se_Type e \<noteq> ''result''"
    by (simp add: ex_notes_def ex_other_event_def)
  have "\<not> has_run (replicate 9 True @ False # replicate 9 True)"
    using has_run_False [of 9] by (auto simp: has_run_def dest: arg_cong [where f = length])
  moreover have "map (\<lambda>l. \<exists>e. ex_notes l = Inl e) (filter (\<lambda>l. l \<noteq> []) (map snd ex_nine_nine))
      = replicate 9 True @ False # replicate 9 True"
    by (simp add: ex_nine_nine_def ex_notes_def)
  ultimately have "\<not> (\<exists>us vs ws. filter (\<lambda>l. l \<noteq> []) (map snd ex_nine_nine) = us @ vs @ ws \<and> length vs = 10
      \<and> (\<forall>l \<in> set vs. \<exists>e. ex_notes l = Inl e))"
    unfolding has_run_map [symmetric] by simp
  then show "cs_Outcome (consume ex_notes (\<lambda>_. None) ex_client ''1'' ''1'' PendingID False 0 False
        (map (\<lambda>(t, l). (t, SLine l)) ex_nine_nine)) = None"
    using turn_ends [of "[]" ex_notes "\<lambda>_. None" ex_client "''1''" "''1''" PendingID False 0 False "[]" ex_nine_nine] good
    by (simp only: if_False simp_thms)
qed

text \<open>
  How a shell reads one field: inside single quotes every byte is itself, outside a
  backslash makes the next byte literal and a blank ends the field.
\<close>

fun sh_field :: "bool \<Rightarrow> string \<Rightarrow> string \<times> string" where
  "sh_field quoted [] = ([], [])"
| "sh_field True (c # s) =
     (if c = apostrophe then sh_field False s else (let r = sh_field True s in (c # fst r, snd r)))"
| "sh_field False (c # s) =
     (if c = apostrophe then sh_field True s
      else if c = bslash then (case s of [] \<Rightarrow> ([], [])
        | d # s' \<Rightarrow> (let r = sh_field False s' in (d # fst r, snd r)))
      else if c = CHR '' '' then ([], c # s)
      else (let r = sh_field False s in (c # fst r, snd r)))"

lemma sh_chars [simp]: "apostrophe \<noteq> bslash" "bslash \<noteq> apostrophe" "apostrophe \<noteq> CHR '' ''" "bslash \<noteq> CHR '' ''"
  "CHR '' '' \<noteq> apostrophe" "CHR '' '' \<noteq> bslash"
  by (simp_all add: apostrophe_def bslash_def)

lemma sh_field_quoted:
  "sh_field True (concat (map (\<lambda>c. if c = apostrophe then [apostrophe, bslash, apostrophe, apostrophe] else [c]) s)
     @ t) = (s @ fst (sh_field True t), snd (sh_field True t))"
  by (induction s) (auto simp: Let_def)

lemma sh_field_shellSingleQuote:
  "rest = [] \<or> hd rest = CHR '' '' \<Longrightarrow> sh_field False (shellSingleQuote s @ rest) = (s, rest)"
  unfolding shellSingleQuote_def
  by (cases rest) (simp_all add: sh_field_quoted Let_def)

text \<open>
  C39: The configured model and effort reach the agent's command line as exactly one shell
  field each, whatever bytes they contain: the shell reads the quoted text back as the
  value and finds the rest of the command after it.
\<close>

theorem buildCommand_quotes:
  assumes "cl_Model c \<noteq> []" and "cl_ReasoningEffort c \<noteq> []"
  shows "\<exists>m e rest. buildCommand c sid = cl_Command c @ '' --model '' @ m
    \<and> sh_field False m = (cl_Model c, '' --effort '' @ e)
    \<and> sh_field False e = (cl_ReasoningEffort c, rest)
    \<and> (rest = [] \<or> rest = '' --resume '' @ sid)"
proof -
  let ?rest = "if cl_ResumeAcrossTurns c \<and> sid \<noteq> [] \<and> sid \<noteq> PendingID then '' --resume '' @ sid else []"
  let ?e = "shellSingleQuote (cl_ReasoningEffort c) @ ?rest"
  let ?m = "shellSingleQuote (cl_Model c) @ '' --effort '' @ ?e"
  have "buildCommand c sid = cl_Command c @ '' --model '' @ ?m"
    using assms by (simp add: buildCommand_def)
  moreover have "sh_field False ?m = (cl_Model c, '' --effort '' @ ?e)"
    by (rule sh_field_shellSingleQuote) simp
  moreover have "sh_field False ?e = (cl_ReasoningEffort c, ?rest)"
    by (rule sh_field_shellSingleQuote) simp
  ultimately show ?thesis by (intro exI [of _ ?m] exI [of _ ?e] exI [of _ ?rest]) simp
qed

theorem buildCommand_quotes_witness:
  "\<exists>m e rest. buildCommand (ex_client\<lparr>cl_ReasoningEffort := ''high''\<rparr>) PendingID = ''claude'' @ '' --model '' @ m
    \<and> sh_field False m = (''it's'', '' --effort '' @ e) \<and> sh_field False e = (''high'', rest)"
  using buildCommand_quotes [of "ex_client\<lparr>cl_ReasoningEffort := ''high''\<rparr>" PendingID]
  by (force simp: ex_client_def)

text \<open>
  The session id is not quoted: what the agent reports as its session id becomes part of
  the next turn's shell command.
\<close>

lemma session_id_unquoted:
  "buildCommand \<lparr>cl_Command = ''claude'', cl_Model = [], cl_ReasoningEffort = [],
     cl_ResumeAcrossTurns = True, cl_TurnTimeoutMs = 0, cl_ReadTimeoutMs = 0\<rparr> ''x; touch y''
   = ''claude --resume x; touch y''"
  by (simp add: buildCommand_def PendingID_def)

text \<open>The diagnostic tail keeps the last bytes of the subprocess's standard error.\<close>

lemma tail_add_last_n: "tail_add limit buf line = last_n limit (buf @ line @ nl)"
  by (simp add: tail_add_def last_n_def Let_def)

lemma boundedTail_last_n: "boundedTail limit ls = last_n limit (concat (map (\<lambda>l. l @ nl) ls))"
proof (induction ls rule: rev_induct)
  case (snoc l ls)
  have "boundedTail limit (ls @ [l]) = tail_add limit (boundedTail limit ls) l"
    by (simp add: boundedTail_def)
  then show ?case
    using last_n_last_n [of limit "concat (map (\<lambda>l. l @ nl) ls)" "l @ nl"]
    by (simp add: snoc.IH tail_add_last_n)
qed (simp add: boundedTail_def last_n_def)

end
