(* ===== verification/Json.thy ===== *)
theory Json
  imports Domain
begin

text \<open>
  JSON as text, as far as the program relies on Go's \<^verbatim>\<open>encoding/json\<close>: the grammar as a syntax
  tree with its parser and its compact printer, the string literals (escapes, UTF-8 coerced to
  valid form), and the encoder for values. The parser is the reader of what the program writes,
  and with Go's nesting limit it is the first half of \<^verbatim>\<open>json.Unmarshal\<close>.
\<close>

section \<open>Lexical elements\<close>

definition jquote :: char where "jquote = CHR 0x22"
definition jslash :: char where "jslash = CHR 0x5C"
definition ws_char :: "char \<Rightarrow> bool" where "ws_char c \<longleftrightarrow> byte c \<in> {9, 10, 13, 32}"

definition skip_ws :: "string \<Rightarrow> string" where "skip_ws s = dropWhile ws_char s"

text \<open>The letters after a backslash, and hexadecimal digits.\<close>

definition escape_letters :: string where
  "escape_letters = [jquote, jslash, CHR ''/'', CHR ''b'', CHR ''f'', CHR ''n'', CHR ''r'', CHR ''t'']"

definition is_hex :: "char \<Rightarrow> bool" where
  "is_hex c \<longleftrightarrow> is_digit c \<or> 65 \<le> byte c \<and> byte c \<le> 70 \<or> 97 \<le> byte c \<and> byte c \<le> 102"

text \<open>What a string literal consists of: plain bytes, short escapes and escapes with four digits.\<close>

datatype jpiece = Byte char | Esc char | Hex string

fun piece_text :: "jpiece \<Rightarrow> string" where
  "piece_text (Byte c) = [c]"
| "piece_text (Esc c) = [jslash, c]"
| "piece_text (Hex h) = jslash # CHR ''u'' # h"

fun piece_ok :: "jpiece \<Rightarrow> bool" where
  "piece_ok (Byte c) \<longleftrightarrow> c \<noteq> jquote \<and> c \<noteq> jslash \<and> 32 \<le> byte c"
| "piece_ok (Esc c) \<longleftrightarrow> c \<in> set escape_letters"
| "piece_ok (Hex h) \<longleftrightarrow> length h = 4 \<and> list_all is_hex h"

definition literal_text :: "jpiece list \<Rightarrow> string" where
  "literal_text ps = concat (map piece_text ps)"

text \<open>The rest of a literal after its opening quote, up to the closing one.\<close>

function scan_literal :: "string \<Rightarrow> (jpiece list \<times> string) option" where
  "scan_literal [] = None"
| "scan_literal (c # cs) =
     (if c = jquote then Some ([], cs)
      else if c = jslash then
        (case cs of
           [] \<Rightarrow> None
         | e # es \<Rightarrow>
             if e = CHR ''u'' then
               (if 4 \<le> length es \<and> list_all is_hex (take 4 es)
                then map_option (\<lambda>(ps, r). (Hex (take 4 es) # ps, r)) (scan_literal (drop 4 es)) else None)
             else if e \<in> set escape_letters
               then map_option (\<lambda>(ps, r). (Esc e # ps, r)) (scan_literal es) else None)
      else if byte c < 32 then None
      else map_option (\<lambda>(ps, r). (Byte c # ps, r)) (scan_literal cs))"
  by pat_completeness auto
termination by (relation "measure length") auto

declare scan_literal.simps(2) [simp del]

text \<open>Numbers: the longest run of number characters must be a number of the grammar.\<close>

definition number_char :: "char \<Rightarrow> bool" where
  "number_char c \<longleftrightarrow> is_digit c \<or> c \<in> set ''+-.eE''"

definition frac_ok :: "string \<Rightarrow> bool" where
  "frac_ok s \<longleftrightarrow> takeWhile is_digit s \<noteq> []"

definition exp_ok :: "string \<Rightarrow> bool" where
  "exp_ok s \<longleftrightarrow> s = [] \<or> hd s \<in> set ''eE''
     \<and> (let ds = (if tl s \<noteq> [] \<and> hd (tl s) \<in> set ''+-'' then tl (tl s) else tl s)
        in ds \<noteq> [] \<and> list_all is_digit ds)"

definition number_ok :: "string \<Rightarrow> bool" where
  "number_ok s \<longleftrightarrow>
     (let u = (if take 1 s = ''-'' then tl s else s);
          ip = takeWhile is_digit u; r = dropWhile is_digit u
      in ip \<noteq> [] \<and> (hd ip = CHR ''0'' \<longrightarrow> length ip = 1)
         \<and> (if take 1 r = ''.'' then frac_ok (tl r) \<and> exp_ok (dropWhile is_digit (tl r)) else exp_ok r))"

section \<open>Syntax trees\<close>

datatype cst = CLit string | CNum string | CStr "jpiece list" | CArr "cst list"
  | CObj "(jpiece list \<times> cst) list"

definition word_literals :: "string list" where "word_literals = [''null'', ''true'', ''false'']"

definition quoted :: "jpiece list \<Rightarrow> string" where
  "quoted ps = jquote # literal_text ps @ [jquote]"

fun print_json :: "cst \<Rightarrow> string" where
  "print_json (CLit w) = w"
| "print_json (CNum n) = n"
| "print_json (CStr ps) = quoted ps"
| "print_json (CArr vs) = ''['' @ join_str '','' (map print_json vs) @ '']''"
| "print_json (CObj ms) = ''{'' @ join_str '','' (map (\<lambda>(k, v). quoted k @ '':'' @ print_json v) ms) @ ''}''"

fun cst_ok :: "cst \<Rightarrow> bool" where
  "cst_ok (CLit w) \<longleftrightarrow> w \<in> set word_literals"
| "cst_ok (CNum n) \<longleftrightarrow> list_all number_char n \<and> number_ok n"
| "cst_ok (CStr ps) \<longleftrightarrow> list_all piece_ok ps"
| "cst_ok (CArr vs) \<longleftrightarrow> (\<forall>v \<in> set vs. cst_ok v)"
| "cst_ok (CObj ms) \<longleftrightarrow> (\<forall>m \<in> set ms. list_all piece_ok (fst m) \<and> cst_ok (snd m))"

fun depth :: "cst \<Rightarrow> nat" where
  "depth (CArr vs) = Suc (foldr max (map depth vs) 0)"
| "depth (CObj ms) = Suc (foldr max (map (\<lambda>m. depth (snd m)) ms) 0)"
| "depth _ = 0"

section \<open>The parser\<close>

text \<open>
  Recursive descent with fuel; the length of the text is enough (\<open>fuel_enough\<close>).
  \<open>parse_elems\<close> and \<open>parse_members\<close> read from the first element on to the closing bracket.
\<close>

definition with_rest :: "('a \<Rightarrow> 'b) \<Rightarrow> ('a \<times> string) option \<Rightarrow> ('b \<times> string) option" where
  "with_rest f r = map_option (\<lambda>(a, s). (f a, s)) r"

definition parse_word :: "string \<Rightarrow> (cst \<times> string) option" where
  "parse_word s =
     (case List.find (has_prefix s) word_literals of
        Some w \<Rightarrow> Some (CLit w, drop (length w) s)
      | None \<Rightarrow>
          (let n = takeWhile number_char s
           in if number_ok n then Some (CNum n, dropWhile number_char s) else None))"

text \<open>What follows an element: its own rest after a comma, or the end of the list.\<close>

definition list_tail ::
  "char \<Rightarrow> (string \<Rightarrow> ('a list \<times> string) option) \<Rightarrow> 'a \<Rightarrow> string \<Rightarrow> ('a list \<times> string) option" where
  "list_tail close following x r =
     (case skip_ws r of
        [] \<Rightarrow> None
      | c # cs \<Rightarrow>
          if c = CHR '','' then with_rest (Cons x) (following cs)
          else if c = close then Some ([x], cs) else None)"

fun parse_value :: "nat \<Rightarrow> string \<Rightarrow> (cst \<times> string) option"
  and parse_elems :: "nat \<Rightarrow> string \<Rightarrow> (cst list \<times> string) option"
  and parse_members :: "nat \<Rightarrow> string \<Rightarrow> ((jpiece list \<times> cst) list \<times> string) option" where
  "parse_value 0 s = None"
| "parse_value (Suc n) s =
     (case skip_ws s of
        [] \<Rightarrow> None
      | c # cs \<Rightarrow>
          if c = jquote then with_rest CStr (scan_literal cs)
          else if c = CHR ''['' then
            (if take 1 (skip_ws cs) = '']'' then Some (CArr [], tl (skip_ws cs))
             else with_rest CArr (parse_elems n cs))
          else if c = CHR ''{'' then
            (if take 1 (skip_ws cs) = ''}'' then Some (CObj [], tl (skip_ws cs))
             else with_rest CObj (parse_members n cs))
          else parse_word (c # cs))"
| "parse_elems 0 s = None"
| "parse_elems (Suc n) s =
     (case parse_value n s of
        None \<Rightarrow> None
      | Some (v, r) \<Rightarrow> list_tail (CHR '']'') (parse_elems n) v r)"
| "parse_members 0 s = None"
| "parse_members (Suc n) s =
     (case skip_ws s of
        [] \<Rightarrow> None
      | c # cs \<Rightarrow>
          if c \<noteq> jquote then None
          else (case scan_literal cs of
                  None \<Rightarrow> None
                | Some (k, r) \<Rightarrow>
                    if take 1 (skip_ws r) \<noteq> '':'' then None
                    else (case parse_value n (tl (skip_ws r)) of
                            None \<Rightarrow> None
                          | Some (v, r') \<Rightarrow> list_tail (CHR ''}'') (parse_members n) (k, v) r')))"

definition read_json :: "string \<Rightarrow> cst option" where
  "read_json s =
     (case parse_value (Suc (length s)) s of
        Some (v, r) \<Rightarrow> if skip_ws r = [] then Some v else None
      | None \<Rightarrow> None)"

section \<open>What is printed is read back\<close>

lemma ws_facts [simp]:
  "\<not> ws_char jquote" "\<not> ws_char (CHR ''['')" "\<not> ws_char (CHR ''{'')" "\<not> ws_char (CHR '','')"
  "\<not> ws_char (CHR '':'')" "\<not> ws_char (CHR '']'')" "\<not> ws_char (CHR ''}'')"
  by (simp_all add: ws_char_def jquote_def)

lemma skip_ws_Cons [simp]: "\<not> ws_char c \<Longrightarrow> skip_ws (c # cs) = c # cs"
  by (simp add: skip_ws_def)

lemma skip_ws_Nil [simp]: "skip_ws [] = []"
  by (simp add: skip_ws_def)

lemma skip_ws_length: "length (skip_ws s) \<le> length s"
  by (simp add: skip_ws_def length_dropWhile_le)

lemma scan_literal_text:
  "list_all piece_ok ps \<Longrightarrow> scan_literal (literal_text ps @ jquote # r) = Some (ps, r)"
proof (induction ps)
  case Nil
  then show ?case by (simp add: literal_text_def scan_literal.simps(2))
next
  case (Cons p ps)
  then have IH: "scan_literal (literal_text ps @ jquote # r) = Some (ps, r)" by simp
  show ?case
  proof (cases p)
    case (Byte c)
    with Cons.prems IH show ?thesis by (simp add: literal_text_def scan_literal.simps(2))
  next
    case (Esc c)
    have "CHR ''u'' \<notin> set escape_letters" by (simp add: escape_letters_def jquote_def jslash_def)
    with Esc Cons.prems IH show ?thesis
      by (auto simp: literal_text_def scan_literal.simps(2) jquote_def jslash_def)
  next
    case (Hex h)
    with Cons.prems IH show ?thesis
      by (simp add: literal_text_def scan_literal.simps(2) jquote_def jslash_def)
  qed
qed

definition ends_word :: "string \<Rightarrow> bool" where
  "ends_word r \<longleftrightarrow> r = [] \<or> \<not> number_char (hd r)"

lemma number_nonempty: "number_ok n \<Longrightarrow> n \<noteq> []"
  by (auto simp: number_ok_def Let_def)

lemma number_char_no_word: "number_char c \<Longrightarrow> c \<notin> {CHR ''n'', CHR ''t'', CHR ''f''} \<and> \<not> ws_char c
    \<and> c \<notin> {jquote, CHR ''['', CHR ''{'', CHR '']'', CHR ''}''}"
  by (auto simp: number_char_def is_digit_def ws_char_def jquote_def)

lemma parse_word_literal: "w \<in> set word_literals \<Longrightarrow> parse_word (w @ r) = Some (CLit w, r)"
  by (auto simp: parse_word_def word_literals_def has_prefix_def)

lemma parse_word_number:
  assumes "list_all number_char n" and "number_ok n" and "ends_word r"
  shows "parse_word (n @ r) = Some (CNum n, r)"
proof -
  obtain c cs where n: "n = c # cs" using number_nonempty [OF assms(2)] by (cases n) auto
  then have "c \<notin> {CHR ''n'', CHR ''t'', CHR ''f''}" using assms(1) number_char_no_word [of c] by simp
  then have none: "List.find (has_prefix (n @ r)) word_literals = None"
    by (auto simp: n word_literals_def has_prefix_def)
  have "takeWhile number_char (n @ r) = n" "dropWhile number_char (n @ r) = r"
    using assms(1,3) by (cases r; simp add: ends_word_def list_all_iff takeWhile_tail)+
  with none assms(2) show ?thesis by (simp add: parse_word_def Let_def)
qed

lemma print_start:
  assumes "cst_ok v"
  obtains c cs where "print_json v = c # cs" and "\<not> ws_char c" and "c \<notin> {CHR '']'', CHR ''}''}"
proof (cases v)
  case (CLit w)
  with assms show thesis
    by (intro that [of "hd w" "tl w"]) (auto simp: word_literals_def ws_char_def)
next
  case (CNum n)
  with assms have ok: "list_all number_char n" "n \<noteq> []" using number_nonempty by auto
  then have "number_char (hd n)" by (cases n) auto
  with CNum ok(2) number_char_no_word [of "hd n"] show thesis
    by (intro that [of "hd n" "tl n"]) auto
qed (use that in \<open>simp_all add: quoted_def jquote_def ws_char_def\<close>)

lemma join_Cons: "xs \<noteq> [] \<Longrightarrow> join_str sep (x # xs) = x @ sep @ join_str sep xs"
  by (cases xs) simp_all

lemma parse_elems_print:
  assumes "\<And>v n r. v \<in> set vs \<Longrightarrow> length (print_json v) \<le> n \<Longrightarrow> ends_word r
      \<Longrightarrow> parse_value n (print_json v @ r) = Some (v, r)"
    and "vs \<noteq> []" and "length (join_str '','' (map print_json vs)) < n"
  shows "parse_elems n (join_str '','' (map print_json vs) @ CHR '']'' # r) = Some (vs, r)"
  using assms
proof (induction vs arbitrary: n)
  case (Cons v vs)
  then obtain m where n: "n = Suc m" by (cases n) auto
  show ?case
  proof (cases "vs = []")
    case True
    with Cons.prems(1) [of v m "CHR '']'' # r"] Cons.prems(3) show ?thesis
      by (simp add: n list_tail_def ends_word_def number_char_def is_digit_def)
  next
    case False
    let ?rest = "join_str '','' (map print_json vs) @ CHR '']'' # r"
    have len: "length (print_json v) \<le> m" "length (join_str '','' (map print_json vs)) < m"
      using Cons.prems(3) False by (simp_all add: n join_Cons)
    have "parse_value m (print_json v @ CHR '','' # ?rest) = Some (v, CHR '','' # ?rest)"
      by (rule Cons.prems(1)) (simp_all add: len ends_word_def number_char_def is_digit_def)
    moreover have "parse_elems m ?rest = Some (vs, r)"
      using len(2) False Cons.prems(1) by (intro Cons.IH) auto
    ultimately show ?thesis by (simp add: n join_Cons False list_tail_def with_rest_def)
  qed
qed simp

lemma parse_members_print:
  assumes "\<And>m n r. m \<in> set ms \<Longrightarrow> length (print_json (snd m)) \<le> n \<Longrightarrow> ends_word r
      \<Longrightarrow> parse_value n (print_json (snd m) @ r) = Some (snd m, r)"
    and "\<And>m. m \<in> set ms \<Longrightarrow> list_all piece_ok (fst m)" and "ms \<noteq> []"
    and "length (join_str '','' (map (\<lambda>(k, v). quoted k @ '':'' @ print_json v) ms)) < n"
  shows "parse_members n (join_str '','' (map (\<lambda>(k, v). quoted k @ '':'' @ print_json v) ms) @ CHR ''}'' # r)
    = Some (ms, r)"
  using assms
proof (induction ms arbitrary: n)
  case (Cons p ms)
  obtain k v where p: "p = (k, v)" by (cases p)
  obtain m where n: "n = Suc m" using Cons.prems(4) by (cases n) auto
  let ?text = "\<lambda>ms. join_str '','' (map (\<lambda>(k, v). quoted k @ '':'' @ print_json v) ms)"
  have key: "parse_members (Suc m) (quoted k @ '':'' @ print_json v @ s) =
      (case parse_value m (print_json v @ s) of
         None \<Rightarrow> None | Some (v, r') \<Rightarrow> list_tail (CHR ''}'') (parse_members m) (k, v) r')" for s
    using scan_literal_text [of k "'':'' @ print_json v @ s"] Cons.prems(2) [of p]
    by (simp add: p quoted_def)
  show ?case
  proof (cases "ms = []")
    case True
    with Cons.prems(1) [of p m "CHR ''}'' # r"] Cons.prems(4) key [of "CHR ''}'' # r"] show ?thesis
      by (simp add: n p list_tail_def ends_word_def number_char_def is_digit_def)
  next
    case False
    have len: "length (print_json v) \<le> m" "length (?text ms) < m"
      using Cons.prems(4) False by (simp_all add: n p join_Cons quoted_def)
    have "parse_value m (print_json v @ CHR '','' # ?text ms @ CHR ''}'' # r)
        = Some (v, CHR '','' # ?text ms @ CHR ''}'' # r)"
      using Cons.prems(1) [of p m] len(1) by (simp add: p ends_word_def number_char_def is_digit_def)
    moreover have "parse_members m (?text ms @ CHR ''}'' # r) = Some (ms, r)"
      using len(2) False Cons.prems(1,2) by (intro Cons.IH) auto
    ultimately show ?thesis
      using key [of "CHR '','' # ?text ms @ CHR ''}'' # r"]
      by (simp add: n p join_Cons False list_tail_def with_rest_def)
  qed
qed simp

lemma word_start:
  "w \<in> set word_literals \<Longrightarrow> \<exists>c cs. w = c # cs \<and> \<not> ws_char c \<and> c \<notin> {jquote, CHR ''['', CHR ''{''}"
  unfolding word_literals_def ws_char_def jquote_def
  by (simp only: list.set insert_iff empty_iff simp_thms) (elim disjE; simp)

lemma parse_print:
  "cst_ok v \<Longrightarrow> length (print_json v) \<le> n \<Longrightarrow> ends_word r \<Longrightarrow> parse_value n (print_json v @ r) = Some (v, r)"
proof (induction v arbitrary: n r)
  case (CLit w)
  then obtain m where n: "n = Suc m" by (cases n) (auto simp: word_literals_def)
  obtain c cs where w: "w = c # cs" "\<not> ws_char c" "c \<notin> {jquote, CHR ''['', CHR ''{''}"
    using word_start [of w] CLit.prems(1) by auto
  have "parse_word (c # cs @ r) = Some (CLit w, r)"
    using parse_word_literal [of w r] CLit.prems(1) w(1) by simp
  with w(2,3) show ?case by (simp add: n w(1))
next
  case (CNum x)
  have ok: "list_all number_char x" "number_ok x" using CNum.prems(1) by simp_all
  then obtain c cs where x: "x = c # cs" using number_nonempty by (cases x) auto
  obtain m where n: "n = Suc m" using CNum.prems(2) by (cases n) (auto simp: x)
  have "c \<notin> {jquote, CHR ''['', CHR ''{''}" "\<not> ws_char c"
    using ok(1) number_char_no_word [of c] by (auto simp: x)
  then show ?case using parse_word_number [OF ok CNum.prems(3)] by (simp add: n x)
next
  case (CStr ps)
  then obtain m where n: "n = Suc m" by (cases n) (auto simp: quoted_def)
  show ?case using scan_literal_text [of ps r] CStr.prems(1) by (simp add: n quoted_def with_rest_def)
next
  case (CArr vs)
  then obtain m where n: "n = Suc m" by (cases n) auto
  show ?case
  proof (cases vs)
    case Nil
    then show ?thesis by (simp add: n jquote_def)
  next
    case (Cons u us)
    obtain c cs where u: "print_json u = c # cs" "\<not> ws_char c" "c \<noteq> CHR '']''"
      by (rule print_start [of u]) (use CArr.prems(1) in \<open>simp_all add: Cons\<close>)
    obtain ds where start: "join_str '','' (map print_json vs) = c # ds"
      using u(1) by (cases us) (simp_all add: Cons)
    have "parse_elems m (join_str '','' (map print_json vs) @ CHR '']'' # r) = Some (vs, r)"
      using CArr.prems CArr.IH by (intro parse_elems_print) (auto simp: n Cons)
    with u show ?thesis by (simp add: n start jquote_def with_rest_def)
  qed
next
  case (CObj ms)
  then obtain m where n: "n = Suc m" by (cases n) auto
  show ?case
  proof (cases ms)
    case Nil
    then show ?thesis by (simp add: n jquote_def)
  next
    case (Cons u us)
    let ?text = "join_str '','' (map (\<lambda>(k, v). quoted k @ '':'' @ print_json v) ms)"
    obtain ds where start: "?text = jquote # ds"
      by (cases us; cases u) (simp_all add: Cons quoted_def)
    have "parse_members m (?text @ CHR ''}'' # r) = Some (ms, r)"
    proof (rule parse_members_print)
      show "parse_value n' (print_json (snd q) @ r') = Some (snd q, r')"
        if "q \<in> set ms" "length (print_json (snd q)) \<le> n'" "ends_word r'" for q n' r'
        using that CObj.IH [of q "snd q" n' r'] CObj.prems(1) snds.intros [of q] by auto
    qed (use CObj.prems in \<open>auto simp: n Cons\<close>)
    with start ws_facts(1) show ?thesis by (simp add: n jquote_def with_rest_def)
  qed
qed

lemma read_print: "cst_ok v \<Longrightarrow> ends_word r \<Longrightarrow> skip_ws r = [] \<Longrightarrow> read_json (print_json v @ r) = Some v"
  using parse_print [of v "Suc (length (print_json v @ r))" r]
  by (simp add: read_json_def del: parse_value.simps)

section \<open>What the parser accepts\<close>

lemma scan_literal_sound:
  "scan_literal s = Some (ps, r) \<Longrightarrow> list_all piece_ok ps \<and> length r < length s"
proof (induction s arbitrary: ps r rule: scan_literal.induct)
  case (2 c cs)
  show ?case
  proof (cases "c = jquote")
    case True
    with "2.prems" show ?thesis by (simp add: scan_literal.simps(2))
  next
    case nq: False
    show ?thesis
    proof (cases "c = jslash")
      case False
      with nq "2.prems" "2.IH"(3) show ?thesis
        by (fastforce simp: scan_literal.simps(2) split: if_splits)
    next
      case True
      with nq "2.prems" obtain e es where cs: "cs = e # es"
        by (auto simp: scan_literal.simps(2) split: list.splits)
      show ?thesis
      proof (cases "e = CHR ''u''")
        case u: True
        with True nq "2.prems" obtain qs where
          "4 \<le> length es" "list_all is_hex (take 4 es)" "scan_literal (drop 4 es) = Some (qs, r)"
          "ps = Hex (take 4 es) # qs"
          by (auto simp: scan_literal.simps(2) cs split: if_splits)
        with "2.IH"(1) [OF nq True cs u] show ?thesis by (fastforce simp: cs)
      next
        case nu: False
        with True nq "2.prems" obtain qs where
          "e \<in> set escape_letters" "scan_literal es = Some (qs, r)" "ps = Esc e # qs"
          by (auto simp: scan_literal.simps(2) cs split: if_splits)
        with "2.IH"(2) [OF nq True cs nu] show ?thesis by (fastforce simp: cs)
      qed
    qed
  qed
qed simp

lemma with_rest_Some: "with_rest f x = Some (y, r) \<longleftrightarrow> (\<exists>a. x = Some (a, r) \<and> y = f a)"
  by (cases x) (auto simp: with_rest_def)

lemma parse_word_sound: "parse_word s = Some (v, r) \<Longrightarrow> cst_ok v \<and> length r < length s"
proof (cases "List.find (has_prefix s) word_literals")
  case None
  assume "parse_word s = Some (v, r)"
  with None have v: "v = CNum (takeWhile number_char s)" "number_ok (takeWhile number_char s)"
      "r = dropWhile number_char s"
    by (auto simp: parse_word_def Let_def split: if_splits)
  have "s = takeWhile number_char s @ r" by (simp add: v)
  then have "length s = length (takeWhile number_char s) + length r" by (metis length_append)
  moreover have "takeWhile number_char s \<noteq> []" by (rule number_nonempty [OF v(2)])
  ultimately show ?thesis
    using v by (auto simp: list_all_iff dest: set_takeWhileD)
next
  case (Some w)
  assume *: "parse_word s = Some (v, r)"
  from Some have w: "w \<in> set word_literals" "has_prefix s w"
    by (auto simp: find_Some_iff in_set_conv_nth)
  then have "w \<noteq> []" "s \<noteq> []" by (auto simp: word_literals_def has_prefix_def)
  with * Some w show ?thesis by (auto simp: parse_word_def)
qed

lemma list_tail_Some:
  "list_tail close f x r = Some (xs, t) \<longleftrightarrow>
     (\<exists>cs. skip_ws r = CHR '','' # cs \<and> (\<exists>ys. f cs = Some (ys, t) \<and> xs = x # ys))
     \<or> skip_ws r = close # t \<and> xs = [x] \<and> close \<noteq> CHR '',''"
  by (auto simp: list_tail_def with_rest_Some split: list.splits)

lemma skip_ws_Cons_length: "skip_ws s = c # cs \<Longrightarrow> length cs < length s"
  using skip_ws_length [of s] by simp

lemma parse_sound:
  "parse_value n s = Some (v, r) \<Longrightarrow> cst_ok v \<and> length r < length s"
  "parse_elems n s = Some (vs, r) \<Longrightarrow> (\<forall>v \<in> set vs. cst_ok v) \<and> length r < length s"
  "parse_members n s = Some (ms, r) \<Longrightarrow>
     (\<forall>m \<in> set ms. list_all piece_ok (fst m) \<and> cst_ok (snd m)) \<and> length r < length s"
proof (induction n s and n s and n s arbitrary: v r and vs r and ms r
    rule: parse_value_parse_elems_parse_members.induct)
  case (2 n s)
  then obtain c cs where s: "skip_ws s = c # cs" by (auto split: list.splits)
  note len = skip_ws_Cons_length [OF s]
  note ws = skip_ws_length [of cs]
  consider (str) "c = jquote" | (arr) "c = CHR ''[''" | (obj) "c = CHR ''{''"
    | (word) "c \<notin> {jquote, CHR ''['', CHR ''{''}" by auto
  then show ?case
  proof cases
    case str
    with "2.prems" s len show ?thesis by (auto simp: with_rest_Some dest!: scan_literal_sound)
  next
    case arr
    have nq: "CHR ''['' \<noteq> jquote" by (simp add: jquote_def)
    show ?thesis
    proof (cases "take 1 (skip_ws cs) = '']''")
      case True
      with "2.prems" s arr nq len ws show ?thesis by auto
    next
      case False
      with "2.prems" s arr nq obtain vs where "parse_elems n cs = Some (vs, r)" "v = CArr vs"
        by (auto simp: with_rest_Some)
      with "2.IH"(1) [OF s] arr nq False len show ?thesis by fastforce
    qed
  next
    case obj
    have nq: "CHR ''{'' \<noteq> jquote" by (simp add: jquote_def)
    show ?thesis
    proof (cases "take 1 (skip_ws cs) = ''}''")
      case True
      with "2.prems" s obj nq len ws show ?thesis by auto
    next
      case False
      with "2.prems" s obj nq obtain ms where "parse_members n cs = Some (ms, r)" "v = CObj ms"
        by (auto simp: with_rest_Some)
      with "2.IH"(2) [OF s] obj nq False len show ?thesis by fastforce
    qed
  next
    case word
    with "2.prems" s have "parse_word (c # cs) = Some (v, r)" by simp
    from parse_word_sound [OF this] len show ?thesis by auto
  qed
next
  case (4 n s)
  then obtain u t where u: "parse_value n s = Some (u, t)" "list_tail (CHR '']'') (parse_elems n) u t = Some (vs, r)"
    by (auto split: option.splits)
  note head = "4.IH"(1) [OF u(1)]
  from u(2) head show ?case
    unfolding list_tail_Some using "4.IH"(2) [OF u(1) refl] skip_ws_Cons_length [of t] by fastforce
next
  case (6 n s)
  then obtain cs k t u t' where s: "skip_ws s = jquote # cs" and k: "scan_literal cs = Some (k, t)"
    and colon: "take 1 (skip_ws t) = '':''" and u: "parse_value n (tl (skip_ws t)) = Some (u, t')"
    and rest: "list_tail (CHR ''}'') (parse_members n) (k, u) t' = Some (ms, r)"
    by (auto split: list.splits option.splits if_splits)
  note head = "6.IH"(1) [OF s _ k refl _ u] scan_literal_sound [OF k] skip_ws_Cons_length [OF s]
    skip_ws_length [of t]
  from rest head show ?case
    unfolding list_tail_Some using colon "6.IH"(2) [OF s _ k refl _ u refl] skip_ws_Cons_length [of t'] by fastforce
qed simp_all

text \<open>
  Fuel for every byte that is read is enough: what some fuel lets the parser read, the length of
  the text does, too.
\<close>

lemma list_tail_mono:
  assumes "list_tail close f x r = Some (xs, t)"
    and "\<And>cs ys. skip_ws r = CHR '','' # cs \<Longrightarrow> f cs = Some (ys, t) \<Longrightarrow> g cs = Some (ys, t)"
  shows "list_tail close g x r = Some (xs, t)"
  using assms unfolding list_tail_Some by blast

lemma fuel_enough:
  "parse_value m s = Some (v, r) \<Longrightarrow> length s \<le> n + length r \<Longrightarrow> parse_value n s = Some (v, r)"
  "parse_elems m s = Some (vs, r) \<Longrightarrow> length s \<le> n + length r \<Longrightarrow> parse_elems n s = Some (vs, r)"
  "parse_members m s = Some (ms, r) \<Longrightarrow> length s \<le> n + length r \<Longrightarrow> parse_members n s = Some (ms, r)"
proof (induction m s and m s and m s arbitrary: n v r and n vs r and n ms r
    rule: parse_value_parse_elems_parse_members.induct)
  case (2 m s)
  obtain k where n: "n = Suc k" using parse_sound(1) [OF "2.prems"(1)] "2.prems"(2) by (cases n) auto
  obtain c cs where s: "skip_ws s = c # cs" using "2.prems"(1) by (auto split: list.splits)
  note len = skip_ws_Cons_length [OF s]
  have same: "parse_value (Suc m) s = parse_value n s"
    if "c = CHR ''['' \<Longrightarrow> take 1 (skip_ws cs) = '']''" "c = CHR ''{'' \<Longrightarrow> take 1 (skip_ws cs) = ''}''"
    using that by (simp add: n s)
  consider (arr) "c = CHR ''[''" "take 1 (skip_ws cs) \<noteq> '']''"
    | (obj) "c = CHR ''{''" "take 1 (skip_ws cs) \<noteq> ''}''"
    | (other) "parse_value (Suc m) s = parse_value n s"
    using same by blast
  then show ?case
  proof cases
    case arr
    have nq: "CHR ''['' \<noteq> jquote" by (simp add: jquote_def)
    from "2.prems"(1) s arr nq obtain vs where vs: "parse_elems m cs = Some (vs, r)" "v = CArr vs"
      by (auto simp: with_rest_Some)
    have "parse_elems k cs = Some (vs, r)"
      using "2.IH"(1) [OF s _ arr(1) _ vs(1)] arr nq len "2.prems"(2) n by simp
    with s arr nq vs(2) show ?thesis by (simp add: n with_rest_Some)
  next
    case obj
    have nq: "CHR ''{'' \<noteq> jquote" by (simp add: jquote_def)
    from "2.prems"(1) s obj nq obtain ms where ms: "parse_members m cs = Some (ms, r)" "v = CObj ms"
      by (auto simp: with_rest_Some)
    have "parse_members k cs = Some (ms, r)"
      using "2.IH"(2) [OF s _ _ obj(1) _ ms(1)] obj nq len "2.prems"(2) n by simp
    with s obj nq ms(2) show ?thesis by (simp add: n with_rest_Some)
  qed (use "2.prems"(1) in simp)
next
  case (4 m s)
  obtain k where n: "n = Suc k" using parse_sound(2) [OF "4.prems"(1)] "4.prems"(2) by (cases n) auto
  obtain u t where u: "parse_value m s = Some (u, t)" and
    tail: "list_tail (CHR '']'') (parse_elems m) u t = Some (vs, r)"
    using "4.prems"(1) by (auto split: option.splits)
  have len: "length r < length t"
    using tail unfolding list_tail_Some
    by (auto dest!: skip_ws_Cons_length dest: parse_sound(2))
  have "parse_value k s = Some (u, t)"
    using "4.IH"(1) [OF u] len "4.prems"(2) n by simp
  moreover have "list_tail (CHR '']'') (parse_elems k) u t = Some (vs, r)"
  proof (rule list_tail_mono [OF tail])
    fix cs ys
    assume cs: "skip_ws t = CHR '','' # cs" and ys: "parse_elems m cs = Some (ys, r)"
    show "parse_elems k cs = Some (ys, r)"
      using "4.IH"(2) [OF u refl ys] skip_ws_Cons_length [OF cs] parse_sound(1) [OF u] "4.prems"(2) n by simp
  qed
  ultimately show ?case by (simp add: n)
next
  case (6 m s)
  obtain k where n: "n = Suc k" using parse_sound(3) [OF "6.prems"(1)] "6.prems"(2) by (cases n) auto
  obtain cs key t u t' where s: "skip_ws s = jquote # cs" and key: "scan_literal cs = Some (key, t)"
    and colon: "take 1 (skip_ws t) = '':''" and u: "parse_value m (tl (skip_ws t)) = Some (u, t')"
    and tail: "list_tail (CHR ''}'') (parse_members m) (key, u) t' = Some (ms, r)"
    using "6.prems"(1) by (auto split: list.splits option.splits if_splits)
  have len: "length r < length t'"
    using tail unfolding list_tail_Some
    by (auto dest!: skip_ws_Cons_length dest: parse_sound(3))
  have before: "length (tl (skip_ws t)) < length s"
    using scan_literal_sound [OF key] skip_ws_Cons_length [OF s] skip_ws_length [of t] by auto
  have "parse_value k (tl (skip_ws t)) = Some (u, t')"
    using "6.IH"(1) [OF s _ key refl _ u] colon before len "6.prems"(2) n by simp
  moreover have "list_tail (CHR ''}'') (parse_members k) (key, u) t' = Some (ms, r)"
  proof (rule list_tail_mono [OF tail])
    fix cs' ys
    assume cs: "skip_ws t' = CHR '','' # cs'" and ys: "parse_members m cs' = Some (ys, r)"
    show "parse_members k cs' = Some (ys, r)"
      using "6.IH"(2) [OF s _ key refl _ u refl ys] colon before skip_ws_Cons_length [OF cs]
        parse_sound(1) [OF u] "6.prems"(2) n by simp
  qed
  ultimately show ?case using s key colon by (simp add: n)
qed simp_all

lemma read_json_fuel: "parse_value n s = Some (v, r) \<Longrightarrow> skip_ws r = [] \<Longrightarrow> read_json s = Some v"
  using fuel_enough(1) [of n s v r "Suc (length s)"] by (simp add: read_json_def del: parse_value.simps)

lemma read_json_ok: "read_json s = Some v \<Longrightarrow> cst_ok v"
  by (auto simp: read_json_def dest: parse_sound(1) split: option.splits if_splits simp del: parse_value.simps)

end
