(* ===== verification/Runes.thy ===== *)
theory Runes
  imports GoStrings
begin

text \<open>
  UTF-8 as the standard library reads and writes it: the shapes of an encoding, that a rune is
  read the same whatever follows it, where a string may be cut, that encoding undoes decoding,
  and the coercion of a string to valid UTF-8.
\<close>

text \<open>Every rune encoded again, so an invalid byte becomes U+FFFD.\<close>

definition valid_utf8 :: "string \<Rightarrow> string" where
  "valid_utf8 s = concat (map (\<lambda>p. encode_rune (fst p)) (segs s))"

section \<open>Runes\<close>

text \<open>A rune that was read from a valid encoding is read again whatever follows.\<close>

definition clean_seg :: "nat \<times> string \<Rightarrow> bool" where
  "clean_seg p \<longleftrightarrow> \<not> (fst p = rune_error \<and> length (snd p) = 1)"

lemma decode_bytes_runes:
  "b0 < 128 \<Longrightarrow> decode_bytes (b0 # t) = (b0, 1)"
  "194 \<le> b0 \<Longrightarrow> b0 < 224 \<Longrightarrow> cont b1 \<Longrightarrow> decode_bytes (b0 # b1 # t) = ((b0 - 192) * 64 + (b1 - 128), 2)"
  "224 \<le> b0 \<Longrightarrow> b0 < 240 \<Longrightarrow> (if b0 = 224 then 160 \<le> b1 \<and> b1 < 192
     else if b0 = 237 then 128 \<le> b1 \<and> b1 < 160 else cont b1) \<Longrightarrow> cont b2 \<Longrightarrow>
     decode_bytes (b0 # b1 # b2 # t) = ((b0 - 224) * 4096 + (b1 - 128) * 64 + (b2 - 128), 3)"
  "240 \<le> b0 \<Longrightarrow> b0 < 245 \<Longrightarrow> (if b0 = 240 then 144 \<le> b1 \<and> b1 < 192
     else if b0 = 244 then 128 \<le> b1 \<and> b1 < 144 else cont b1) \<Longrightarrow> cont b2 \<Longrightarrow> cont b3 \<Longrightarrow>
     decode_bytes (b0 # b1 # b2 # b3 # t)
       = ((b0 - 240) * 262144 + (b1 - 128) * 4096 + (b2 - 128) * 64 + (b3 - 128), 4)"
  by (simp_all add: decode_bytes_def)

lemma decode_bytes_cases:
  assumes "decode_bytes bs = (r, w)" and "bs \<noteq> []" and "\<not> (r = rune_error \<and> w = 1)"
  obtains (one) b0 t where "bs = b0 # t" "b0 < 128" "r = b0" "w = 1"
  | (two) b0 b1 t where "bs = b0 # b1 # t" "194 \<le> b0" "b0 < 224" "cont b1"
      "r = (b0 - 192) * 64 + (b1 - 128)" "w = 2"
  | (three) b0 b1 b2 t where "bs = b0 # b1 # b2 # t" "224 \<le> b0" "b0 < 240"
      "if b0 = 224 then 160 \<le> b1 \<and> b1 < 192 else if b0 = 237 then 128 \<le> b1 \<and> b1 < 160 else cont b1"
      "cont b2" "r = (b0 - 224) * 4096 + (b1 - 128) * 64 + (b2 - 128)" "w = 3"
  | (four) b0 b1 b2 b3 t where "bs = b0 # b1 # b2 # b3 # t" "240 \<le> b0" "b0 < 245"
      "if b0 = 240 then 144 \<le> b1 \<and> b1 < 192 else if b0 = 244 then 128 \<le> b1 \<and> b1 < 144 else cont b1"
      "cont b2" "cont b3"
      "r = (b0 - 240) * 262144 + (b1 - 128) * 4096 + (b2 - 128) * 64 + (b3 - 128)" "w = 4"
proof -
  obtain b0 cs where bs: "bs = b0 # cs" using assms(2) by (cases bs) auto
  define c2 where "c2 \<longleftrightarrow> 194 \<le> b0 \<and> b0 < 224 \<and> 1 \<le> length cs \<and> cont (cs ! 0)"
  define c3 where "c3 \<longleftrightarrow> 224 \<le> b0 \<and> b0 < 240 \<and> 2 \<le> length cs
     \<and> (if b0 = 224 then 160 \<le> cs ! 0 \<and> cs ! 0 < 192
        else if b0 = 237 then 128 \<le> cs ! 0 \<and> cs ! 0 < 160 else cont (cs ! 0)) \<and> cont (cs ! 1)"
  define c4 where "c4 \<longleftrightarrow> 240 \<le> b0 \<and> b0 < 245 \<and> 3 \<le> length cs
     \<and> (if b0 = 240 then 144 \<le> cs ! 0 \<and> cs ! 0 < 192
        else if b0 = 244 then 128 \<le> cs ! 0 \<and> cs ! 0 < 144 else cont (cs ! 0)) \<and> cont (cs ! 1) \<and> cont (cs ! 2)"
  have d: "decode_bytes bs = (if b0 < 128 then (b0, 1)
      else if c2 then ((b0 - 192) * 64 + (cs ! 0 - 128), 2)
      else if c3 then ((b0 - 224) * 4096 + (cs ! 0 - 128) * 64 + (cs ! 1 - 128), 3)
      else if c4 then ((b0 - 240) * 262144 + (cs ! 0 - 128) * 4096 + (cs ! 1 - 128) * 64 + (cs ! 2 - 128), 4)
      else (rune_error, 1))"
    by (simp only: decode_bytes_def bs c2_def c3_def c4_def list.case)
  consider "b0 < 128" | "\<not> b0 < 128" c2 | "\<not> b0 < 128" "\<not> c2" c3 | "\<not> b0 < 128" "\<not> c2" "\<not> c3" c4
    using assms(1,3) unfolding d by (auto split: if_splits)
  then show thesis
  proof cases
    case 1
    with assms(1) d show thesis by (intro one [OF bs 1]) simp_all
  next
    case 2
    then obtain b1 t where cs: "cs = b1 # t" by (cases cs) (auto simp: c2_def)
    from 2(2) have "194 \<le> b0" "b0 < 224" "cont b1" by (simp_all add: c2_def cs)
    then show thesis
      using 2 assms(1) by (intro two [OF bs [unfolded cs]]) (simp_all add: d cs)
  next
    case 3
    then obtain b1 b2 t where cs: "cs = b1 # b2 # t"
      by (cases cs; cases "tl cs") (auto simp: c3_def)
    from 3(3) have "224 \<le> b0" "b0 < 240" "cont b2"
      "if b0 = 224 then 160 \<le> b1 \<and> b1 < 192 else if b0 = 237 then 128 \<le> b1 \<and> b1 < 160 else cont b1"
      unfolding c3_def cs by (simp_all split: if_splits)
    then show thesis
      using 3 assms(1) by (intro three [OF bs [unfolded cs]]) (simp_all add: d cs)
  next
    case 4
    then obtain b1 b2 b3 t where cs: "cs = b1 # b2 # b3 # t"
      by (cases cs; cases "tl cs"; cases "tl (tl cs)") (auto simp: c4_def)
    from 4(4) have "240 \<le> b0" "b0 < 245" "cont b2" "cont b3"
      "if b0 = 240 then 144 \<le> b1 \<and> b1 < 192 else if b0 = 244 then 128 \<le> b1 \<and> b1 < 144 else cont b1"
      unfolding c4_def cs by (simp_all split: if_splits)
    then show thesis
      using 4 assms(1) by (intro four [OF bs [unfolded cs]]) (simp_all add: d cs)
  qed
qed

lemma decode_bytes_more:
  assumes "decode_bytes bs = (r, w)" and "bs \<noteq> []" and "\<not> (r = rune_error \<and> w = 1)"
  shows "decode_bytes (take w bs @ t) = (r, w)"
  using decode_bytes_cases [OF assms] by cases (simp_all add: decode_bytes_runes)

lemma decode_rune_more:
  assumes "s \<noteq> []" and "\<not> (fst (decode_rune s) = rune_error \<and> snd (decode_rune s) = 1)"
  shows "decode_rune (take (snd (decode_rune s)) s @ t) = decode_rune s" and "snd (decode_rune s) \<le> length s"
proof -
  obtain r w where d: "decode_rune s = (r, w)" by (cases "decode_rune s")
  let ?bs = "map byte (take 4 s)"
  have b: "decode_bytes ?bs = (r, w)" "?bs \<noteq> []" "\<not> (r = rune_error \<and> w = 1)"
    using d assms by (auto simp: decode_rune_def)
  have w: "w \<le> length ?bs"
    using decode_bytes_cases [OF b] by cases simp_all
  then show "snd (decode_rune s) \<le> length s" by (simp add: d)
  have "map byte (take 4 (take w s @ t)) = take w ?bs @ map byte (take (4 - w) t)"
    using w by (auto simp: take_map min_def split: if_splits)
  then show "decode_rune (take (snd (decode_rune s)) s @ t) = decode_rune s"
    using decode_bytes_more [OF b] by (simp add: d) (simp add: decode_rune_def)
qed

definition seg_of :: "string \<Rightarrow> (nat \<times> string) \<Rightarrow> bool" where
  "seg_of s p \<longleftrightarrow> s \<noteq> [] \<and> p = (fst (decode_rune s), take (snd (decode_rune s)) s)"

lemma segs_seg_of: "p \<in> set (segs s) \<Longrightarrow> \<exists>u. seg_of u p"
proof (induction s arbitrary: p rule: segs.induct)
  case (2 c cs)
  have "seg_of (c # cs) (fst (decode_rune (c # cs)), take (snd (decode_rune (c # cs))) (c # cs))"
    by (simp add: seg_of_def)
  moreover from "2.prems" have "p = (fst (decode_rune (c # cs)), take (snd (decode_rune (c # cs))) (c # cs))
      \<or> p \<in> set (segs (drop (snd (decode_rune (c # cs)) - 1) cs))"
    by (simp add: segs.simps(2))
  ultimately show ?case using "2.IH" by blast
qed simp

lemma seg_width:
  assumes "seg_of u (r, bs)" and "clean_seg (r, bs)"
  shows "snd (decode_rune u) = length bs" and "bs \<noteq> []"
proof -
  have u: "u \<noteq> []" "r = fst (decode_rune u)" "bs = take (snd (decode_rune u)) u"
    using assms(1) by (simp_all add: seg_of_def)
  have one: "1 \<le> snd (decode_rune u)" using u(1) by (rule decode_rune_width)
  have "\<not> (fst (decode_rune u) = rune_error \<and> snd (decode_rune u) = 1)"
    using assms(2) u by (cases u) (auto simp: clean_seg_def)
  from decode_rune_more(2) [OF u(1) this] u one
  show "snd (decode_rune u) = length bs" "bs \<noteq> []" by auto
qed

lemma segs_clean:
  assumes "seg_of u (r, bs)" and "clean_seg (r, bs)"
  shows "segs (bs @ t) = (r, bs) # segs t"
proof -
  note w = seg_width [OF assms]
  have u: "u \<noteq> []" "r = fst (decode_rune u)" "bs = take (snd (decode_rune u)) u"
    using assms(1) by (simp_all add: seg_of_def)
  have "\<not> (fst (decode_rune u) = rune_error \<and> snd (decode_rune u) = 1)"
    using assms(2) u(2) w(1) by (simp add: clean_seg_def)
  from decode_rune_more(1) [OF u(1) this, of t] have "decode_rune (bs @ t) = decode_rune u"
    by (simp only: u(3) [symmetric])
  with u(2) w(1) have d: "decode_rune (bs @ t) = (r, length bs)" by (simp add: prod_eq_iff)
  obtain c cs where bs: "bs = c # cs" using w(2) by (cases bs) auto
  with d show ?thesis by (simp add: segs.simps(2))
qed

lemma segs_concat_clean:
  "\<forall>p \<in> set ps. clean_seg p \<and> (\<exists>u. seg_of u p) \<Longrightarrow> segs (concat (map snd ps) @ t) = ps @ segs t"
proof (induction ps)
  case (Cons p ps)
  then obtain u where "seg_of u p" "clean_seg p" by auto
  with Cons segs_clean [of u "fst p" "snd p"] show ?case by simp
qed simp

lemma encode_rune_ascii: "r < 128 \<Longrightarrow> encode_rune r = [char_of r]"
  by (simp add: encode_rune_def)

lemma valid_utf8_clean:
  assumes "\<forall>p \<in> set ps. clean_seg p \<and> (\<exists>u. seg_of u p)"
  shows "valid_utf8 (concat (map snd ps)) = concat (map (\<lambda>p. encode_rune (fst p)) ps)"
  using segs_concat_clean [OF assms, of "[]"] by (simp add: valid_utf8_def)

text \<open>A string of valid UTF-8 is read back as it was.\<close>

definition utf8 :: "string \<Rightarrow> bool" where
  "utf8 s = list_all clean_seg (segs s)"

lemma low_bits: "z < 64 \<Longrightarrow> (a * 64 + z) div 64 = a" "z < 64 \<Longrightarrow> (a * 64 + z) mod 64 = (z :: nat)"
  by simp_all

lemma encode_two: "2 \<le> x \<Longrightarrow> x < 32 \<Longrightarrow> y < 64 \<Longrightarrow>
    encode_rune (x * 64 + y) = map char_of [192 + x, 128 + y]"
  by (simp add: encode_rune_def)

lemma encode_three:
  assumes "x < 16" "y < 64" "z < 64" and "x = 0 \<longrightarrow> 32 \<le> y" and "x = 13 \<longrightarrow> y < 32"
  shows "encode_rune (x * 4096 + y * 64 + z) = map char_of [224 + x, 128 + y, 128 + z]"
proof -
  let ?r = "x * 4096 + y * 64 + z"
  have d: "?r div 64 = x * 64 + y" "?r mod 64 = z"
    using low_bits [OF assms(3), of "x * 64 + y"] by (simp_all add: algebra_simps)
  moreover have "?r div 4096 = x" using assms(2,3) by simp
  moreover have "2048 \<le> ?r" "?r < 65536" using assms(1-4) by (cases "x = 0"; simp)+
  moreover have "\<not> (55296 \<le> ?r \<and> ?r < 57344)"
    using assms by (cases "x = 13"; cases "x < 13"; simp)
  moreover have "(x * 64 + y) mod 64 = y" using assms(2) by simp
  ultimately show ?thesis unfolding encode_rune_def by simp
qed

lemma encode_four:
  assumes "x < 5" "y < 64" "z < 64" "u < 64" and "x = 0 \<longrightarrow> 16 \<le> y" and "x = 4 \<longrightarrow> y < 16"
  shows "encode_rune (x * 262144 + y * 4096 + z * 64 + u)
    = map char_of [240 + x, 128 + y, 128 + z, 128 + u]"
proof -
  let ?r = "x * 262144 + y * 4096 + z * 64 + u"
  have d: "?r div 64 = (x * 64 + y) * 64 + z" "?r mod 64 = u"
    using low_bits [OF assms(4), of "(x * 64 + y) * 64 + z"] by (simp_all add: algebra_simps)
  have "?r = (x * 64 + y) * 4096 + (z * 64 + u)" "z * 64 + u < 4096" using assms(3,4) by simp_all
  then have "?r div 4096 = x * 64 + y" by simp
  moreover have "?r div 262144 = x" using assms(2-4) by simp
  moreover have "65536 \<le> ?r" "?r \<le> 1114111" using assms by (cases "x = 0"; cases "x = 4"; simp)+
  moreover have "((x * 64 + y) * 64 + z) mod 64 = z" "(x * 64 + y) mod 64 = y"
    by (rule low_bits(2) [OF assms(3)], rule low_bits(2) [OF assms(2)])
  ultimately show ?thesis using d unfolding encode_rune_def by simp
qed

lemma encode_decode:
  assumes "seg_of u (r, bs)" and "clean_seg (r, bs)"
  shows "encode_rune r = bs"
proof -
  have u: "u \<noteq> []" "decode_rune u = (r, length bs)" "bs = take (length bs) u"
    using assms(1) seg_width(1) [OF assms] by (auto simp: seg_of_def prod_eq_iff)
  let ?b = "map byte (take 4 u)"
  have d: "decode_bytes ?b = (r, length bs)" "?b \<noteq> []" "\<not> (r = rune_error \<and> length bs = 1)"
    using u assms(2) by (simp_all add: decode_rune_def clean_seg_def)
  have char: "char_of (byte c) = c" for c by simp
  have bs: "bs = map char_of (take (length bs) ?b)" if "length bs \<le> 4"
    using that u(3) by (simp add: take_map comp_def min_def)
  from d show ?thesis
  proof (cases rule: decode_bytes_cases)
    case (one b0 t)
    with bs show ?thesis by (simp add: encode_rune_ascii)
  next
    case (two b0 b1 t)
    have "2 \<le> b0 - 192" "b0 - 192 < 32" "b1 - 128 < 64" "128 \<le> b1" using two(2-4) by (auto simp: cont_def)
    with bs two encode_two [of "b0 - 192" "b1 - 128"] show ?thesis by simp
  next
    case (three b0 b1 b2 t)
    have "b1 - 128 < 64" "128 \<le> b1" "b0 = 224 \<longrightarrow> 32 \<le> b1 - 128" "b0 = 237 \<longrightarrow> b1 - 128 < 32"
      using three(4) by (auto simp: cont_def split: if_splits)
    moreover have "b2 - 128 < 64" "128 \<le> b2" using three(5) by (auto simp: cont_def)
    ultimately show ?thesis
      using bs three encode_three [of "b0 - 224" "b1 - 128" "b2 - 128"] by simp
  next
    case (four b0 b1 b2 b3 t)
    have "b1 - 128 < 64" "128 \<le> b1" "b0 = 240 \<longrightarrow> 16 \<le> b1 - 128" "b0 = 244 \<longrightarrow> b1 - 128 < 16"
      using four(4) by (auto simp: cont_def split: if_splits)
    moreover have "b2 - 128 < 64" "128 \<le> b2" "b3 - 128 < 64" "128 \<le> b3"
      using four(5,6) by (auto simp: cont_def)
    ultimately show ?thesis
      using bs four encode_four [of "b0 - 240" "b1 - 128" "b2 - 128" "b3 - 128"] by simp
  qed
qed

lemma valid_utf8_id: "utf8 s \<Longrightarrow> valid_utf8 s = s"
proof -
  assume "utf8 s"
  then have "map (\<lambda>p. encode_rune (fst p)) (segs s) = map snd (segs s)"
    using segs_seg_of [of _ s] encode_decode by (fastforce simp: utf8_def list_all_iff)
  then show ?thesis using concat_segs [of s] by (simp only: valid_utf8_def)
qed

lemma utf8_ascii: "is_ascii s \<Longrightarrow> utf8 s"
  by (auto simp: utf8_def segs_ascii list_all_iff clean_seg_def is_ascii_def rune_error_def)

section \<open>Cutting a string\<close>

lemma cont_inside:
  assumes "decode_bytes bs = (r, w)" "bs \<noteq> []" "\<not> (r = rune_error \<and> w = 1)" and "1 \<le> i" "i < w"
  shows "cont (bs ! i)"
  using assms(1-3)
proof (cases rule: decode_bytes_cases)
  case (two b0 b1 t)
  with assms(4,5) show ?thesis by (cases i) auto
next
  case (three b0 b1 b2 t)
  then have "i = 1 \<or> i = 2" using assms(4,5) by auto
  with three show ?thesis by (auto simp: cont_def split: if_splits)
next
  case (four b0 b1 b2 b3 t)
  then have "i = 1 \<or> i = 2 \<or> i = 3" using assms(4,5) by auto
  with four show ?thesis by (auto simp: cont_def split: if_splits)
qed (use assms(4,5) in auto)

lemma decode_before_start:
  assumes "a \<noteq> []" and "\<not> cont (byte c)"
  shows "decode_rune (a @ c # t) = decode_rune a"
proof (cases "fst (decode_rune a) = rune_error \<and> snd (decode_rune a) = 1")
  case False
  note more = decode_rune_more [OF assms(1) False]
  have "take (snd (decode_rune a)) a @ drop (snd (decode_rune a)) a @ c # t = a @ c # t"
    by (metis append.assoc append_take_drop_id)
  with more(1) [of "drop (snd (decode_rune a)) a @ c # t"] show ?thesis by simp
next
  case True
  let ?s = "a @ c # t"
  have ne: "?s \<noteq> []" by simp
  show ?thesis
  proof (cases "fst (decode_rune ?s) = rune_error \<and> snd (decode_rune ?s) = 1")
    case True': True
    with True show ?thesis by (simp add: prod_eq_iff)
  next
    case False
    note more = decode_rune_more [OF ne False]
    let ?w = "snd (decode_rune ?s)"
    show ?thesis
    proof (cases "?w \<le> length a")
      case le: True
      then have "take ?w ?s @ drop ?w a = a" by simp
      with more(1) [of "drop ?w a"] show ?thesis by simp
    next
      case gt: False
      let ?b = "map byte (take 4 ?s)"
      have d: "decode_bytes ?b = (fst (decode_rune ?s), ?w)" "?b \<noteq> []" by (simp_all add: decode_rune_def)
      have w: "?w \<le> 4" using d False by (cases rule: decode_bytes_cases) auto
      have "cont (?b ! length a)"
        using cont_inside [OF d False, of "length a"] assms(1) gt by (cases a) auto
      moreover have "?b ! length a = byte c" using w gt by (simp add: nth_append)
      ultimately show ?thesis using assms(2) by simp
    qed
  qed
qed

lemma width_le: "s \<noteq> [] \<Longrightarrow> snd (decode_rune s) \<le> length s"
  using decode_rune_more(2) [of s] by (cases s) fastforce+

lemma segs_split: "\<not> cont (byte c) \<Longrightarrow> segs (a @ c # t) = segs a @ segs (c # t)"
proof (induction a rule: segs.induct)
  case (2 x xs)
  have d: "decode_rune (x # xs @ c # t) = decode_rune (x # xs)"
    using decode_before_start [of "x # xs" c t] "2.prems" by simp
  have w: "snd (decode_rune (x # xs)) - 1 \<le> length xs" using width_le [of "x # xs"] by simp
  with 2 d show ?case by (simp add: segs.simps(2) take_Cons' split: if_splits)
qed simp

lemma high_bytes:
  assumes "seg_of u (r, bs)" and "clean_seg (r, bs)" and "128 \<le> r"
  shows "\<forall>c \<in> set bs. 128 \<le> byte c"
proof -
  have u: "decode_rune u = (r, length bs)" "bs = take (length bs) u" "u \<noteq> []"
    using assms(1) seg_width(1) [OF assms(1,2)] by (auto simp: seg_of_def prod_eq_iff)
  let ?b = "map byte (take 4 u)"
  have d: "decode_bytes ?b = (r, length bs)" "?b \<noteq> []" "\<not> (r = rune_error \<and> length bs = 1)"
    using u assms(2) by (simp_all add: decode_rune_def clean_seg_def)
  have "\<forall>b \<in> set (take (length bs) ?b). 128 \<le> b" "length bs \<le> 4"
    using d assms(3) by (cases rule: decode_bytes_cases; auto simp: cont_def split: if_splits)+
  moreover have "map byte bs = take (length bs) ?b" if "length bs \<le> 4"
    using that u(2) by (metis min.absorb1 take_map take_take)
  ultimately show ?thesis by (metis imageI list.set_map)
qed

end
