(* ===== verification/JsonStrings.thy ===== *)
theory JsonStrings
  imports Json Runes
begin

text \<open>
  The string literals of \<^verbatim>\<open>encoding/json\<close>: how a Go string is written (with the escapes for HTML,
  and bytes that are not UTF-8 replaced), how a literal is read, and the copy of raw JSON into a
  document (\<^verbatim>\<open>json.RawMessage\<close>, compacted and escaped).
\<close>

section \<open>Writing\<close>

definition replacement_piece :: jpiece where "replacement_piece = Hex ''fffd''"

definition ascii_pieces :: "nat \<Rightarrow> jpiece list" where
  "ascii_pieces b =
     (if b = 34 \<or> b = 92 then [Esc (char_of b)]
      else if b = 8 then [Esc (CHR ''b'')] else if b = 12 then [Esc (CHR ''f'')]
      else if b = 10 then [Esc (CHR ''n'')] else if b = 13 then [Esc (CHR ''r'')]
      else if b = 9 then [Esc (CHR ''t'')]
      else if b < 32 \<or> b = 60 \<or> b = 62 \<or> b = 38 then [Hex (''00'' @ [hex_digit (b div 16), hex_digit (b mod 16)])]
      else [Byte (char_of b)])"

text \<open>One rune with the bytes it was read from; U+2028 and U+2029 are escaped, too.\<close>

definition rune_pieces :: "nat \<times> string \<Rightarrow> jpiece list" where
  "rune_pieces p =
     (let (r, bs) = p
      in if r < 128 then ascii_pieces r
         else if r = rune_error \<and> length bs = 1 then [replacement_piece]
         else if r = 8232 then [Hex ''2028''] else if r = 8233 then [Hex ''2029'']
         else map Byte bs)"

definition string_pieces :: "string \<Rightarrow> jpiece list" where
  "string_pieces s = concat (map rune_pieces (segs s))"

section \<open>Reading\<close>

definition hex_value :: "char \<Rightarrow> nat" where
  "hex_value c = (if is_digit c then byte c - 48 else if byte c \<le> 70 then byte c - 55 else byte c - 87)"

definition hex_number :: "string \<Rightarrow> nat" where
  "hex_number h = foldl (\<lambda>n c. n * 16 + hex_value c) 0 h"

definition esc_byte :: "char \<Rightarrow> char" where
  "esc_byte c =
     (if c = CHR ''b'' then char_of (8 :: nat) else if c = CHR ''f'' then char_of (12 :: nat)
      else if c = CHR ''n'' then char_of (10 :: nat) else if c = CHR ''r'' then char_of (13 :: nat)
      else if c = CHR ''t'' then char_of (9 :: nat) else c)"

text \<open>
  \<^verbatim>\<open>unquote\<close>: plain bytes are collected and coerced to valid UTF-8; two escapes that form a
  surrogate pair are one rune, a lone surrogate is U+FFFD.
\<close>

definition high_surrogate :: "nat \<Rightarrow> bool" where "high_surrogate r \<longleftrightarrow> 55296 \<le> r \<and> r < 56320"
definition low_surrogate :: "nat \<Rightarrow> bool" where "low_surrogate r \<longleftrightarrow> 56320 \<le> r \<and> r < 57344"

fun unquote :: "string \<Rightarrow> jpiece list \<Rightarrow> string" where
  "unquote acc [] = valid_utf8 acc"
| "unquote acc (Byte c # ps) = unquote (acc @ [c]) ps"
| "unquote acc (Esc c # ps) = valid_utf8 acc @ esc_byte c # unquote [] ps"
| "unquote acc (Hex h # Hex l # ps) =
     valid_utf8 acc @
     (if high_surrogate (hex_number h) \<and> low_surrogate (hex_number l)
      then encode_rune ((hex_number h - 55296) * 1024 + (hex_number l - 56320) + 65536) @ unquote [] ps
      else encode_rune (hex_number h) @ unquote [] (Hex l # ps))"
| "unquote acc (Hex h # ps) = valid_utf8 acc @ encode_rune (hex_number h) @ unquote [] ps"

abbreviation unquoted :: "jpiece list \<Rightarrow> string" where "unquoted ps \<equiv> unquote [] ps"

section \<open>What is written is read back, up to invalid bytes\<close>

lemma hex_value_digit: "d < 16 \<Longrightarrow> hex_value (hex_digit d) = d"
  by (simp add: hex_value_def hex_digit_def is_digit_def)

lemma hex_number_byte: "b < 256 \<Longrightarrow> hex_number (''00'' @ [hex_digit (b div 16), hex_digit (b mod 16)]) = b"
proof -
  assume "b < 256"
  then have "hex_value (hex_digit (b div 16)) = b div 16" "hex_value (hex_digit (b mod 16)) = b mod 16"
    by (simp_all add: hex_value_digit)
  moreover have "hex_value (CHR ''0'') = 0" by (simp add: hex_value_def is_digit_def)
  ultimately show ?thesis by (simp add: hex_number_def)
qed

lemma unquote_Hex:
  "\<not> high_surrogate (hex_number h) \<Longrightarrow>
     unquote acc (Hex h # ps) = valid_utf8 acc @ encode_rune (hex_number h) @ unquote [] ps"
  by (cases ps; cases "hd ps") simp_all

lemma unquote_bytes: "unquote acc (map Byte bs @ ps) = unquote (acc @ bs) ps"
  by (induction bs arbitrary: acc) simp_all

lemma hex_fixed: "hex_number ''fffd'' = 65533" "hex_number ''2028'' = 8232" "hex_number ''2029'' = 8233"
  by (simp_all add: hex_number_def hex_value_def is_digit_def)

lemma escaped_bytes: "char_of (34 :: nat) = CHR 0x22" "char_of (92 :: nat) = CHR 0x5C"
  by (rule char_of_eq_iff [THEN iffD2]; simp)+

lemma ascii_pieces_cases:
  "ascii_pieces r = [Byte (char_of r)]
   \<or> (\<exists>c. ascii_pieces r = [Esc c] \<and> esc_byte c = char_of r)
   \<or> ascii_pieces r = [Hex (''00'' @ [hex_digit (r div 16), hex_digit (r mod 16)])]"
proof -
  consider "r \<in> {34, 92, 8, 12, 10, 13, 9}" | "r \<notin> {34, 92, 8, 12, 10, 13, 9}" by blast
  then show ?thesis
  proof cases
    case 1
    then show ?thesis by (elim insertE) (simp_all add: ascii_pieces_def esc_byte_def escaped_bytes)
  next
    case 2
    then show ?thesis by (simp add: ascii_pieces_def)
  qed
qed

text \<open>A rune is collected as its bytes, or written as something that is read as its encoding.\<close>

lemma unquote_rune:
  assumes "seg_of u p"
  shows "clean_seg p \<and> (\<forall>acc ps. unquote acc (rune_pieces p @ ps) = unquote (acc @ snd p) ps)
    \<or> (\<forall>acc ps. unquote acc (rune_pieces p @ ps) = valid_utf8 acc @ encode_rune (fst p) @ unquote [] ps)"
proof -
  obtain r bs where p: "p = (r, bs)" by (cases p)
  show ?thesis
  proof (cases "r < 128")
    case True
    then have clean: "clean_seg p" by (simp add: clean_seg_def p rune_error_def)
    have u: "u \<noteq> []" "fst (decode_rune u) = r" "bs = take (snd (decode_rune u)) u"
      using assms by (simp_all add: seg_of_def p)
    have bs: "bs = [char_of r]"
      using decode_rune_small [of u] u True by (cases u) auto
    have hex: "\<not> high_surrogate (hex_number (''00'' @ [hex_digit (r div 16), hex_digit (r mod 16)]))"
      using True hex_number_byte [of r] by (simp add: high_surrogate_def)
    consider "ascii_pieces r = [Byte (char_of r)]"
      | c where "ascii_pieces r = [Esc c]" "esc_byte c = char_of r"
      | "ascii_pieces r = [Hex (''00'' @ [hex_digit (r div 16), hex_digit (r mod 16)])]"
      using ascii_pieces_cases [of r] by blast
    then show ?thesis
    proof cases
      case 1
      with True clean show ?thesis by (simp add: rune_pieces_def p bs)
    next
      case 2
      with True show ?thesis by (simp add: rune_pieces_def p encode_rune_ascii)
    next
      case 3
      with True hex unquote_Hex [OF hex] hex_number_byte [of r] show ?thesis
        by (simp add: rune_pieces_def p)
    qed
  next
    case False
    then show ?thesis
      using hex_fixed
      by (auto simp: rune_pieces_def p Let_def clean_seg_def rune_error_def replacement_piece_def unquote_Hex
          unquote_bytes high_surrogate_def)
  qed
qed

lemma unquote_pieces:
  "\<forall>p \<in> set ps. clean_seg p \<and> (\<exists>u. seg_of u p) \<Longrightarrow> \<forall>q \<in> set qs. \<exists>u. seg_of u q \<Longrightarrow>
     unquote (concat (map snd ps)) (concat (map rune_pieces qs))
       = concat (map (\<lambda>p. encode_rune (fst p)) (ps @ qs))"
proof (induction qs arbitrary: ps)
  case Nil
  then show ?case by (simp add: valid_utf8_clean)
next
  case (Cons q qs)
  then obtain u where u: "seg_of u q" by auto
  from unquote_rune [OF u] show ?case
  proof
    assume *: "clean_seg q \<and> (\<forall>acc ps. unquote acc (rune_pieces q @ ps) = unquote (acc @ snd q) ps)"
    then have "\<forall>p \<in> set (ps @ [q]). clean_seg p \<and> (\<exists>u. seg_of u p)" using Cons.prems(1) u by auto
    from Cons.IH [OF this] Cons.prems(2) * show ?thesis by simp
  next
    assume *: "\<forall>acc ps. unquote acc (rune_pieces q @ ps) = valid_utf8 acc @ encode_rune (fst q) @ unquote [] ps"
    with Cons.IH [of "[]"] Cons.prems show ?thesis by (simp add: valid_utf8_clean)
  qed
qed

theorem string_round_trip: "unquoted (string_pieces s) = valid_utf8 s"
  using unquote_pieces [of "[]" "segs s"] segs_seg_of by (simp add: string_pieces_def valid_utf8_def)

section \<open>Reading from a byte that starts a rune\<close>

lemma unquote_split:
  "\<not> cont (byte c) \<Longrightarrow> unquote (a @ c # t) ps = valid_utf8 a @ unquote (c # t) ps"
proof (induction ps arbitrary: t)
  case (Cons p ps)
  have v: "valid_utf8 (a @ c # t) = valid_utf8 a @ valid_utf8 (c # t)"
    using segs_split [OF Cons.prems] by (simp add: valid_utf8_def)
  show ?case
  proof (cases p)
    case (Byte b)
    with Cons.IH [OF Cons.prems, of "t @ [b]"] show ?thesis by simp
  next
    case (Esc e)
    with v show ?thesis by simp
  next
    case (Hex h)
    with v show ?thesis by (cases ps; cases "hd ps") simp_all
  qed
qed (use segs_split in \<open>simp add: valid_utf8_def\<close>)

text \<open>A complete rune at the start is read on its own.\<close>

lemma unquote_seg:
  assumes "\<And>t. segs (bs @ t) = (r, bs) # segs t"
  shows "unquote (bs @ t) ps = encode_rune r @ unquote t ps"
proof -
  have v: "valid_utf8 (bs @ t) = encode_rune r @ valid_utf8 t" for t
    by (simp add: valid_utf8_def assms)
  show ?thesis
  proof (induction ps arbitrary: t)
    case (Cons p ps)
    show ?case
    proof (cases p)
      case (Byte b)
      with Cons.IH [of "t @ [b]"] show ?thesis by simp
    next
      case (Hex h)
      with v show ?thesis by (cases ps; cases "hd ps") simp_all
    qed (simp add: v)
  qed (simp add: v)
qed

text \<open>So the bytes of one rune may be replaced by an escape of it, wherever they stand.\<close>

lemma escape_for_bytes:
  assumes "\<And>t. segs (c # cs @ t) = (hex_number h, c # cs) # segs t" and "\<not> cont (byte c)"
    and "\<not> high_surrogate (hex_number h)"
  shows "unquote acc (Hex h # ps) = unquote acc (map Byte (c # cs) @ ps)"
proof -
  have "unquote acc (map Byte (c # cs) @ ps) = unquote (acc @ c # cs) ps"
    by (rule unquote_bytes)
  also have "\<dots> = valid_utf8 acc @ unquote (c # cs) ps" by (rule unquote_split [OF assms(2)])
  also have "\<dots> = valid_utf8 acc @ encode_rune (hex_number h) @ unquote [] ps"
    using unquote_seg [of "c # cs" "hex_number h" "[]" ps] assms(1) by simp
  finally show ?thesis by (simp add: unquote_Hex [OF assms(3)])
qed

end
