(* ===== verification/Floats.thy ===== *)
theory Floats
  imports Json "HOL-Library.Log_Nat"
begin

text \<open>
  The type float64 as the JSON package meets it: the nearest double of a rational number, the
  shortest decimal that denotes a double (\<^verbatim>\<open>strconv.AppendFloat\<close> with precision -1) in the format
  of \<^verbatim>\<open>encoding/json\<close>, and the number a JSON literal denotes. A double is the rational it stands
  for (so -0 is 0). Rounding to an integer is shared with the dashboard.
\<close>

section \<open>Rounding\<close>

text \<open>The nearest integer, ties to even.\<close>

definition round_even :: "rat \<Rightarrow> int" where
  "round_even q =
     (let n = \<lfloor>q\<rfloor>; r = q - of_int n
      in if r < 1 / 2 then n else if 1 / 2 < r then n + 1 else if even n then n else n + 1)"

lemma round_even_near: "\<bar>of_int (round_even q) - q\<bar> \<le> 1 / 2"
proof -
  have "of_int \<lfloor>q\<rfloor> \<le> q" "q < of_int \<lfloor>q\<rfloor> + 1" by linarith+
  then show ?thesis by (auto simp: round_even_def Let_def abs_le_iff field_simps)
qed

lemma round_even_int [simp]: "round_even (of_int n) = n"
  by (simp add: round_even_def)

section \<open>The nearest double\<close>

text \<open>The exponent \<open>e\<close> with \<open>2 ^ e \<le> q < 2 ^ (e + 1)\<close>, for a positive \<open>q\<close>.\<close>

definition binary_exponent :: "rat \<Rightarrow> int" where
  "binary_exponent q =
     (let (a, b) = quotient_of q; k = int (floorlog 2 (nat a)) - int (floorlog 2 (nat b))
      in if power_int 2 k \<le> q then k else k - 1)"

text \<open>53 bits, and no bit below \<open>2 ^ -1074\<close>; from \<open>2 ^ 1024\<close> on there is no finite double.\<close>

definition double_of_pos :: "rat \<Rightarrow> rat option" where
  "double_of_pos q =
     (let u = power_int 2 (max (binary_exponent q - 52) (- 1074)); d = of_int (round_even (q / u)) * u
      in if d < 2 ^ 1024 then Some d else None)"

definition to_double :: "rat \<Rightarrow> rat option" where
  "to_double q =
     (if q = 0 then Some 0
      else if 0 < q then double_of_pos q else map_option uminus (double_of_pos (- q)))"

section \<open>The shortest decimal\<close>

text \<open>The exponent \<open>e\<close> with \<open>10 ^ e \<le> q < 10 ^ (e + 1)\<close>, for a positive \<open>q\<close>.\<close>

definition decimal_exponent :: "rat \<Rightarrow> int" where
  "decimal_exponent q =
     (if 1 \<le> q then int (length (nat_digits (nat \<lfloor>q\<rfloor>))) - 1
      else let k = int (length (nat_digits (nat \<lfloor>1 / q\<rfloor>))) - 1
           in if q = power_int 10 (- k) then - k else - k - 1)"

text \<open>The decimal with \<open>n\<close> digits that denotes \<open>q\<close>, as \<open>(m, k)\<close> for \<open>m * 10 ^ k\<close>, if there is one.\<close>

definition digits_candidate :: "rat \<Rightarrow> nat \<Rightarrow> (int \<times> int) option" where
  "digits_candidate q n =
     (let k = decimal_exponent q - int n + 1; s = q / power_int 10 k;
          ok = (\<lambda>m. double_of_pos (of_int m * power_int 10 k) = Some q)
      in if ok \<lfloor>s\<rfloor> \<and> ok \<lceil>s\<rceil> then Some (round_even s, k)
         else if ok \<lfloor>s\<rfloor> then Some (\<lfloor>s\<rfloor>, k)
         else if ok \<lceil>s\<rceil> then Some (\<lceil>s\<rceil>, k)
         else if n = 17 then Some (round_even s, k) else None)"

definition shortest :: "rat \<Rightarrow> int \<times> int" where
  "shortest q = the (hd (filter (\<lambda>c. c \<noteq> None) (map (digits_candidate q) [1..<18])))"

fun strip_zeros :: "nat \<Rightarrow> nat \<Rightarrow> int \<Rightarrow> nat \<times> int" where
  "strip_zeros 0 m k = (m, k)"
| "strip_zeros (Suc n) m k = (if m \<noteq> 0 \<and> m mod 10 = 0 then strip_zeros n (m div 10) (k + 1) else (m, k))"

section \<open>The format of encoding/json\<close>

definition zeros :: "nat \<Rightarrow> string" where "zeros n = replicate n (CHR ''0'')"

text \<open>\<open>m * 10 ^ k\<close> without and with an exponent.\<close>

definition plain_decimal :: "nat \<Rightarrow> int \<Rightarrow> string" where
  "plain_decimal m k =
     (let ds = nat_digits m; x = int (length ds) + k
      in if 0 \<le> k then ds @ zeros (nat k)
         else if 0 < x then take (nat x) ds @ ''.'' @ drop (nat x) ds
         else ''0.'' @ zeros (nat (- x)) @ ds)"

definition exp_decimal :: "nat \<Rightarrow> int \<Rightarrow> string" where
  "exp_decimal m k =
     (let ds = nat_digits m; x = int (length ds) + k - 1
      in take 1 ds @ (if length ds = 1 then [] else ''.'' @ drop 1 ds) @ ''e'' @ (if 0 \<le> x then ''+'' else []) @ itoa x)"

definition pos_text :: "rat \<Rightarrow> string" where
  "pos_text q =
     (let (m, k) = shortest q; (n, j) = strip_zeros 17 (nat m) k
      in if q < 1 / 1000000 \<or> 10 ^ 21 \<le> q then exp_decimal n j else plain_decimal n j)"

definition float_text :: "rat \<Rightarrow> string" where
  "float_text q = (if q = 0 then ''0'' else if 0 < q then pos_text q else ''-'' @ pos_text (- q))"

section \<open>The value of a literal\<close>

definition literal_value :: "string \<Rightarrow> rat" where
  "literal_value s =
     (let neg = (take 1 s = ''-''); u = (if neg then tl s else s);
          ip = takeWhile is_digit u; r = dropWhile is_digit u;
          fr = (if take 1 r = ''.'' then takeWhile is_digit (tl r) else []);
          r' = (if take 1 r = ''.'' then dropWhile is_digit (tl r) else r);
          et = (if take 1 (tl r') = ''+'' then tl (tl r') else tl r');
          e = (if r' = [] then 0 else if take 1 et = ''-'' then - digits_value (tl et) else digits_value et);
          v = of_int (digits_value (ip @ fr)) * power_int 10 (e - int (length fr))
      in if neg then - v else v)"

section \<open>The text is a number\<close>

lemma nat_digits_bounds:
  "0 < n \<Longrightarrow> 10 ^ (length (nat_digits n) - 1) \<le> n \<and> n < 10 ^ length (nat_digits n)"
proof (induction n rule: nat_digits.induct)
  case (1 n)
  show ?case
  proof (cases "n < 10")
    case True
    with "1.prems" show ?thesis by (subst (1 2) nat_digits.simps) simp
  next
    case False
    with 1 have IH: "10 ^ (length (nat_digits (n div 10)) - 1) \<le> n div 10" "n div 10 < 10 ^ length (nat_digits (n div 10))"
      by simp_all
    let ?l = "length (nat_digits (n div 10))"
    have l: "length (nat_digits n) = Suc ?l" using False by (subst nat_digits.simps) simp
    obtain j where j: "?l = Suc j" using nat_digits_nonempty [of "n div 10"] by (cases ?l) auto
    have "n = n div 10 * 10 + n mod 10" "n mod 10 < 10" by simp_all
    moreover have "10 ^ j \<le> n div 10" "n div 10 < 10 ^ Suc j" using IH by (simp_all add: j)
    ultimately have "10 * 10 ^ j \<le> n" "n < 10 * 10 ^ Suc j" by linarith+
    then show ?thesis by (simp add: l j)
  qed
qed

lemma decimal_exponent_le:
  assumes "0 < q"
  shows "power_int 10 (decimal_exponent q) \<le> q"
proof (cases "1 \<le> q")
  case True
  let ?n = "nat \<lfloor>q\<rfloor>"
  have n: "0 < ?n" "of_nat ?n \<le> q" using True by (simp_all add: le_floor_iff)
  have len: "nat (int l - 1) = l - 1" for l by arith
  have "power_int 10 (decimal_exponent q) = (of_nat (10 ^ (length (nat_digits ?n) - 1)) :: rat)"
    using True nat_digits_nonempty [of ?n] by (simp add: decimal_exponent_def power_int_def len)
  also have "\<dots> \<le> of_nat ?n" using nat_digits_bounds [OF n(1)] by (subst of_nat_le_iff) simp
  finally show ?thesis using n(2) by simp
next
  case False
  let ?n = "nat \<lfloor>1 / q\<rfloor>"
  define k where "k = length (nat_digits ?n) - 1"
  have len: "length (nat_digits ?n) = Suc k" by (simp add: k_def)
  have n: "0 < ?n" using assms False by (simp add: le_divide_eq)
  have "?n < 10 ^ Suc k" using nat_digits_bounds [OF n] by (simp only: len)
  then have "int ?n < int (10 ^ Suc k)" by (simp only: of_nat_less_iff)
  then have "\<lfloor>1 / q\<rfloor> < 10 ^ Suc k" using assms by simp
  then have "1 / q < 10 ^ Suc k" by (simp add: floor_less_iff)
  then have less: "1 / 10 ^ Suc k < q" using assms by (simp add: field_simps)
  have e: "decimal_exponent q = (if q = power_int 10 (- int k) then - int k else - int k - 1)"
    using False by (simp add: decimal_exponent_def Let_def len)
  have "power_int 10 (- int k - 1) = (1 / 10 ^ Suc k :: rat)"
  proof -
    have "- int k - 1 = - int (Suc k)" by simp
    then show ?thesis by (simp only: power_int_minus power_int_of_nat inverse_eq_divide)
  qed
  with less e show ?thesis by (simp split: if_splits)
qed

lemma round_up_pos: "1 \<le> \<lfloor>s :: rat\<rfloor> \<Longrightarrow> 1 \<le> round_even s \<and> 1 \<le> \<lceil>s\<rceil>"
  using floor_le_ceiling [of s] by (auto simp: round_even_def Let_def)

lemma candidate_pos:
  assumes "0 < q" and "1 \<le> n" and "digits_candidate q n = Some (m, k)"
  shows "1 \<le> m"
proof -
  let ?k = "decimal_exponent q - int n + 1"
  let ?s = "q / power_int 10 ?k"
  have "power_int 10 ?k \<le> (power_int 10 (decimal_exponent q) :: rat)"
    using assms(2) by (intro power_int_increasing) auto
  then have "power_int 10 ?k \<le> q" using decimal_exponent_le [OF assms(1)] by linarith
  moreover have "(0 :: rat) < power_int 10 ?k" by simp
  ultimately have "1 \<le> ?s" by (simp add: le_divide_eq)
  then have f: "1 \<le> \<lfloor>?s\<rfloor>" by (simp add: le_floor_iff)
  from round_up_pos [OF this] f assms(3) show ?thesis by (auto simp: digits_candidate_def Let_def split: if_splits)
qed

lemma shortest_pos:
  assumes "0 < q"
  shows "1 \<le> fst (shortest q)"
proof -
  let ?c = "filter (\<lambda>c. c \<noteq> None) (map (digits_candidate q) [1..<18])"
  have "digits_candidate q 17 \<noteq> None" by (simp add: digits_candidate_def Let_def)
  then have "digits_candidate q 17 \<in> set ?c"
    unfolding set_filter set_map set_upt by (intro CollectI conjI image_eqI [of _ _ 17]) simp_all
  then have "?c \<noteq> []" by (metis empty_iff list.set(1))
  then have "hd ?c \<in> set ?c" by (rule hd_in_set)
  then obtain n where "n \<in> set [1..<18]" "hd ?c = digits_candidate q n" "hd ?c \<noteq> None"
    unfolding set_filter set_map by blast
  then have n: "1 \<le> n" "hd ?c = digits_candidate q n" "digits_candidate q n \<noteq> None" by simp_all
  then obtain p where p: "digits_candidate q n = Some p" by auto
  then show ?thesis using candidate_pos [OF assms n(1), of "fst p" "snd p"] n(2) by (simp add: shortest_def)
qed

lemma strip_zeros_pos: "0 < m \<Longrightarrow> 0 < fst (strip_zeros n m k)"
  by (induction n m k rule: strip_zeros.induct) auto

text \<open>Parts of a number text.\<close>

lemma takeWhile_digits:
  "list_all is_digit ds \<Longrightarrow> r = [] \<or> \<not> is_digit (hd r) \<Longrightarrow>
     takeWhile is_digit (ds @ r) = ds \<and> dropWhile is_digit (ds @ r) = r"
  by (cases r) (simp_all add: list_all_iff takeWhile_tail)

lemma dot_digit [simp]: "\<not> is_digit (CHR ''.'')" "\<not> is_digit (CHR ''e'')" "\<not> is_digit (CHR ''-'')"
    "is_digit (CHR ''0'')"
  by (simp_all add: is_digit_def)

lemma zeros_digits [simp]: "list_all is_digit (zeros n)"
  by (simp add: zeros_def list_all_iff)

definition plain_number :: "string \<Rightarrow> bool" where
  "plain_number s \<longleftrightarrow> (\<exists>ip r. s = ip @ r \<and> ip \<noteq> [] \<and> list_all is_digit ip \<and> (hd ip = CHR ''0'' \<longrightarrow> length ip = 1)
     \<and> (r = [] \<or> (\<exists>fr. r = CHR ''.'' # fr \<and> fr \<noteq> [] \<and> list_all is_digit fr)))"

definition exp_number :: "string \<Rightarrow> bool" where
  "exp_number s \<longleftrightarrow> (\<exists>p x. s = p @ CHR ''e'' # x \<and> plain_number p \<and> x \<noteq> []
     \<and> list_all is_digit (if hd x \<in> set ''+-'' then tl x else x) \<and> (hd x \<in> set ''+-'' \<longrightarrow> tl x \<noteq> []))"

lemma plain_decimal_number: "0 < m \<Longrightarrow> plain_number (plain_decimal m k)"
proof -
  assume m: "0 < m"
  let ?ds = "nat_digits m" and ?x = "int (length (nat_digits m)) + k"
  note ds = nat_digits_digits [of m] nat_digits_head [OF m]
  consider (int) "0 \<le> k" | (split) "k < 0" "0 < ?x" | (small) "k < 0" "?x \<le> 0" by linarith
  then show ?thesis
  proof cases
    case int
    with ds show ?thesis
      unfolding plain_number_def by (intro exI [of _ "plain_decimal m k"] exI [of _ "[]"]) (simp add: plain_decimal_def)
  next
    case split
    then have x: "0 < nat ?x" "nat ?x < length ?ds" by linarith+
    have "list_all is_digit (take n ?ds)" "list_all is_digit (drop n ?ds)" for n
      using ds(1) by (auto simp: list_all_iff dest: in_set_takeD in_set_dropD)
    moreover have "hd (take (nat ?x) ?ds) = hd ?ds" "take (nat ?x) ?ds \<noteq> []" "drop (nat ?x) ?ds \<noteq> []"
      using x by simp_all
    ultimately show ?thesis
      unfolding plain_number_def using split ds(2)
      by (intro exI [of _ "take (nat ?x) ?ds"] exI [of _ "CHR ''.'' # drop (nat ?x) ?ds"])
        (simp add: plain_decimal_def Let_def)
  next
    case small
    with ds(1) show ?thesis
      unfolding plain_number_def
      by (intro exI [of _ "''0''"] exI [of _ "CHR ''.'' # zeros (nat (- ?x)) @ ?ds"])
        (simp add: plain_decimal_def Let_def)
  qed
qed

lemma hd_take1: "s \<noteq> [] \<Longrightarrow> take 1 s = [hd s]"
  by (cases s) simp_all

lemma exp_decimal_number: "0 < m \<Longrightarrow> exp_number (exp_decimal m k)"
proof -
  assume m: "0 < m"
  let ?ds = "nat_digits m" and ?x = "int (length (nat_digits m)) + k - 1"
  note ds = nat_digits_digits [of m] nat_digits_head [OF m]
  let ?p = "take 1 ?ds @ (if length ?ds = 1 then [] else ''.'' @ drop 1 ?ds)"
  let ?e = "(if 0 \<le> ?x then ''+'' else []) @ itoa ?x"
  have one: "take 1 ?ds = [hd ?ds]" "is_digit (hd ?ds)" "list_all is_digit (drop 1 ?ds)"
    using ds(1) by (cases ?ds; simp)+
  have "plain_number ?p"
    unfolding plain_number_def using one
    by (intro exI [of _ "take 1 ?ds"] exI [of _ "if length ?ds = 1 then [] else CHR ''.'' # drop 1 ?ds"])
      (cases ?ds; auto)
  moreover have "?e \<noteq> []" "list_all is_digit (if hd ?e \<in> set ''+-'' then tl ?e else ?e)"
      "hd ?e \<in> set ''+-'' \<longrightarrow> tl ?e \<noteq> []"
    using nat_digits_digits by (auto simp: itoa_def)
  moreover have "exp_decimal m k = ?p @ CHR ''e'' # ?e" by (simp add: exp_decimal_def Let_def)
  ultimately show ?thesis unfolding exp_number_def by blast
qed

text \<open>Both shapes, with or without a sign, are numbers of the grammar.\<close>

lemma exp_ok_Cons: "exp_ok (CHR ''e'' # x) \<longleftrightarrow> (let ds = (if x \<noteq> [] \<and> hd x \<in> set ''+-'' then tl x else x)
    in ds \<noteq> [] \<and> list_all is_digit ds)"
  by (simp add: exp_ok_def)

lemma unsigned_number_ok:
  assumes "plain_number p" and "exp_ok e" and "e = [] \<or> hd e = CHR ''e''"
  shows "number_ok (p @ e) \<and> number_ok (CHR ''-'' # p @ e)"
proof -
  obtain ip r where p: "p = ip @ r" "ip \<noteq> []" "list_all is_digit ip" "hd ip = CHR ''0'' \<longrightarrow> length ip = 1"
    and r: "r = [] \<or> (\<exists>fr. r = CHR ''.'' # fr \<and> fr \<noteq> [] \<and> list_all is_digit fr)"
    using assms(1) unfolding plain_number_def by blast
  have e: "e = [] \<or> \<not> is_digit (hd e)" "take 1 e \<noteq> ''.''" using assms(3) by (cases e; auto)+
  have re: "r @ e = [] \<or> \<not> is_digit (hd (r @ e))" using r e(1) by auto
  note parts = takeWhile_digits [OF p(3) re]
  have frac: "if take 1 (r @ e) = ''.'' then frac_ok (tl (r @ e)) \<and> exp_ok (dropWhile is_digit (tl (r @ e)))
      else exp_ok (r @ e)"
  proof (cases "r = []")
    case False
    with r obtain fr where fr: "r = CHR ''.'' # fr" "fr \<noteq> []" "list_all is_digit fr" by auto
    with takeWhile_digits [OF fr(3) e(1)] assms(2) show ?thesis by (simp add: frac_ok_def)
  qed (use e assms(2) in auto)
  have "hd ip \<noteq> CHR ''-''" using p(2,3) by (cases ip) auto
  then have sign: "take 1 (p @ e) \<noteq> ''-''" using p(1,2) by (cases ip) auto
  have u: "p @ e = ip @ (r @ e)" by (simp add: p(1))
  have "number_ok (p @ e)"
    using parts frac p(2,4) sign unfolding number_ok_def u by (simp add: Let_def)
  moreover have "number_ok (CHR ''-'' # p @ e)"
    using parts frac p(2,4) unfolding number_ok_def u by (simp add: Let_def)
  ultimately show ?thesis ..
qed

lemma number_chars: "list_all is_digit s \<Longrightarrow> list_all number_char s"
  by (simp add: list_all_iff number_char_def)

lemma plain_number_chars: "plain_number s \<Longrightarrow> list_all number_char s"
  by (auto simp: plain_number_def number_chars number_char_def)

lemma exp_number_chars: "exp_number s \<Longrightarrow> list_all number_char s"
proof -
  assume "exp_number s"
  then obtain p x where s: "s = p @ CHR ''e'' # x" "plain_number p" "x \<noteq> []"
    "list_all is_digit (if hd x \<in> set ''+-'' then tl x else x)"
    unfolding exp_number_def by blast
  have "list_all number_char x"
    using s(3,4) by (cases x) (auto simp: number_chars number_char_def split: if_splits)
  with s(2) show ?thesis by (simp add: s(1) plain_number_chars number_char_def)
qed

definition json_number :: "string \<Rightarrow> bool" where
  "json_number s \<longleftrightarrow> list_all number_char s \<and> number_ok s"

lemma number_forms:
  assumes "plain_number s \<or> exp_number s"
  shows "json_number s \<and> json_number (CHR ''-'' # s)"
proof -
  have minus: "number_char (CHR ''-'')" by (simp add: number_char_def)
  show ?thesis
  proof (cases "plain_number s")
    case True
    with unsigned_number_ok [of s "[]"] plain_number_chars minus show ?thesis
      by (simp add: json_number_def exp_ok_def)
  next
    case False
    with assms have ex: "exp_number s" by simp
    then obtain p x where s: "s = p @ CHR ''e'' # x" "plain_number p" "x \<noteq> []"
      "list_all is_digit (if hd x \<in> set ''+-'' then tl x else x)" "hd x \<in> set ''+-'' \<longrightarrow> tl x \<noteq> []"
      unfolding exp_number_def by blast
    then have "exp_ok (CHR ''e'' # x)" by (auto simp: exp_ok_Cons Let_def split: if_splits)
    from unsigned_number_ok [OF s(2) this] exp_number_chars [OF ex] minus show ?thesis
      by (simp add: json_number_def s(1))
  qed
qed

lemma pos_text_number: "0 < q \<Longrightarrow> plain_number (pos_text q) \<or> exp_number (pos_text q)"
proof -
  assume "0 < q"
  then have "0 < fst (strip_zeros 17 (nat (fst (shortest q))) (snd (shortest q)))"
    using shortest_pos [of q] by (intro strip_zeros_pos) simp
  then show ?thesis
    using plain_decimal_number exp_decimal_number by (auto simp: pos_text_def Let_def case_prod_unfold)
qed

lemma nat_text_number: "plain_number (nat_digits n)"
proof (cases "0 < n")
  case True
  with nat_digits_digits nat_digits_head show ?thesis
    unfolding plain_number_def by (intro exI [of _ "nat_digits n"] exI [of _ "[]"]) auto
next
  case False
  then have "nat_digits n = ''0''" by (simp add: nat_digits_zero)
  then show ?thesis
    unfolding plain_number_def by (intro exI [of _ "''0''"] exI [of _ "[]"]) simp
qed

lemma float_text_number: "json_number (float_text q)"
  using number_forms [OF disjI1 [OF nat_text_number [of 0]]] number_forms [of "pos_text q"]
    number_forms [of "pos_text (- q)"] pos_text_number
  by (auto simp: float_text_def nat_digits_zero)

lemma itoa_number: "json_number (itoa n)"
  using number_forms [OF disjI1 [OF nat_text_number]] by (simp add: itoa_def)

section \<open>Integers\<close>

text \<open>Integers of 53 bits are exact: their text denotes them, and so does its double.\<close>

lemma binary_exponent_int: "0 < n \<Longrightarrow> n < 2 ^ 53 \<Longrightarrow> binary_exponent (of_int n) \<le> 52"
proof -
  assume n: "0 < n" "n < 2 ^ 53"
  then have "nat n < 2 ^ 53" by (simp add: nat_less_iff)
  then have "floorlog 2 (nat n) \<le> 53" by (intro floorlog_leI) simp_all
  moreover have "floorlog 2 1 = 1" by (simp add: floorlog_def)
  ultimately show ?thesis by (simp add: binary_exponent_def Let_def quotient_of_int)
qed

lemma double_of_int:
  assumes "0 < n" and "n < 2 ^ 53"
  shows "double_of_pos (of_int n) = Some (of_int n)"
proof -
  let ?x = "max (binary_exponent (of_int n) - 52) (- 1074)"
  have x: "?x \<le> 0" using binary_exponent_int [OF assms] by simp
  define k where "k = nat (- ?x)"
  have u: "power_int 2 ?x = inverse (2 ^ k :: rat)"
    using x by (auto simp: k_def power_int_def power_one_over inverse_eq_divide)
  have q: "of_int n / power_int 2 ?x = (of_int (n * 2 ^ k) :: rat)" by (simp add: u divide_inverse)
  have d: "of_int (n * 2 ^ k) * power_int 2 ?x = (of_int n :: rat)" by (simp add: u)
  have lt: "(of_int n :: rat) < 2 ^ 1024"
  proof -
    have "n < 2 ^ 1024" using assms(2) by (rule less_le_trans) simp
    then have "(of_int n :: rat) < of_int (2 ^ 1024)" by (simp only: of_int_less_iff)
    then show ?thesis by simp
  qed
  show ?thesis unfolding double_of_pos_def Let_def q round_even_int by (simp only: d lt if_True)
qed

lemma to_double_int: "\<bar>n\<bar> < 2 ^ 53 \<Longrightarrow> to_double (of_int n) = Some (of_int n)"
  using double_of_int [of n] double_of_int [of "- n"] by (auto simp: to_double_def)

lemma digits_value_digits: "digits_value (nat_digits n) = int n"
  unfolding digits_value_def
proof (induction n rule: nat_digits.induct)
  case (1 n)
  then show ?case by (subst nat_digits.simps) (auto simp: of_nat_mod zmod_int zdiv_int)
qed

lemma literal_itoa: "literal_value (itoa n) = of_int n"
proof -
  have whole: "takeWhile is_digit (nat_digits m) = nat_digits m" "dropWhile is_digit (nat_digits m) = []" for m
    using takeWhile_digits [OF nat_digits_digits [of m], of "[]"] by simp_all
  have "take 1 (nat_digits m) \<noteq> ''-''" for m
    using nat_digits_digits [of m] by (cases "nat_digits m") auto
  then show ?thesis by (simp add: literal_value_def itoa_def whole digits_value_digits Let_def)
qed

end
