(* ===== verification/Calendar.thy ===== *)
theory Calendar
  imports Clock
begin

text \<open>
  \<^verbatim>\<open>t.UTC().Format("2006-01-02T15:04:05Z07:00")\<close>: from nanoseconds since the Unix epoch back to
  the calendar, and the proof that the text of a date is recovered. The calendar repeats after
  400 years, that is 146097 days.
\<close>

section \<open>The calendar, year by year and month by month\<close>

lemma ceil_step: "0 < k \<Longrightarrow> (Suc y + (k - 1)) div k = (y + (k - 1)) div k + (if k dvd y then 1 else (0::nat))"
proof -
  assume k: "0 < k"
  have s: "Suc y + (k - 1) = Suc (y + (k - 1))" by simp
  have "k dvd Suc (y + (k - 1)) \<longleftrightarrow> k dvd y"
  proof -
    have "Suc (y + (k - 1)) = y + k" using k by simp
    then show ?thesis by simp
  qed
  then show ?thesis unfolding s using div_Suc [of "y + (k - 1)" k] by (auto simp: dvd_eq_mod_eq_0)
qed
lemma leaps_le: "(y + 99) div 100 \<le> (y + 3) div (4::nat)"
proof -
  have "(y + 99) div 100 * 100 \<le> y + 99" by (rule div_times_less_eq_dividend)
  then have "(y + 99) div 100 * 4 \<le> y + 3" by linarith
  then show ?thesis by (simp add: less_eq_div_iff_mult_less_eq)
qed

lemma year_sum_step:
  fixes a b c :: nat
  assumes "b \<le> a" and "R \<Longrightarrow> Q" and "Q \<Longrightarrow> P"
  shows "365 * Suc y + (a + (if P then 1 else 0)) - (b + (if Q then 1 else 0)) + (c + (if R then 1 else 0))
    = 365 * y + a - b + c + (if P \<and> (\<not> Q \<or> R) then 366 else 365)"
  using assms by (cases P; cases Q; cases R) auto

lemma year_sum_cycles: "b \<le> a \<Longrightarrow> 365 * (400 * c + y) + (100 * c + a) - (4 * c + b) + (c + e) = 146097 * c + (365 * y + a - b + e)"
  for a b c e y :: nat
  by (simp add: algebra_simps)

lemma year_step: "days_before_year (Suc y) = days_before_year y + (if leap_year y then 366 else 365)"
proof -
  have 4: "(Suc y + 3) div 4 = (y + 3) div 4 + (if 4 dvd y then 1 else (0::nat))" using ceil_step [of 4 y] by simp
  have 100: "(Suc y + 99) div 100 = (y + 99) div 100 + (if 100 dvd y then 1 else (0::nat))" using ceil_step [of 100 y] by simp
  have 400: "(Suc y + 399) div 400 = (y + 399) div 400 + (if 400 dvd y then 1 else (0::nat))" using ceil_step [of 400 y] by simp
  have d: "100 dvd y \<Longrightarrow> 4 dvd y" "400 dvd y \<Longrightarrow> 100 dvd y" by presburger+
  have lp: "leap_year y \<longleftrightarrow> 4 dvd y \<and> (\<not> 100 dvd y \<or> 400 dvd y)" by (simp add: leap_year_def)
  show ?thesis
    unfolding days_before_year_def 4 100 400 lp using leaps_le [of y] d
    by (intro year_sum_step) auto
qed

lemma year_mono: "y \<le> z \<Longrightarrow> days_before_year y \<le> days_before_year z"
  by (induction z) (auto simp: year_step le_Suc_eq)

lemma month_step: "1 \<le> m \<Longrightarrow> days_before_month (Suc m) y = days_before_month m y + days_in m y"
  by (simp add: days_before_month_def)

lemma month_mono: "m \<le> k \<Longrightarrow> days_before_month m y \<le> days_before_month k y"
proof (induction k)
  case (Suc k)
  then show ?case by (cases "1 \<le> k"; cases "m = Suc k") (simp_all add: month_step, simp add: days_before_month_def)
qed simp

lemma month_total: "days_before_month 13 y = (if leap_year y then 366 else 365)"
  by (simp add: days_before_month_def upt_rec days_in_def)

section \<open>Formatting\<close>

text \<open>The last number below a bound with a property.\<close>

definition last_where :: "(nat \<Rightarrow> bool) \<Rightarrow> nat \<Rightarrow> nat \<Rightarrow> nat" where
  "last_where P a b = last (filter P [a..<b])"

lemma last_where_eq:
  assumes "a \<le> k" and "k < b" and "P k" and "\<And>j. k < j \<Longrightarrow> \<not> P j"
  shows "last_where P a b = k"
proof -
  have "[a..<b] = [a..<k] @ [k..<b]" using assms(1,2) by (metis less_imp_le_nat upt_add_eq_append le_add_diff_inverse)
  also have "[k..<b] = k # [Suc k..<b]" using assms(2) by (rule upt_conv_Cons)
  finally have "filter P [a..<b] = filter P [a..<k] @ k # filter P [Suc k..<b]" using assms(3) by simp
  moreover have "filter P [Suc k..<b] = []" using assms(4) by (simp add: filter_empty_conv)
  ultimately show ?thesis by (simp add: last_where_def)
qed

definition year_of :: "nat \<Rightarrow> nat" where
  "year_of d = last_where (\<lambda>y. days_before_year y \<le> d) 0 400"

definition month_of :: "nat \<Rightarrow> nat \<Rightarrow> nat" where
  "month_of y r = last_where (\<lambda>m. days_before_month m y \<le> r) 1 13"

text \<open>A year has four digits at least, with a sign before year 0.\<close>

definition year4 :: "int \<Rightarrow> string" where
  "year4 y = (let n = nat \<bar>y\<bar> in (if y < 0 then ''-'' else []) @ (if n < 10000 then pad4 n else nat_digits n))"

definition format_time :: "int \<Rightarrow> string" where
  "format_time t =
     (let secs = t div 1000000000; days = secs div 86400 + int epoch_day; sod = nat (secs mod 86400);
          d = nat (days mod 146097); y = year_of d; r = d - days_before_year y; m = month_of y r
      in year4 (int y + 400 * (days div 146097)) @ ''-'' @ pad2 m @ ''-'' @ pad2 (r - days_before_month m y + 1)
         @ ''T'' @ pad2 (sod div 3600) @ '':'' @ pad2 (sod div 60 mod 60) @ '':'' @ pad2 (sod mod 60) @ ''Z'')"

text \<open>RFC3339Nano: the fraction of the second without its trailing zeros, before the zone.\<close>

definition fraction :: "nat \<Rightarrow> string" where
  "fraction ns =
     (let ds = rev (dropWhile (\<lambda>c. c = CHR ''0'')
        (rev (num_char (ns div 100000000) # pad4 (ns div 10000 mod 10000) @ pad4 (ns mod 10000))))
      in if ds = [] then [] else CHR ''.'' # ds)"

definition format_time_nano :: "int \<Rightarrow> string" where
  "format_time_nano t = butlast (format_time t) @ fraction (nat (t mod 1000000000)) @ ''Z''"

section \<open>Recovering the date\<close>

lemma cycles: "days_before_year (400 * c + y) = 146097 * c + days_before_year y"
proof -
  have "400 * c + y + 3 = (y + 3) + 100 * c * 4" "400 * c + y + 99 = (y + 99) + 4 * c * 100" "400 * c + y + 399 = (y + 399) + c * 400"
    by simp_all
  then have d: "(400 * c + y + 3) div 4 = 100 * c + (y + 3) div 4" "(400 * c + y + 99) div 100 = 4 * c + (y + 99) div 100"
    "(400 * c + y + 399) div 400 = c + (y + 399) div 400"
    by (simp_all only: div_mult_self1 zero_neq_numeral not_False_eq_True)
  show ?thesis unfolding days_before_year_def d by (rule year_sum_cycles [OF leaps_le])
qed

lemma civil_parts:
  assumes "1 \<le> mo" and "mo \<le> 12" and "1 \<le> d" and "d \<le> days_in mo y" and "y < 400"
  shows "year_of (days_before_year y + days_before_month mo y + (d - 1)) = y"
    and "month_of y (days_before_month mo y + (d - 1)) = mo"
    and "days_before_year y + days_before_month mo y + (d - 1) < days_before_year (Suc y)"
proof -
  have next_month: "days_before_month mo y + (d - 1) < days_before_month (Suc mo) y"
    using assms(1,3,4) by (simp add: month_step)
  also have "\<dots> \<le> days_before_month 13 y" using assms(2) by (intro month_mono) simp
  finally show lt: "days_before_year y + days_before_month mo y + (d - 1) < days_before_year (Suc y)"
    by (simp add: month_total year_step split: if_splits)
  show "year_of (days_before_year y + days_before_month mo y + (d - 1)) = y"
    unfolding year_of_def
  proof (rule last_where_eq)
    fix j assume "y < j"
    then show "\<not> days_before_year j \<le> days_before_year y + days_before_month mo y + (d - 1)"
      using lt year_mono [of "Suc y" j] by simp
  qed (use assms(5) in simp_all)
  show "month_of y (days_before_month mo y + (d - 1)) = mo"
    unfolding month_of_def
  proof (rule last_where_eq)
    fix j assume "mo < j"
    then show "\<not> days_before_month j y \<le> days_before_month mo y + (d - 1)"
      using next_month month_mono [of "Suc mo" j y] by simp
  qed (use assms(1,2) in simp_all)
qed

lemma days_in_cycle: "days_in m (400 * c + y) = days_in m y"
proof -
  have "k dvd 400 * c + y \<longleftrightarrow> k dvd y" if "k dvd 400" for k :: nat using that by (simp add: dvd_add_right_iff)
  then have "leap_year (400 * c + y) = leap_year y" by (simp add: leap_year_def)
  then show ?thesis by (simp add: days_in_def)
qed

lemma month_cycle: "days_before_month m (400 * c + y) = days_before_month m y"
  by (simp add: days_before_month_def days_in_cycle)

lemma format_unix:
  assumes "y < 10000" and "1 \<le> mo" and "mo \<le> 12" and "1 \<le> d" and "d \<le> days_in mo y"
    and "h < 24" and "mi < 60" and "s < 60" and "0 \<le> ns" and "ns < 1000000000"
  shows "format_time (unix_seconds y mo d h mi s * 1000000000 + ns) = format_rfc3339 y mo d h mi s"
proof -
  define c z where "c = y div 400" and "z = y mod 400"
  have y: "y = 400 * c + z" and z: "z < 400" by (simp_all add: c_def z_def)
  define D where "D = days_before_year z + days_before_month mo z + (d - 1)"
  have d: "d \<le> days_in mo z" using assms(5) by (simp add: y days_in_cycle)
  note civil = civil_parts [OF assms(2,3,4) d z]
  have "days_before_year (Suc z) \<le> days_before_year (400 * 1 + 0)" using z by (intro year_mono) simp
  moreover have "days_before_year (400 * 1 + 0) = 146097" by (simp add: days_before_year_def)
  ultimately have D: "D < 146097" using civil(3) unfolding D_def by linarith
  let ?sod = "h * 3600 + mi * 60 + s"
  have sod: "?sod < 86400" "?sod div 3600 = h" "?sod div 60 mod 60 = mi" "?sod mod 60 = s"
  proof -
    have "mi * 60 + s < 3600" using assms(7,8) by linarith
    then show "?sod < 86400" "?sod div 3600 = h" using assms(6) by (linarith, simp add: add.assoc)
    have "?sod = s + (h * 60 + mi) * 60" by simp
    then have "?sod div 60 = h * 60 + mi" "?sod mod 60 = s"
      using assms(8) by (simp_all only: div_mult_self1 mod_mult_self1 zero_neq_numeral not_False_eq_True) simp_all
    then show "?sod div 60 mod 60 = mi" "?sod mod 60 = s" using assms(7) by simp_all
  qed
  let ?secs = "unix_seconds y mo d h mi s"
  have secs: "?secs = (int (146097 * c + D) - int epoch_day) * 86400 + int ?sod"
    unfolding unix_seconds_def y cycles month_cycle D_def by simp
  have t: "(?secs * 1000000000 + ns) div 1000000000 = ?secs" using assms(9,10) by simp
  have split: "(x * 86400 + int n) div 86400 = x" "nat ((x * 86400 + int n) mod 86400) = n" if "n < 86400" for x :: int and n :: nat
    using that by simp_all
  have "?secs div 86400 = int (146097 * c + D) - int epoch_day" and m: "nat (?secs mod 86400) = ?sod"
    unfolding secs by (rule split [OF sod(1)])+
  then have days: "?secs div 86400 + int epoch_day = int c * 146097 + int D" by simp
  have cyc: "(int c * 146097 + int D) div 146097 = int c" "nat ((int c * 146097 + int D) mod 146097) = D"
    using D by simp_all
  have r: "D - days_before_year z = days_before_month mo z + (d - 1)" by (simp add: D_def)
  have yr: "year_of D = z" using civil(1) by (simp only: D_def)
  have year: "year4 (int z + 400 * int c) = pad4 y"
  proof -
    have "int z + 400 * int c = int y" by (simp add: y)
    then show ?thesis using assms(1) by (simp add: year4_def)
  qed
  have day: "days_before_month mo z + (d - 1) - days_before_month mo z + 1 = d" using assms(4) by simp
  show ?thesis
    unfolding format_time_def Let_def t days m cyc yr r civil(2) year sod day format_rfc3339_def ..
qed

end
