(* ===== verification/JsonValues.thy ===== *)
theory JsonValues
  imports JsonStrings Floats Calendar
begin

text \<open>
  The values the program encodes and decodes: documents, the encoder \<^verbatim>\<open>json.Marshal\<close> of them and
  of values of type any, raw messages, and \<^verbatim>\<open>json.Unmarshal\<close> into an any and into the fields
  of a struct. A raw message is kept as the compact text of its syntax tree (white space between
  tokens is not kept; the program never looks at it).
\<close>

section \<open>Documents\<close>

datatype json = JNull | JBool bool | JNum string | JStr string | JArr "json list" | JObj "(string \<times> json) list"

definition jint :: "int \<Rightarrow> json" where "jint n = JNum (itoa n)"
definition jtime :: "int \<Rightarrow> json" where "jtime t = JStr (format_time_nano t)"

fun cst_of :: "json \<Rightarrow> cst" where
  "cst_of JNull = CLit ''null''"
| "cst_of (JBool b) = CLit (if b then ''true'' else ''false'')"
| "cst_of (JNum n) = CNum n"
| "cst_of (JStr s) = CStr (string_pieces s)"
| "cst_of (JArr vs) = CArr (map cst_of vs)"
| "cst_of (JObj ms) = CObj (map (\<lambda>(k, v). (string_pieces k, cst_of v)) ms)"

fun doc_of :: "cst \<Rightarrow> json" where
  "doc_of (CLit w) = (if w = ''null'' then JNull else JBool (w = ''true''))"
| "doc_of (CNum n) = JNum n"
| "doc_of (CStr ps) = JStr (unquoted ps)"
| "doc_of (CArr vs) = JArr (map doc_of vs)"
| "doc_of (CObj ms) = JObj (map (\<lambda>(k, v). (unquoted k, doc_of v)) ms)"

definition marshal :: "json \<Rightarrow> string" where "marshal v = print_json (cst_of v)"

text \<open>What a reader gets: the document with its strings coerced to valid UTF-8.\<close>

fun clean_doc :: "json \<Rightarrow> json" where
  "clean_doc (JStr s) = JStr (valid_utf8 s)"
| "clean_doc (JArr vs) = JArr (map clean_doc vs)"
| "clean_doc (JObj ms) = JObj (map (\<lambda>(k, v). (valid_utf8 k, clean_doc v)) ms)"
| "clean_doc v = v"

fun json_ok :: "json \<Rightarrow> bool" where
  "json_ok (JNum n) \<longleftrightarrow> json_number n"
| "json_ok (JArr vs) \<longleftrightarrow> (\<forall>v \<in> set vs. json_ok v)"
| "json_ok (JObj ms) \<longleftrightarrow> (\<forall>m \<in> set ms. json_ok (snd m))"
| "json_ok _ \<longleftrightarrow> True"

definition read_doc :: "string \<Rightarrow> json option" where
  "read_doc s = map_option doc_of (read_json s)"

text \<open>Navigation in a document that was read.\<close>

fun member :: "string \<Rightarrow> json \<Rightarrow> json" where
  "member k (JObj ms) = (case map_of ms k of Some v \<Rightarrow> v | None \<Rightarrow> JNull)"
| "member k v = JNull"

fun elements :: "json \<Rightarrow> json list" where
  "elements (JArr vs) = vs"
| "elements v = []"

section \<open>Values of type any\<close>

text \<open>A map is written in the order of its keys; an infinity or NaN cannot be written.\<close>

fun all_some :: "'a option list \<Rightarrow> 'a list option" where
  "all_some [] = Some []"
| "all_some (x # xs) =
     (case x of None \<Rightarrow> None | Some v \<Rightarrow> (case all_some xs of None \<Rightarrow> None | Some vs \<Rightarrow> Some (v # vs)))"

fun any_json :: "gvalue \<Rightarrow> json option" where
  "any_json VNil = Some JNull"
| "any_json (VBool b) = Some (JBool b)"
| "any_json (VInt n) = Some (jint n)"
| "any_json (VFloat x) = (case x of Fin q \<Rightarrow> Some (JNum (float_text q)) | _ \<Rightarrow> None)"
| "any_json (VStr s) = Some (JStr s)"
| "any_json (VList vs) = map_option JArr (all_some (map any_json vs))"
| "any_json (VMap ms) =
     map_option (\<lambda>xs. JObj (sort_key fst xs))
       (all_some (map (\<lambda>(k, v). map_option (Pair k) (any_json v)) ms))"
| "any_json VOther = None"

text \<open>
  Decoding into an any: every number is a float64, and one out of its range is an error; of two
  members with one key the later counts.
\<close>

fun any_of :: "cst \<Rightarrow> gvalue option" where
  "any_of (CLit w) = Some (if w = ''null'' then VNil else VBool (w = ''true''))"
| "any_of (CNum n) = map_option (\<lambda>q. VFloat (Fin q)) (to_double (literal_value n))"
| "any_of (CStr ps) = Some (VStr (unquoted ps))"
| "any_of (CArr vs) = map_option VList (all_some (map any_of vs))"
| "any_of (CObj ms) =
     map_option (\<lambda>xs. VMap (foldl (\<lambda>m (k, v). map_put k v m) [] xs))
       (all_some (map (\<lambda>(k, v). map_option (Pair (unquoted k)) (any_of v)) ms))"

section \<open>Unmarshal\<close>

text \<open>Go's decoder refuses a text nested deeper than 10000.\<close>

definition max_nesting :: nat where "max_nesting = 10000"

definition unmarshal :: "string \<Rightarrow> cst option" where
  "unmarshal s = (case read_json s of Some v \<Rightarrow> if depth v \<le> max_nesting then Some v else None | None \<Rightarrow> None)"

text \<open>
  The members for a struct field: those whose key is the field's name up to case. A string field
  keeps its value at null and refuses every other type; a raw message takes the last value.
\<close>

type_synonym members = "(jpiece list \<times> cst) list"

definition field_values :: "string \<Rightarrow> members \<Rightarrow> cst list" where
  "field_values name ms = map snd (filter (\<lambda>(k, v). equal_fold (unquoted k) name) ms)"

fun string_field :: "string \<Rightarrow> cst list \<Rightarrow> string option" where
  "string_field s [] = Some s"
| "string_field s (CStr ps # vs) = string_field (unquoted ps) vs"
| "string_field s (CLit w # vs) = (if w = ''null'' then string_field s vs else None)"
| "string_field s (v # vs) = None"

definition raw_field :: "cst list \<Rightarrow> string" where
  "raw_field vs = (if vs = [] then [] else print_json (last vs))"

text \<open>The members of a document decoded into a struct; null leaves the struct as it is.\<close>

definition struct_members :: "cst \<Rightarrow> members option" where
  "struct_members v = (case v of CObj ms \<Rightarrow> Some ms | CLit w \<Rightarrow> if w = ''null'' then Some [] else None | _ \<Rightarrow> None)"

section \<open>Raw messages\<close>

definition html_hex :: "char \<Rightarrow> jpiece" where
  "html_hex c = Hex (''00'' @ [hex_digit (byte c div 16), hex_digit (byte c mod 16)])"

text \<open>\<^verbatim>\<open>compact\<close> with escaping: the characters of HTML, and the bytes of U+2028 and U+2029.\<close>

definition html_piece :: "jpiece \<Rightarrow> jpiece" where
  "html_piece p = (case p of Byte a \<Rightarrow> if a \<in> set ''<>&'' then html_hex a else Byte a | _ \<Rightarrow> p)"

definition separator_bytes :: "jpiece list \<Rightarrow> jpiece option" where
  "separator_bytes ps =
     (if take 3 ps = map Byte [char_of (226 :: nat), char_of (128 :: nat), char_of (168 :: nat)] then Some (Hex ''2028'')
      else if take 3 ps = map Byte [char_of (226 :: nat), char_of (128 :: nat), char_of (169 :: nat)] then Some (Hex ''2029'')
      else None)"

fun html_pieces :: "jpiece list \<Rightarrow> jpiece list" where
  "html_pieces [] = []"
| "html_pieces (p # ps) =
     (case separator_bytes (p # ps) of
        Some h \<Rightarrow> h # html_pieces (drop 2 ps)
      | None \<Rightarrow> html_piece p # html_pieces ps)"

fun html_cst :: "cst \<Rightarrow> cst" where
  "html_cst (CStr ps) = CStr (html_pieces ps)"
| "html_cst (CArr vs) = CArr (map html_cst vs)"
| "html_cst (CObj ms) = CObj (map (\<lambda>(k, v). (html_pieces k, html_cst v)) ms)"
| "html_cst v = v"

text \<open>A raw message inside a document that is encoded: nil is null, a text that is not JSON fails.\<close>

definition raw_message :: "string \<Rightarrow> cst option" where
  "raw_message raw = (if raw = [] then Some (CLit ''null'') else map_option html_cst (unmarshal raw))"

section \<open>What is encoded is well formed\<close>

lemma hex_digit_hex: "d < 16 \<Longrightarrow> is_hex (hex_digit d)"
  by (simp add: is_hex_def hex_digit_def is_digit_def)

lemma ascii_pieces_ok: "b < 128 \<Longrightarrow> list_all piece_ok (ascii_pieces b)"
proof -
  assume b: "b < 128"
  have "b div 16 < 16" "b mod 16 < 16" using b by simp_all
  then have hex: "piece_ok (Hex (''00'' @ [hex_digit (b div 16), hex_digit (b mod 16)]))"
    by (simp add: hex_digit_hex) (simp add: is_hex_def)
  show ?thesis
  proof (cases "b \<in> {34, 92, 8, 12, 10, 13, 9} \<or> b < 32 \<or> b \<in> {60, 62, 38}")
    case True
    with hex show ?thesis
      by (auto simp: ascii_pieces_def escape_letters_def jquote_def jslash_def escaped_bytes)
  next
    case False
    then have "char_of b \<noteq> jquote" "char_of b \<noteq> jslash"
      using b by (auto simp: jquote_def jslash_def char_of_eq_iff take_bit_eq_mod)
    with False b show ?thesis by (simp add: ascii_pieces_def)
  qed
qed

lemma rune_pieces_ok: "seg_of u p \<Longrightarrow> list_all piece_ok (rune_pieces p)"
proof (cases "fst p < 128")
  case True
  then show ?thesis by (simp add: rune_pieces_def case_prod_unfold ascii_pieces_ok)
next
  case False
  assume u: "seg_of u p"
  have fixed: "piece_ok (Hex ''fffd'')" "piece_ok (Hex ''2028'')" "piece_ok (Hex ''2029'')"
    by (simp_all add: is_hex_def is_digit_def)
  have high: "c \<noteq> jquote \<and> c \<noteq> jslash \<and> 32 \<le> byte c" if "128 \<le> byte c" for c
    using that by (auto simp: jquote_def jslash_def)
  have "\<forall>c \<in> set (snd p). c \<noteq> jquote \<and> c \<noteq> jslash \<and> 32 \<le> byte c"
    if "\<not> (fst p = rune_error \<and> length (snd p) = 1)"
  proof
    fix c assume "c \<in> set (snd p)"
    moreover have "\<forall>c \<in> set (snd p). 128 \<le> byte c"
      using high_bytes [of u "fst p" "snd p"] u False that by (simp add: clean_seg_def)
    ultimately show "c \<noteq> jquote \<and> c \<noteq> jslash \<and> 32 \<le> byte c" by (intro high) blast
  qed
  with False fixed show ?thesis
    by (auto simp: rune_pieces_def case_prod_unfold Let_def replacement_piece_def list_all_iff)
qed

lemma string_pieces_ok: "list_all piece_ok (string_pieces s)"
  using segs_seg_of [of _ s] rune_pieces_ok by (fastforce simp: string_pieces_def list_all_iff)

lemma cst_of_ok: "json_ok v \<Longrightarrow> cst_ok (cst_of v)"
  by (induction v) (auto simp: word_literals_def json_number_def string_pieces_ok)

lemma doc_of_cst_of: "doc_of (cst_of v) = clean_doc v"
  by (induction v) (auto simp: string_round_trip)

theorem marshal_reads_back:
  "json_ok v \<Longrightarrow> ends_word r \<Longrightarrow> skip_ws r = [] \<Longrightarrow> read_doc (marshal v @ r) = Some (clean_doc v)"
  by (simp add: read_doc_def marshal_def read_print cst_of_ok doc_of_cst_of)

text \<open>No control byte, so no line break, in what is printed.\<close>

lemma join_str_set: "set (join_str sep xs) \<subseteq> set sep \<union> \<Union> (set ` set xs)"
  by (induction sep xs rule: join_str.induct) auto

lemma piece_text_printable: "piece_ok p \<Longrightarrow> \<forall>c \<in> set (piece_text p). 32 \<le> byte c"
  by (cases p) (auto simp: escape_letters_def jquote_def jslash_def list_all_iff is_hex_def is_digit_def)

lemma quoted_printable: "list_all piece_ok ps \<Longrightarrow> \<forall>c \<in> set (quoted ps). 32 \<le> byte c"
  using piece_text_printable by (fastforce simp: quoted_def literal_text_def jquote_def list_all_iff)

lemma print_printable: "cst_ok v \<Longrightarrow> \<forall>c \<in> set (print_json v). 32 \<le> byte c"
proof (induction v)
  case (CLit w)
  then show ?case by (auto simp: word_literals_def)
next
  case (CNum n)
  then show ?case by (auto simp: list_all_iff number_char_def is_digit_def)
next
  case (CStr ps)
  then show ?case by (simp add: quoted_printable)
next
  case (CArr vs)
  have "\<forall>c \<in> set (join_str '','' (map print_json vs)). 32 \<le> byte c"
    using join_str_set [of "'',''" "map print_json vs"] CArr by fastforce
  then show ?case by auto
next
  case (CObj ms)
  have "\<forall>c \<in> set (quoted k @ '':'' @ print_json v). 32 \<le> byte c" if "(k, v) \<in> set ms" for k v
    using that CObj quoted_printable [of k] by fastforce
  then have "\<forall>c \<in> set (join_str '','' (map (\<lambda>(k, v). quoted k @ '':'' @ print_json v) ms)). 32 \<le> byte c"
    using join_str_set [of "'',''" "map (\<lambda>(k, v). quoted k @ '':'' @ print_json v) ms"] by fastforce
  then show ?case by auto
qed

section \<open>A raw message keeps its meaning\<close>

lemma ascii_escape: "byte a < 128 \<Longrightarrow> unquote acc (html_hex a # ps) = unquote acc (Byte a # ps)"
proof -
  assume a: "byte a < 128"
  have "segs (a # t) = (byte a, [a]) # segs t" for t
    using a by (simp add: segs.simps(2) decode_rune_ascii)
  with a escape_for_bytes [of a "[]" "''00'' @ [hex_digit (byte a div 16), hex_digit (byte a mod 16)]" acc ps]
  show ?thesis using hex_number_byte [of "byte a"] by (simp add: html_hex_def cont_def high_surrogate_def)
qed

lemma separator_escape:
  assumes "separator_bytes ps = Some h"
  shows "\<exists>l. h = Hex l \<and> piece_ok h \<and> \<not> high_surrogate (hex_number l) \<and> \<not> low_surrogate (hex_number l)"
    and "unquote acc (h # qs) = unquote acc (take 3 ps @ qs)"
proof -
  obtain l d where h: "h = Hex l" and l: "l = ''2028'' \<and> d = 168 \<or> l = ''2029'' \<and> d = (169 :: nat)"
    and ps: "take 3 ps = map Byte [char_of (226 :: nat), char_of (128 :: nat), char_of d]"
    using assms by (auto simp: separator_bytes_def split: if_splits)
  have n: "hex_number l = 8024 + d + 40" using l hex_fixed by auto
  have small: "d < 256" using l by auto
  with l n show "\<exists>l. h = Hex l \<and> piece_ok h \<and> \<not> high_surrogate (hex_number l) \<and> \<not> low_surrogate (hex_number l)"
    by (intro exI [of _ l]) (auto simp: h high_surrogate_def low_surrogate_def is_hex_def is_digit_def)
  let ?s = "map char_of [226, 128, d] :: string"
  have bytes: "map byte (take 4 (?s @ t)) = 226 # 128 # d # map byte (take 1 t)" for t
    using l by auto
  have "decode_rune (?s @ t) = (hex_number l, 3)" for t
    using l n decode_bytes_runes(3) [of 226 128 d "map byte (take 1 t)"]
    unfolding decode_rune_def bytes by (auto simp: cont_def)
  then have "segs (?s @ t) = (hex_number l, ?s) # segs t" for t
    by (simp add: segs.simps(2))
  then show "unquote acc (h # qs) = unquote acc (take 3 ps @ qs)"
    using n small escape_for_bytes [of "char_of (226 :: nat)" "map char_of [128, d]" l acc qs]
    by (simp add: h ps cont_def high_surrogate_def)
qed

lemma html_piece_escape: "unquote acc (html_piece p # ps) = unquote acc (p # ps)"
proof (cases p)
  case (Byte a)
  have "byte a < 128" if "a \<in> set ''<>&''" using that by auto
  with Byte ascii_escape [of a acc ps] show ?thesis
    by (cases "a \<in> set ''<>&''") (simp_all add: html_piece_def)
qed (simp_all add: html_piece_def)

lemma unquote_Hex_other:
  "(\<And>l rs. qs = Hex l # rs \<Longrightarrow> \<not> low_surrogate (hex_number l)) \<Longrightarrow>
     unquote acc (Hex h # qs) = valid_utf8 acc @ encode_rune (hex_number h) @ unquote [] qs"
  by (cases qs; cases "hd qs") auto

lemma html_head:
  "html_pieces ps = Hex l # qs \<Longrightarrow> (\<exists>rs. ps = Hex l # rs \<and> qs = html_pieces rs) \<or> \<not> low_surrogate (hex_number l)"
proof (cases ps)
  case (Cons p rs)
  assume *: "html_pieces ps = Hex l # qs"
  show ?thesis
  proof (cases "separator_bytes ps")
    case None
    with * Cons have l: "html_piece p = Hex l" "qs = html_pieces rs" by simp_all
    show ?thesis
    proof (cases p)
      case (Byte a)
      with l(1) have a: "byte a < 128" "l = ''00'' @ [hex_digit (byte a div 16), hex_digit (byte a mod 16)]"
        by (auto simp: html_piece_def html_hex_def split: if_splits)
      then show ?thesis using hex_number_byte [of "byte a"] by (simp add: low_surrogate_def)
    qed (use l Cons in \<open>simp_all add: html_piece_def\<close>)
  next
    case (Some h)
    with separator_escape(1) [OF Some] * Cons show ?thesis by auto
  qed
qed simp

lemma unquote_html:
  "(\<forall>acc. unquote acc (html_pieces ps) = unquote acc ps)
   \<and> (\<forall>acc h. unquote acc (Hex h # html_pieces ps) = unquote acc (Hex h # ps))"
proof (induction ps rule: html_pieces.induct)
  case (2 p ps)
  have one: "unquote acc (html_pieces (p # ps)) = unquote acc (p # ps)" for acc
  proof (cases "separator_bytes (p # ps)")
    case None
    have "unquote acc (p # html_pieces ps) = unquote acc (p # ps)"
      using "2.IH"(1) [OF None] by (cases p) auto
    with None html_piece_escape show ?thesis by simp
  next
    case (Some h)
    obtain bs where bs: "take 3 (p # ps) = map Byte bs"
      using Some by (metis separator_bytes_def option.distinct(1))
    have "unquote acc (h # html_pieces (drop 2 ps)) = unquote acc (take 3 (p # ps) @ html_pieces (drop 2 ps))"
      by (rule separator_escape(2) [OF Some])
    also have "\<dots> = unquote acc (take 3 (p # ps) @ drop 2 ps)"
      unfolding bs unquote_bytes using "2.IH"(2) [OF Some] by simp
    also have "take 3 (p # ps) @ drop 2 ps = p # ps"
      by (metis append_take_drop_id drop_Suc_Cons numeral_2_eq_2 numeral_3_eq_3)
    finally show ?thesis using Some by simp
  qed
  moreover have "unquote acc (Hex k # html_pieces (p # ps)) = unquote acc (Hex k # p # ps)" for acc k
  proof (cases "\<exists>l. p = Hex l")
    case True
    then obtain l where p: "p = Hex l" ..
    then have none: "separator_bytes (p # ps) = None" by (simp add: separator_bytes_def)
    from "2.IH"(1) [OF none] show ?thesis using none by (simp add: p html_piece_def)
  next
    case False
    have "unquote acc (Hex k # html_pieces (p # ps))
        = valid_utf8 acc @ encode_rune (hex_number k) @ unquote [] (html_pieces (p # ps))"
      using False html_head [of "p # ps"] by (intro unquote_Hex_other) blast
    also have "\<dots> = unquote acc (Hex k # p # ps)"
      using one [of "[]"] unquote_Hex_other [of "p # ps" acc k] False by auto
    finally show ?thesis .
  qed
  ultimately show ?case by blast
qed simp

lemma html_piece_ok: "piece_ok p \<Longrightarrow> piece_ok (html_piece p)"
proof (cases p)
  case (Byte a)
  moreover assume "piece_ok p"
  moreover have "is_hex (CHR ''0'')" by (simp add: is_hex_def)
  moreover have "byte a mod 256 = byte a" by (metis char_of_char of_char_of)
  then have "byte a < 256" by (metis mod_less_divisor zero_less_numeral)
  then have "byte a div 16 < 16" "byte a mod 16 < 16" by (simp_all add: less_mult_imp_div_less)
  ultimately show ?thesis by (simp add: html_piece_def html_hex_def hex_digit_hex)
qed (simp_all add: html_piece_def)

lemma html_pieces_ok: "list_all piece_ok ps \<Longrightarrow> list_all piece_ok (html_pieces ps)"
proof (induction ps rule: html_pieces.induct)
  case (2 p ps)
  show ?case
  proof (cases "separator_bytes (p # ps)")
    case None
    with 2 html_piece_ok show ?thesis by simp
  next
    case (Some h)
    have "list_all piece_ok (drop 2 ps)" using "2.prems" by (auto simp: list_all_iff dest: in_set_dropD)
    with Some "2.IH"(2) [OF Some] separator_escape(1) [OF Some] show ?thesis by auto
  qed
qed simp

lemma html_cst_ok: "cst_ok v \<Longrightarrow> cst_ok (html_cst v)"
  by (induction v) (fastforce simp: html_pieces_ok)+

lemma doc_of_html: "doc_of (html_cst v) = doc_of v"
  using unquote_html by (induction v) auto

lemma raw_message_reads_back:
  "raw_message raw = Some v \<Longrightarrow> cst_ok v \<and> doc_of v = (case unmarshal raw of None \<Rightarrow> JNull | Some c \<Rightarrow> doc_of c)"
proof (cases "raw = []")
  case True
  assume "raw_message raw = Some v"
  with True show ?thesis
    by (auto simp: raw_message_def unmarshal_def read_json_def word_literals_def)
next
  case False
  assume "raw_message raw = Some v"
  with False show ?thesis
    by (auto simp: raw_message_def unmarshal_def html_cst_ok doc_of_html read_json_ok split: option.splits if_splits)
qed

lemma unmarshal_print:
  "cst_ok v \<Longrightarrow> depth v \<le> max_nesting \<Longrightarrow> unmarshal (print_json v) = Some v"
  using read_print [of v "[]"] by (simp add: unmarshal_def ends_word_def)

section \<open>Values of type any are documents\<close>

lemma all_some_Some: "all_some xs = Some vs \<longleftrightarrow> xs = map Some vs"
proof (induction xs arbitrary: vs)
  case (Cons x xs)
  have tail: "(case y of None \<Rightarrow> None | Some ws \<Rightarrow> Some (v # ws)) = Some us \<longleftrightarrow> (\<exists>ws. y = Some ws \<and> us = v # ws)"
    for y and v :: 'a and us by (cases y) auto
  show ?case by (cases x) (auto simp: tail Cons.IH)
qed auto

lemma any_json_ok: "any_json v = Some j \<Longrightarrow> json_ok j"
proof (induction v arbitrary: j)
  case (VFloat x)
  then show ?case by (auto simp: float_text_number split: gofloat.splits)
next
  case (VInt n)
  then show ?case by (auto simp: jint_def itoa_number)
next
  case (VList vs)
  from VList.prems obtain js where js: "map any_json vs = map Some js" "j = JArr js"
    by (auto simp: all_some_Some)
  have "json_ok u" if "u \<in> set js" for u
  proof -
    from that have "Some u \<in> set (map any_json vs)" by (simp add: js(1))
    then show ?thesis using VList.IH by auto
  qed
  then show ?case by (simp add: js(2))
next
  case (VMap ms)
  from VMap.prems obtain xs where
    xs: "map (\<lambda>(k, v). map_option (Pair k) (any_json v)) ms = map Some xs" "j = JObj (sort_key fst xs)"
    by (auto simp: all_some_Some)
  have "json_ok (snd x)" if "x \<in> set xs" for x
  proof -
    from that have "Some x \<in> set (map (\<lambda>(k, v). map_option (Pair k) (any_json v)) ms)" by (simp add: xs(1))
    then obtain m where m: "m \<in> set ms" "Some x = map_option (Pair (fst m)) (any_json (snd m))" by auto
    then have "any_json (snd m) = Some (snd x)" by (cases "any_json (snd m)") simp_all
    then show ?thesis using m(1) VMap.IH [of m "snd m" "snd x"] snds.intros [of m] by simp
  qed
  then show ?case by (simp add: xs(2))
qed auto

text \<open>What was decoded into an any can be encoded again.\<close>

lemma all_some_None: "all_some xs = None \<longleftrightarrow> None \<in> set xs"
  by (induction xs) (auto split: option.splits)

lemma map_put_values: "snd ` set (map_put k v m) \<subseteq> insert v (snd ` set m)"
  unfolding map_put_def by (induction m) auto

lemma map_puts_values: "snd ` set (foldl (\<lambda>m (k, v). map_put k v m) m xs) \<subseteq> snd ` set m \<union> snd ` set xs"
proof (induction xs arbitrary: m)
  case (Cons x xs)
  obtain k v where x: "x = (k, v)" by (cases x)
  have "snd ` set (foldl (\<lambda>m (k, v). map_put k v m) (map_put k v m) xs) \<subseteq> snd ` set (map_put k v m) \<union> snd ` set xs"
    by (rule Cons.IH)
  then show ?case using map_put_values [of k v m] by (auto simp: x)
qed simp

lemma any_of_encodable: "any_of c = Some v \<Longrightarrow> any_json v \<noteq> None"
proof (induction c arbitrary: v)
  case (CArr cs)
  then obtain vs where vs: "map any_of cs = map Some vs" "v = VList vs" by (auto simp: all_some_Some)
  have "any_json u \<noteq> None" if "u \<in> set vs" for u
  proof -
    from that have "Some u \<in> set (map any_of cs)" by (simp add: vs(1))
    then show ?thesis using CArr.IH by auto
  qed
  then have "None \<notin> any_json ` set vs" by (metis imageE)
  then show ?case by (simp add: vs(2) all_some_None)
next
  case (CObj ms)
  then obtain xs where xs: "map (\<lambda>(k, v). map_option (Pair (unquoted k)) (any_of v)) ms = map Some xs"
    and v: "v = VMap (foldl (\<lambda>m (k, v). map_put k v m) [] xs)"
    by (auto simp: all_some_Some)
  have "any_json (snd x) \<noteq> None" if "x \<in> set xs" for x
  proof -
    from that have "Some x \<in> set (map (\<lambda>(k, v). map_option (Pair (unquoted k)) (any_of v)) ms)" by (simp add: xs)
    then obtain m where m: "m \<in> set ms" "Some x = map_option (Pair (unquoted (fst m))) (any_of (snd m))" by auto
    then have "any_of (snd m) = Some (snd x)" by (cases "any_of (snd m)") simp_all
    then show ?thesis using m(1) CObj.IH [of m "snd m" "snd x"] snds.intros [of m] by simp
  qed
  then have "any_json (snd x) \<noteq> None" if "x \<in> set (foldl (\<lambda>m (k, v). map_put k v m) [] xs)" for x
    using map_puts_values [of "[]" xs] that by fastforce
  then have "None \<notin> (\<lambda>(k, v). map_option (Pair k) (any_json v)) ` set (foldl (\<lambda>m (k, v). map_put k v m) [] xs)"
    by force
  then show ?case by (simp add: v all_some_None)
qed auto

fun plain_any :: "gvalue \<Rightarrow> bool" where
  "plain_any (VFloat x) \<longleftrightarrow> False"
| "plain_any VOther \<longleftrightarrow> False"
| "plain_any (VList vs) \<longleftrightarrow> (\<forall>v \<in> set vs. plain_any v)"
| "plain_any (VMap ms) \<longleftrightarrow> (\<forall>m \<in> set ms. plain_any (snd m))"
| "plain_any _ \<longleftrightarrow> True"

lemma plain_any_encodable: "plain_any v \<Longrightarrow> any_json v \<noteq> None"
proof (induction v)
  case (VList vs)
  then have "None \<notin> any_json ` set vs" by (metis imageE plain_any.simps(3))
  then show ?case by (simp add: all_some_None)
next
  case (VMap ms)
  have "any_json (snd m) \<noteq> None" if "m \<in> set ms" for m
    using VMap.IH [of m "snd m"] VMap.prems that snds.intros [of m] by simp
  then have "None \<notin> (\<lambda>(k, v). map_option (Pair k) (any_json v)) ` set ms" by force
  then show ?case by (simp add: all_some_None)
qed auto

section \<open>Raw messages of a document\<close>

definition raw_ok :: "string \<Rightarrow> bool" where
  "raw_ok r \<longleftrightarrow> r = [] \<or> (\<exists>c. cst_ok c \<and> depth c \<le> max_nesting \<and> r = print_json c)"

definition raw_doc :: "string \<Rightarrow> json" where
  "raw_doc r = (case read_doc r of None \<Rightarrow> JNull | Some d \<Rightarrow> d)"

lemma raw_ok_message:
  assumes "raw_ok r"
  shows "\<exists>c. raw_message r = Some c \<and> cst_ok c \<and> doc_of c = raw_doc r"
proof (cases "r = []")
  case True
  then show ?thesis
    by (simp add: raw_message_def word_literals_def raw_doc_def read_doc_def read_json_def)
next
  case False
  with assms obtain c where c: "cst_ok c" "depth c \<le> max_nesting" "r = print_json c" by (auto simp: raw_ok_def)
  have "read_json r = Some c" using read_print [OF c(1), of "[]"] by (simp add: c(3) ends_word_def)
  with False c show ?thesis
    by (simp add: raw_message_def unmarshal_print html_cst_ok doc_of_html raw_doc_def read_doc_def)
qed

lemma foldr_max_le: "x \<in> set xs \<Longrightarrow> x \<le> foldr max xs (0 :: nat)"
  by (induction xs) auto

lemma field_raw_ok:
  assumes "unmarshal s = Some v" and "struct_members v = Some ms"
  shows "raw_ok (raw_field (field_values name ms))"
proof (cases "field_values name ms = []")
  case False
  have v: "cst_ok v" "depth v \<le> max_nesting"
    using assms(1) by (auto simp: unmarshal_def read_json_ok split: option.splits if_splits)
  let ?c = "last (field_values name ms)"
  have "?c \<in> set (field_values name ms)" by (rule last_in_set [OF False])
  then obtain m where m: "m \<in> set ms" "?c = snd m" by (auto simp: field_values_def)
  then have obj: "v = CObj ms" using assms(2) by (auto simp: struct_members_def split: cst.splits if_splits)
  have "depth (snd m) \<le> foldr max (map (\<lambda>m. depth (snd m)) ms) 0"
    using m(1) by (intro foldr_max_le) auto
  then have "depth ?c \<le> max_nesting" using v(2) by (simp add: obj m(2))
  moreover have "cst_ok ?c" using v(1) m by (auto simp: obj)
  ultimately show ?thesis using False by (auto simp: raw_ok_def raw_field_def)
qed (simp add: raw_ok_def raw_field_def)

end
