(* ===== verification/HttpServer.thy ===== *)
theory HttpServer
  imports System JsonValues
begin

text \<open>
  How the world observes the loop: \<^verbatim>\<open>Snapshot\<close> and \<^verbatim>\<open>RequestRefresh\<close> (orchestrator/observe.go)
  with their selects, and package \<^verbatim>\<open>httpserver\<close> (server.go, detail.go, the handler of the
  dashboard): routes, status codes and the bodies of the JSON interface. The page itself is in
  theory Dashboard, the text of the JSON in ApiText, the mux and the serving goroutines in HttpMux.
\<close>

section \<open>observe.go\<close>

definition ErrSnapshotTimeout :: go_error where "ErrSnapshotTimeout = PlainErr ''snapshot timeout''"
definition ErrSnapshotUnavailable :: go_error where
  "ErrSnapshotUnavailable = PlainErr ''snapshot unavailable''"

text \<open>
  What a select may choose: every ready case, and the default case if none is. \<open>offer\<close> is the
  send of a request when the channel has room, or the context is done; \<open>await\<close> is the wait
  for the reply.
\<close>

definition offer :: "bool \<Rightarrow> bool \<Rightarrow> bool set" where
  "offer room ctx_done =
     (let ready = (if room then {True} else {}) \<union> (if ctx_done then {False} else {})
      in if ready = {} then {False} else ready)"

definition await :: "snapshot option \<Rightarrow> bool \<Rightarrow> bool \<Rightarrow> snapshot result set" where
  "await reply timed_out ctx_done =
     (case reply of Some sn \<Rightarrow> {Inr sn} | None \<Rightarrow> {})
     \<union> (if timed_out then {Inl ErrSnapshotTimeout} else {})
     \<union> (if ctx_done then {Inl ErrSnapshotUnavailable} else {})"

text \<open>
  The possible outcomes of a call: whether the request was sent, and the result. \<open>done1\<close> and
  \<open>done2\<close> say whether the root context is done at the first and at the second select.
\<close>

definition Snapshot ::
  "bool \<Rightarrow> bool \<Rightarrow> snapshot option \<Rightarrow> bool \<Rightarrow> bool \<Rightarrow> (bool \<times> snapshot result) set" where
  "Snapshot room done1 reply timed_out done2 =
     (\<Union>sent \<in> offer room done1.
        if sent then Pair True ` await reply timed_out done2 else {(False, Inl ErrSnapshotUnavailable)})"

definition RequestRefresh :: "bool \<Rightarrow> bool \<Rightarrow> bool set" where
  "RequestRefresh room ctx_done = offer room ctx_done"

section \<open>The server\<close>

datatype body =
    JsonBody json
  | SnapshotBody snapshot
  | ErrorBody string string
  | RefreshBody bool int
  | DashboardBody snapshot
  | UnavailablePage string

record response =
  hr_Status :: nat
  hr_Body :: body

text \<open>The orchestrator (and the clock) as the server sees it, and the calls a handler makes to it.\<close>

record provider =
  pv_Snapshot :: "snapshot result"
  pv_Refresh :: bool
  pv_Now :: int

datatype call = CallSnapshot | CallRefresh

definition writeError :: "nat \<Rightarrow> string \<Rightarrow> string \<Rightarrow> response" where
  "writeError status code msg = \<lparr>hr_Status = status, hr_Body = ErrorBody code msg\<rparr>"

definition opt_json :: "('a \<Rightarrow> json) \<Rightarrow> 'a option \<Rightarrow> json" where
  "opt_json f v = (case v of None \<Rightarrow> JNull | Some x \<Rightarrow> f x)"

text \<open>A \<^verbatim>\<open>map[string]any\<close> is encoded in the order of its keys.\<close>

definition jmap :: "(string \<times> json) list \<Rightarrow> json" where
  "jmap ms = JObj (sort_key fst ms)"

definition activityList :: "agent_activity list \<Rightarrow> json list" where
  "activityList activity = map (\<lambda>a. jmap
     [(''timestamp'', jtime (act_Timestamp a)), (''event'', JStr (act_Event a)),
      (''turn_id'', JStr (act_TurnID a)), (''message'', JStr (act_Message a)),
      (''detail'', JStr (act_Detail a)), (''input_tokens'', jint (act_InputTokens a)),
      (''output_tokens'', jint (act_OutputTokens a))]) activity"

definition running_detail :: "running_row \<Rightarrow> json" where
  "running_detail row = jmap
     [(''issue_identifier'', JStr (rr_IssueIdentifier row)), (''issue_id'', JStr (rr_IssueID row)),
      (''status'', JStr ''running''), (''workspace'', jmap [(''path'', JStr (rr_WorkspacePath row))]),
      (''attempts'', jmap [(''current_retry_attempt'', jint (rr_RetryAttempt row))]),
      (''running'', jmap
        [(''session_id'', JStr (rr_SessionID row)), (''turn_count'', jint (rr_TurnCount row)),
         (''state'', JStr (rr_State row)), (''started_at'', jtime (rr_StartedAt row)),
         (''last_event'', JStr (rr_LastEvent row)), (''last_message'', JStr (rr_LastMessage row)),
         (''activity'', JArr (activityList (rr_Activity row))),
         (''tokens'', jmap [(''input_tokens'', jint (rr_InputTokens row)),
            (''output_tokens'', jint (rr_OutputTokens row)), (''total_tokens'', jint (rr_TotalTokens row))]),
         (''last_event_at'', opt_json jtime (rr_LastEventAt row))]),
      (''retry'', JNull), (''last_error'', JNull), (''tracked'', jmap [])]"

text \<open>The time a retry is due is a time in the row; here it is in milliseconds.\<close>

definition retry_detail :: "retry_row \<Rightarrow> json" where
  "retry_detail row = jmap
     [(''issue_identifier'', JStr (ry_IssueIdentifier row)), (''issue_id'', JStr (ry_IssueID row)),
      (''status'', JStr ''retrying''), (''running'', JNull),
      (''retry'', jmap [(''attempt'', jint (ry_Attempt row)), (''due_at'', jtime (ry_DueAtMs row * 1000000)),
         (''error'', opt_json JStr (ry_Error row))]),
      (''last_error'', opt_json JStr (ry_Error row)), (''tracked'', jmap [])]"

definition buildIssueDetail :: "snapshot \<Rightarrow> string \<Rightarrow> json option" where
  "buildIssueDetail snap identifier =
     (case find (\<lambda>row. rr_IssueIdentifier row = identifier) (sn_Running snap) of
        Some row \<Rightarrow> Some (running_detail row)
      | None \<Rightarrow>
          (case find (\<lambda>row. ry_IssueIdentifier row = identifier) (sn_Retrying snap) of
             Some row \<Rightarrow> Some (retry_detail row)
           | None \<Rightarrow> None))"

definition handleState :: "provider \<Rightarrow> string \<Rightarrow> call list \<times> response" where
  "handleState pv meth =
     (if meth \<noteq> ''GET'' then ([], writeError 405 ''method_not_allowed'' ''use GET'')
      else ([CallSnapshot],
        case pv_Snapshot pv of
          Inl e \<Rightarrow> writeError 503 ''snapshot_unavailable'' (error_string e)
        | Inr snap \<Rightarrow> \<lparr>hr_Status = 200, hr_Body = SnapshotBody snap\<rparr>))"

text \<open>\<^verbatim>\<open>RefreshBody queued now\<close>: queued, its negation as coalesced, the time, and the constant operations.\<close>

definition handleRefresh :: "provider \<Rightarrow> string \<Rightarrow> call list \<times> response" where
  "handleRefresh pv meth =
     (if meth \<noteq> ''POST'' then ([], writeError 405 ''method_not_allowed'' ''use POST'')
      else ([CallRefresh], \<lparr>hr_Status = 202, hr_Body = RefreshBody (pv_Refresh pv) (pv_Now pv)\<rparr>))"

definition handleIssueDetail :: "provider \<Rightarrow> string \<Rightarrow> string \<Rightarrow> call list \<times> response" where
  "handleIssueDetail pv meth identifier =
     (if meth \<noteq> ''GET'' then ([], writeError 405 ''method_not_allowed'' ''use GET'')
      else if identifier = [] then ([], writeError 404 ''issue_not_found'' ''no issue identifier'')
      else ([CallSnapshot],
        case pv_Snapshot pv of
          Inl e \<Rightarrow> writeError 503 ''snapshot_unavailable'' (error_string e)
        | Inr snap \<Rightarrow>
            (case buildIssueDetail snap identifier of
               None \<Rightarrow> writeError 404 ''issue_not_found''
                 (''issue '' @ go_quote identifier @ '' is not tracked in current state'')
             | Some detail \<Rightarrow> \<lparr>hr_Status = 200, hr_Body = JsonBody detail\<rparr>)))"

definition api_prefix :: string where "api_prefix = ''/api/v1/''"

definition handleAPI :: "provider \<Rightarrow> string \<Rightarrow> string \<Rightarrow> call list \<times> response" where
  "handleAPI pv meth path =
     (let rest = trim_prefix path api_prefix
      in if rest = ''state'' then handleState pv meth
         else if rest = ''refresh'' then handleRefresh pv meth
         else handleIssueDetail pv meth rest)"

definition handleRoot :: "provider \<Rightarrow> string \<Rightarrow> string \<Rightarrow> call list \<times> response" where
  "handleRoot pv meth path =
     (if path \<noteq> ''/'' then ([], writeError 404 ''not_found'' ''no such resource'')
      else if meth \<noteq> ''GET'' then ([], writeError 405 ''method_not_allowed'' ''use GET'')
      else ([CallSnapshot],
        case pv_Snapshot pv of
          Inl e \<Rightarrow> \<lparr>hr_Status = 503, hr_Body = UnavailablePage (error_string e)\<rparr>
        | Inr snap \<Rightarrow> \<lparr>hr_Status = 200, hr_Body = DashboardBody snap\<rparr>))"

text \<open>
  The mux of \<^verbatim>\<open>Start\<close> on a canonical path (rooted, without empty or dot elements; HttpMux has the
  redirects of the others, and of the bare \<^verbatim>\<open>/api/v1\<close>).
\<close>

definition ServeHTTP :: "provider \<Rightarrow> string \<Rightarrow> string \<Rightarrow> call list \<times> response" where
  "ServeHTTP pv meth path =
     (if has_prefix path api_prefix then handleAPI pv meth path else handleRoot pv meth path)"

text \<open>
  The listening part of \<^verbatim>\<open>Start\<close>: only the loopback interface is bound; the result is the bound
  address (\<^verbatim>\<open>Addr\<close>).
\<close>

definition listen_address :: "int \<Rightarrow> string" where
  "listen_address port = ''127.0.0.1:'' @ itoa port"

definition server_Start :: "(string \<Rightarrow> string result) \<Rightarrow> int \<Rightarrow> string result" where
  "server_Start listen port =
     (case listen (listen_address port) of
        Inl e \<Rightarrow> Inl (PlainErr (''http listen: '' @ error_string e))
      | Inr addr \<Rightarrow> Inr addr)"

section \<open>Lemmas\<close>

lemma Snapshot_outcome:
  assumes "(sent, r) \<in> Snapshot room done1 reply timed_out done2"
  shows "case r of
      Inr sn \<Rightarrow> sent \<and> reply = Some sn
    | Inl e \<Rightarrow> e = ErrSnapshotTimeout \<and> sent \<and> timed_out \<or> e = ErrSnapshotUnavailable \<and> (sent \<longrightarrow> done2)"
  using assms by (auto simp: Snapshot_def await_def split: if_splits option.splits sum.splits)

lemma offer_room: "True \<in> offer room ctx_done \<longleftrightarrow> room" "False \<in> offer room ctx_done \<longleftrightarrow> \<not> room \<or> ctx_done"
  by (auto simp: offer_def Let_def)

text \<open>The rows of a snapshot are the entries of the two maps.\<close>

lemma buildSnapshot_rows:
  "set (sn_Running (buildSnapshot now s)) = running_row_of ` set (rs_Running s)"
  "set (sn_Retrying (buildSnapshot now s)) = retry_row_of ` set (rs_RetryAttempts s)"
  by (simp_all add: buildSnapshot_def Let_def)

lemma row_ids [simp]:
  "rr_IssueID (running_row_of p) = fst p" "rr_IssueIdentifier (running_row_of p) = re_Identifier (snd p)"
  "ry_IssueID (retry_row_of r) = fst r" "ry_IssueIdentifier (retry_row_of r) = rt_Identifier (snd r)"
  by (simp_all add: running_row_of_def retry_row_of_def Let_def)

lemma find_Some_in: "find P xs = Some x \<Longrightarrow> x \<in> set xs \<and> P x"
  by (induction xs) (auto split: if_splits)

lemma find_None_none: "find P xs = None \<longleftrightarrow> (\<forall>x \<in> set xs. \<not> P x)"
  by (induction xs) auto

text \<open>What the detail of an identifier says about the state the snapshot was taken of.\<close>

lemma buildIssueDetail_cases:
  "case buildIssueDetail (buildSnapshot now s) identifier of
     None \<Rightarrow> (\<forall>p \<in> set (rs_Running s). re_Identifier (snd p) \<noteq> identifier)
       \<and> (\<forall>p \<in> set (rs_RetryAttempts s). rt_Identifier (snd p) \<noteq> identifier)
   | Some d \<Rightarrow>
       (\<exists>p \<in> set (rs_Running s). re_Identifier (snd p) = identifier \<and> d = running_detail (running_row_of p))
       \<or> (\<forall>p \<in> set (rs_Running s). re_Identifier (snd p) \<noteq> identifier)
         \<and> (\<exists>p \<in> set (rs_RetryAttempts s). rt_Identifier (snd p) = identifier \<and> d = retry_detail (retry_row_of p))"
proof (cases "find (\<lambda>row. rr_IssueIdentifier row = identifier) (sn_Running (buildSnapshot now s))")
  case n1: None
  then have none: "\<forall>p \<in> set (rs_Running s). re_Identifier (snd p) \<noteq> identifier"
    by (simp add: find_None_none buildSnapshot_rows)
  show ?thesis
  proof (cases "find (\<lambda>row. ry_IssueIdentifier row = identifier) (sn_Retrying (buildSnapshot now s))")
    case n2: None
    then have "\<forall>p \<in> set (rs_RetryAttempts s). rt_Identifier (snd p) \<noteq> identifier"
      by (simp add: find_None_none buildSnapshot_rows)
    with none n1 n2 show ?thesis by (simp add: buildIssueDetail_def)
  next
    case (Some row)
    obtain p where p: "p \<in> set (rs_RetryAttempts s)" "row = retry_row_of p" "rt_Identifier (snd p) = identifier"
      using find_Some_in [OF Some] by (auto simp: buildSnapshot_rows)
    have "buildIssueDetail (buildSnapshot now s) identifier = Some (retry_detail (retry_row_of p))"
      using n1 Some p(2) by (simp add: buildIssueDetail_def)
    with none p(1,3) show ?thesis by (simp del: split_paired_Ex) blast
  qed
next
  case (Some row)
  obtain p where p: "p \<in> set (rs_Running s)" "row = running_row_of p" "re_Identifier (snd p) = identifier"
    using find_Some_in [OF Some] by (auto simp: buildSnapshot_rows)
  have "buildIssueDetail (buildSnapshot now s) identifier = Some (running_detail (running_row_of p))"
    using Some p(2) by (simp add: buildIssueDetail_def)
  with p(1,3) show ?thesis by (simp del: split_paired_Ex) blast
qed

lemma rows_distinct:
  assumes "state_inv s"
  shows "distinct (map rr_IssueID (sn_Running (buildSnapshot now s)) @ map ry_IssueID (sn_Retrying (buildSnapshot now s)))"
    and "set (map rr_IssueID (sn_Running (buildSnapshot now s)) @ map ry_IssueID (sn_Retrying (buildSnapshot now s)))
      = rs_Claimed s"
proof -
  note inv = state_invD [OF assms]
  have r: "mset (map rr_IssueID (sn_Running (buildSnapshot now s))) = mset (map fst (rs_Running s))"
    and t: "mset (map ry_IssueID (sn_Retrying (buildSnapshot now s))) = mset (map fst (rs_RetryAttempts s))"
    by (simp_all add: buildSnapshot_def Let_def comp_def image_mset.compositionality)
  then show "distinct (map rr_IssueID (sn_Running (buildSnapshot now s)) @ map ry_IssueID (sn_Retrying (buildSnapshot now s)))"
    using inv(1,2,4) mset_eq_imp_distinct_iff [OF r] mset_eq_imp_distinct_iff [OF t]
      mset_eq_setD [OF r] mset_eq_setD [OF t]
    by (simp add: map_wf_def map_keys_def)
  show "set (map rr_IssueID (sn_Running (buildSnapshot now s)) @ map ry_IssueID (sn_Retrying (buildSnapshot now s)))
      = rs_Claimed s"
    using inv(3) mset_eq_setD [OF r] mset_eq_setD [OF t] by (simp add: map_keys_def)
qed

section \<open>Routes\<close>

lemma ServeHTTP_api:
  "ServeHTTP pv meth (api_prefix @ rest) =
     (if rest = ''state'' then handleState pv meth else if rest = ''refresh'' then handleRefresh pv meth
      else handleIssueDetail pv meth rest)"
  by (simp add: ServeHTTP_def handleAPI_def)

definition resource :: "string \<Rightarrow> bool" where
  "resource path \<longleftrightarrow> path = ''/'' \<or> has_prefix path api_prefix"

definition allowed :: "string \<Rightarrow> string" where
  "allowed path = (if path = api_prefix @ ''refresh'' then ''POST'' else ''GET'')"

text \<open>The five handlers behind the mux, as one rule.\<close>

lemma ServeHTTP_cases:
  obtains (none) "\<not> resource path" "ServeHTTP pv meth path = ([], writeError 404 ''not_found'' ''no such resource'')"
  | (meth) msg where "resource path" "meth \<noteq> allowed path"
      "ServeHTTP pv meth path = ([], writeError 405 ''method_not_allowed'' msg)"
  | (refresh) "path = api_prefix @ ''refresh''" "meth = ''POST''"
      "ServeHTTP pv meth path = ([CallRefresh], \<lparr>hr_Status = 202, hr_Body = RefreshBody (pv_Refresh pv) (pv_Now pv)\<rparr>)"
  | (anonymous) "path = api_prefix" "meth = ''GET''"
      "ServeHTTP pv meth path = ([], writeError 404 ''issue_not_found'' ''no issue identifier'')"
  | (unavailable) e where "resource path" "meth = ''GET''" "path \<noteq> api_prefix @ ''refresh''" "path \<noteq> api_prefix"
      "pv_Snapshot pv = Inl e" "fst (ServeHTTP pv meth path) = [CallSnapshot]"
      "hr_Status (snd (ServeHTTP pv meth path)) = 503"
  | (state) sn where "path = api_prefix @ ''state''" "meth = ''GET''" "pv_Snapshot pv = Inr sn"
      "ServeHTTP pv meth path = ([CallSnapshot], \<lparr>hr_Status = 200, hr_Body = SnapshotBody sn\<rparr>)"
  | (dashboard) sn where "path = ''/''" "meth = ''GET''" "pv_Snapshot pv = Inr sn"
      "ServeHTTP pv meth path = ([CallSnapshot], \<lparr>hr_Status = 200, hr_Body = DashboardBody sn\<rparr>)"
  | (detail) sn ident where "path = api_prefix @ ident" "ident \<notin> {[], ''state'', ''refresh''}" "meth = ''GET''"
      "pv_Snapshot pv = Inr sn" "ServeHTTP pv meth path = ([CallSnapshot],
         case buildIssueDetail sn ident of
           None \<Rightarrow> writeError 404 ''issue_not_found'' (''issue '' @ go_quote ident @ '' is not tracked in current state'')
         | Some d \<Rightarrow> \<lparr>hr_Status = 200, hr_Body = JsonBody d\<rparr>)"
proof (cases "has_prefix path api_prefix")
  case False
  then have out: "path \<noteq> api_prefix @ r" for r by auto
  show thesis
  proof (cases "path = ''/''")
    case True
    with False out [of "[]"] out [of "''refresh''"] that(2) [of "''use GET''"] that(5,7) show thesis
      by (cases "meth = ''GET''"; cases "pv_Snapshot pv")
        (simp_all add: ServeHTTP_def handleRoot_def resource_def allowed_def writeError_def)
  next
    case root: False
    with False show thesis by (intro that(1)) (simp_all add: ServeHTTP_def handleRoot_def resource_def)
  qed
next
  case True
  then obtain rest where path: "path = api_prefix @ rest" by (auto simp: has_prefix_iff)
  have res: "resource path" by (simp add: path resource_def)
  consider "rest = ''state''" | "rest = ''refresh''" | "rest = []" | "rest \<notin> {[], ''state'', ''refresh''}" by blast
  then show thesis
  proof cases
    case 1
    with path res that(2) [of "''use GET''"] that(5) that(6) show thesis
      by (cases "meth = ''GET''"; cases "pv_Snapshot pv")
        (simp_all add: ServeHTTP_api handleState_def allowed_def writeError_def)
  next
    case 2
    with path res that(2) [of "''use POST''"] that(3) show thesis
      by (cases "meth = ''POST''") (simp_all add: ServeHTTP_api handleRefresh_def allowed_def)
  next
    case 3
    with path res that(2) [of "''use GET''"] that(4) show thesis
      using ServeHTTP_api [of pv meth "[]"]
      by (cases "meth = ''GET''") (simp_all add: handleIssueDetail_def allowed_def)
  next
    case 4
    then have serve: "ServeHTTP pv meth path = handleIssueDetail pv meth rest" by (simp add: path ServeHTTP_api)
    have other: "path \<noteq> api_prefix @ ''refresh''" "path \<noteq> api_prefix" using 4 by (simp_all add: path)
    show thesis
    proof (cases "meth = ''GET''")
      case False
      with res other(1) serve show thesis
        by (intro that(2) [of "''use GET''"]) (simp_all add: handleIssueDetail_def allowed_def)
    next
      case get: True
      show thesis
      proof (cases "pv_Snapshot pv")
        case (Inl e)
        with res get other serve 4 show thesis
          by (intro that(5) [of e]) (simp_all add: handleIssueDetail_def writeError_def)
      next
        case (Inr sn)
        with get serve 4 show thesis
          by (intro that(8) [OF path 4 get Inr]) (simp add: handleIssueDetail_def)
      qed
    qed
  qed
qed

section \<open>Properties\<close>

text \<open>
  C20: The interface of the service only observes, with one exception: exactly a POST to
  the refresh resource reaches the loop as a request to act, and it is answered with 202. Every
  request makes at most one call to the orchestrator; a wrong verb is refused with 405
  before any call, and 503 says exactly that a snapshot was asked for and not obtained.
\<close>

theorem http_contract:
  "(CallRefresh \<in> set (fst (ServeHTTP pv meth path)) \<longleftrightarrow> meth = ''POST'' \<and> path = api_prefix @ ''refresh'')
   \<and> (hr_Status (snd (ServeHTTP pv meth path)) = 202 \<longleftrightarrow> meth = ''POST'' \<and> path = api_prefix @ ''refresh'')
   \<and> (hr_Status (snd (ServeHTTP pv meth path)) = 405 \<longleftrightarrow> resource path \<and> meth \<noteq> allowed path)
   \<and> (hr_Status (snd (ServeHTTP pv meth path)) = 503 \<longleftrightarrow>
        CallSnapshot \<in> set (fst (ServeHTTP pv meth path)) \<and> (\<exists>e. pv_Snapshot pv = Inl e))
   \<and> length (fst (ServeHTTP pv meth path)) \<le> 1
   \<and> hr_Status (snd (ServeHTTP pv meth path)) \<in> {200, 202, 404, 405, 503}"
proof (cases rule: ServeHTTP_cases [where pv = pv and meth = meth and path = path])
  case (detail sn ident)
  then show ?thesis
    by (cases "buildIssueDetail sn ident") (simp_all add: writeError_def resource_def allowed_def)
next
  case state
  then show ?thesis by (simp add: resource_def allowed_def)
next
  case dashboard
  then show ?thesis by (simp add: resource_def allowed_def api_prefix_def)
next
  case anonymous
  then show ?thesis
    using prefix_simps(1) [of api_prefix "[]"]
    by (simp add: resource_def allowed_def writeError_def)
next
  case none
  then have "path \<noteq> api_prefix @ ''refresh''" by (auto simp: resource_def)
  with none show ?thesis by (simp add: writeError_def)
next
  case meth
  then show ?thesis by (auto simp: writeError_def allowed_def split: if_splits)
next
  case refresh
  then show ?thesis by (simp add: resource_def allowed_def)
next
  case unavailable
  then show ?thesis by (simp add: allowed_def)
qed

end
