(* ===== verification/Logging.thy ===== *)
theory Logging
  imports Domain Runes
begin

text \<open>
  Package \<^verbatim>\<open>logging\<close>: the logger over its sinks, with the recovery from a sink that panics, and
  the text handler of \<^verbatim>\<open>log/slog\<close> that \<^verbatim>\<open>New\<close> installs. (\<^verbatim>\<open>Truncate\<close> is in theory Domain.)
\<close>

section \<open>Records and sinks\<close>

datatype level = Debug | Info | Warn | Error

fun level_number :: "level \<Rightarrow> int" where
  "level_number Debug = -4"
| "level_number Info = 0"
| "level_number Warn = 4"
| "level_number Error = 8"

fun level_text :: "level \<Rightarrow> string" where
  "level_text Debug = ''DEBUG''"
| "level_text Info = ''INFO''"
| "level_text Warn = ''WARN''"
| "level_text Error = ''ERROR''"

text \<open>The arguments of a call: alternating keys and values, here as pairs; numbers as their text.\<close>

record log_record =
  lr_Level :: level
  lr_Msg :: string
  lr_Attrs :: "(string \<times> string) list"

text \<open>
  A sink is a handler with its minimal level; what it does with a record is to append to what it
  has written, or to panic.
\<close>

datatype 'a outcome = Returns 'a | Panics 'a

record sink =
  sk_Min :: int
  sk_Handle :: "log_record \<Rightarrow> string \<Rightarrow> string outcome"

type_synonym logger = "(sink \<times> string) list"

text \<open>\<^verbatim>\<open>s.Log\<close> of a sink with what it has written so far.\<close>

definition sink_log :: "log_record \<Rightarrow> sink \<times> string \<Rightarrow> (sink \<times> string) outcome" where
  "sink_log r p =
     (if level_number (lr_Level r) < sk_Min (fst p) then Returns p
      else case sk_Handle (fst p) r (snd p) of
             Returns w \<Rightarrow> Returns (fst p, w)
           | Panics w \<Rightarrow> Panics (fst p, w))"

text \<open>The function literal of the loop: its deferred call recovers.\<close>

fun recovered :: "'a outcome \<Rightarrow> 'a outcome" where
  "recovered (Returns x) = Returns x"
| "recovered (Panics x) = Returns x"

text \<open>\<^verbatim>\<open>log\<close>: the sinks one after the other; a panic that is not recovered would end the loop.\<close>

fun logger_log :: "log_record \<Rightarrow> logger \<Rightarrow> logger outcome" where
  "logger_log r [] = Returns []"
| "logger_log r (p # ps) =
     (case recovered (sink_log r p) of
        Panics q \<Rightarrow> Panics (q # ps)
      | Returns q \<Rightarrow>
          (case logger_log r ps of
             Returns qs \<Rightarrow> Returns (q # qs)
           | Panics qs \<Rightarrow> Panics (q # qs)))"

definition log_at :: "level \<Rightarrow> string \<Rightarrow> (string \<times> string) list \<Rightarrow> log_record" where
  "log_at lv msg args = \<lparr>lr_Level = lv, lr_Msg = msg, lr_Attrs = args\<rparr>"

definition log_Info :: "string \<Rightarrow> (string \<times> string) list \<Rightarrow> log_record" where "log_Info = log_at Info"
definition log_Warn :: "string \<Rightarrow> (string \<times> string) list \<Rightarrow> log_record" where "log_Warn = log_at Warn"
definition log_Error :: "string \<Rightarrow> (string \<times> string) list \<Rightarrow> log_record" where "log_Error = log_at Error"
definition log_Debug :: "string \<Rightarrow> (string \<times> string) list \<Rightarrow> log_record" where "log_Debug = log_at Debug"

section \<open>The text handler\<close>

text \<open>
  A word is written bare if it is not empty and no character of it needs quoting: a space, an
  equals sign, what JSON escapes except the backslash, and beyond ASCII what is not printable
  (\<open>printable\<close> is \<^verbatim>\<open>unicode.IsPrint\<close>); everything else is quoted.
\<close>

definition needs_quoting :: "(nat \<Rightarrow> bool) \<Rightarrow> string \<Rightarrow> bool" where
  "needs_quoting printable s \<longleftrightarrow> s = []
     \<or> list_ex (\<lambda>(r, bs).
         if r < 128 then r < 32 \<or> r \<in> {32, 34, 61}
         else r = rune_error \<or> space_rune r \<or> \<not> printable r) (segs s)"

definition log_word :: "(nat \<Rightarrow> bool) \<Rightarrow> string \<Rightarrow> string" where
  "log_word printable s = (if needs_quoting printable s then go_quote s else s)"

text \<open>One line for a record; \<open>stamp\<close> is the text of its time.\<close>

definition log_line :: "(nat \<Rightarrow> bool) \<Rightarrow> string \<Rightarrow> log_record \<Rightarrow> string" where
  "log_line printable stamp r =
     ''time='' @ stamp @ '' level='' @ level_text (lr_Level r) @ '' msg='' @ log_word printable (lr_Msg r)
     @ concat (map (\<lambda>(k, v). '' '' @ log_word printable k @ ''='' @ log_word printable v) (lr_Attrs r))
     @ [CHR 0x0A]"

definition text_sink :: "(nat \<Rightarrow> bool) \<Rightarrow> (log_record \<Rightarrow> string) \<Rightarrow> sink" where
  "text_sink printable stamp =
     \<lparr>sk_Min = 0, sk_Handle = (\<lambda>r written. Returns (written @ log_line printable (stamp r) r))\<rparr>"

text \<open>\<^verbatim>\<open>New\<close>, and \<^verbatim>\<open>NewWithSinks\<close>.\<close>

definition logger_New :: "(nat \<Rightarrow> bool) \<Rightarrow> (log_record \<Rightarrow> string) \<Rightarrow> logger" where
  "logger_New printable stamp = [(text_sink printable stamp, [])]"

definition logger_NewWithSinks :: "sink list \<Rightarrow> logger" where
  "logger_NewWithSinks sinks = map (\<lambda>s. (s, [])) sinks"

section \<open>No sink takes the others down\<close>

lemma recovered_Returns: "recovered x = Returns q \<longleftrightarrow> x = Returns q \<or> x = Panics q" "recovered x \<noteq> Panics q"
  by (cases x; auto)+

fun outcome_value :: "'a outcome \<Rightarrow> 'a" where
  "outcome_value (Returns x) = x"
| "outcome_value (Panics x) = x"

lemma logger_log_all: "logger_log r ps = Returns (map (\<lambda>p. outcome_value (sink_log r p)) ps)"
proof (induction ps)
  case (Cons p ps)
  then show ?case by (cases "sink_log r p") simp_all
qed simp

text \<open>Whatever the sinks do, a call returns, and every sink sees the record as if it were alone.\<close>

lemma sinks_isolated:
  "logger_log r (ps @ p # qs) = Returns (outcome_value (logger_log r ps)
     @ outcome_value (logger_log r [p]) @ outcome_value (logger_log r qs))"
  by (simp add: logger_log_all)

section \<open>One record, one line\<close>

lemma quote_ascii_line: "b < 128 \<Longrightarrow> CHR 0x0A \<notin> set (quote_ascii b)"
proof -
  assume b: "b < 128"
  have "hex_digit d \<noteq> CHR 0x0A" if "d < 16" for d
    using that by (auto simp: hex_digit_def char_of_eq_iff take_bit_eq_mod split: if_splits)
  moreover have "b div 16 < 16" "b mod 16 < 16" using b by simp_all
  ultimately have hex: "hex_digit (b div 16) \<noteq> CHR 0x0A" "hex_digit (b mod 16) \<noteq> CHR 0x0A" by blast+
  have "char_of b \<noteq> CHR 0x0A" if "b \<noteq> 10" using that b by (simp add: char_of_eq_iff take_bit_eq_mod)
  with hex show ?thesis by (auto simp: quote_ascii_def Let_def)
qed

lemma seg_bytes_line:
  assumes "(r, bs) \<in> set (segs s)" and "CHR 0x0A \<in> set bs"
  shows "r = 10"
proof (cases "r < 128")
  case True
  with segs_small [OF assms(1)] assms(2) show ?thesis by auto
next
  case False
  obtain u where u: "seg_of u (r, bs)" using segs_seg_of [OF assms(1)] by blast
  show ?thesis
  proof (cases "clean_seg (r, bs)")
    case True
    from high_bytes [OF u True] False assms(2) show ?thesis by fastforce
  next
    case dirty: False
    from u have d: "u \<noteq> []" "r = fst (decode_rune u)" "bs = take (snd (decode_rune u)) u"
      by (simp_all add: seg_of_def)
    with dirty have "length bs = 1" by (simp add: clean_seg_def)
    have "bs = [hd u]" if k: "bs = take k u" and one: "length bs = 1" for k
    proof -
      obtain x where "bs = [x]" using one by (cases bs) auto
      with k show ?thesis by (cases u; cases k) auto
    qed
    from this [OF d(3)] \<open>length bs = 1\<close> assms(2) have "hd u = CHR 0x0A" by simp
    with d(1) have "u = CHR 0x0A # tl u" by (cases u) auto
    then have "decode_rune u = (10, 1)" using decode_rune_ascii [of "CHR 0x0A" "tl u"] by simp
    with d(2) show ?thesis by simp
  qed
qed

lemma word_bytes: "set s = \<Union> (set ` snd ` set (segs s))"
  using concat_segs [of s] by (metis list.set_map set_concat)

lemma go_quote_line: "CHR 0x0A \<notin> set (go_quote s)"
proof
  assume "CHR 0x0A \<in> set (go_quote s)"
  then obtain r bs where rb: "(r, bs) \<in> set (segs s)" and n: "CHR 0x0A \<in> set
      (if r < 128 then quote_ascii r else if r = rune_error \<and> length bs = 1
       then [CHR 0x5C, CHR ''x'', hex_digit (byte (hd bs) div 16), hex_digit (byte (hd bs) mod 16)] else bs)"
    by (auto simp: go_quote_def)
  have hex: "hex_digit d \<noteq> CHR 0x0A" if "d < 16" for d
    using that by (auto simp: hex_digit_def char_of_eq_iff take_bit_eq_mod split: if_splits)
  have "byte c mod 256 = byte c" for c by (metis char_of_char of_char_of)
  then have "byte c < 256" for c by (metis mod_less_divisor zero_less_numeral)
  then have "byte (hd bs) div 16 < 16" "byte (hd bs) mod 16 < 16" by (simp_all add: less_mult_imp_div_less)
  then have "hex_digit (byte (hd bs) div 16) \<noteq> CHR 0x0A" "hex_digit (byte (hd bs) mod 16) \<noteq> CHR 0x0A"
    by (simp_all add: hex)
  with n quote_ascii_line [of r] seg_bytes_line [OF rb] show False
    by (cases "r < 128"; cases "r = rune_error \<and> length bs = 1") auto
qed

lemma log_word_line: "CHR 0x0A \<notin> set (log_word pr s)"
proof (cases "needs_quoting pr s")
  case False
  have "CHR 0x0A \<notin> set bs" if "(r, bs) \<in> set (segs s)" for r bs
    using that False seg_bytes_line [OF that] by (auto simp: needs_quoting_def list_ex_iff)
  then have "CHR 0x0A \<notin> set s" unfolding word_bytes [of s] by auto
  with False show ?thesis by (simp add: log_word_def)
qed (simp add: log_word_def go_quote_line)

text \<open>
  Whatever the message and the values are, a record is one line: no text that comes from the
  tracker, the agent or an error can forge another record.
\<close>

theorem record_is_one_line:
  "CHR 0x0A \<notin> set stamp \<Longrightarrow> filter (\<lambda>c. c = CHR 0x0A) (log_line pr stamp r) = [CHR 0x0A]"
proof -
  assume stamp: "CHR 0x0A \<notin> set stamp"
  have none: "filter (\<lambda>c. c = CHR 0x0A) s = []" if "CHR 0x0A \<notin> set s" for s
    using that by (auto simp: filter_empty_conv)
  have level: "CHR 0x0A \<notin> set (level_text lv)" for lv by (cases lv) simp_all
  have "CHR 0x0A \<notin> set (concat (map (\<lambda>(k, v). '' '' @ log_word pr k @ ''='' @ log_word pr v) (lr_Attrs r)))"
    using log_word_line by auto
  with stamp level log_word_line [of pr "lr_Msg r"] show ?thesis
    by (simp add: log_line_def none)
qed

end
