(* ===== verification/HttpMux.thy ===== *)
theory HttpMux
  imports HttpServer Logging
begin

text \<open>
  What surrounds the handlers in \<^verbatim>\<open>Start\<close> (httpserver/server.go): the mux with its two patterns,
  which redirects a path that is not canonical, and the serving and shutting-down goroutines as a
  step relation.
\<close>

section \<open>The mux\<close>

text \<open>
  \<^verbatim>\<open>net/http.ServeMux\<close> with the patterns of \<^verbatim>\<open>Start\<close>, for methods other than CONNECT and URL paths
  without escapes. \<open>Moved\<close> is the redirect with status 301 (the query is kept).
\<close>

definition clean_url :: "string \<Rightarrow> string" where
  "clean_url p =
     (if p = [] then ''/''
      else let q = (if hd p = path_sep then p else path_sep # p); np = path_clean q
           in if last q = path_sep \<and> np \<noteq> ''/'' then np @ ''/'' else np)"

datatype served = Moved string | Handled "call list \<times> response"

definition mux :: "provider \<Rightarrow> string \<Rightarrow> string \<Rightarrow> served" where
  "mux pv meth path =
     (let p = clean_url path
      in if p @ ''/'' = api_prefix then Moved (p @ ''/'')
         else if p \<noteq> path then Moved p
         else Handled (ServeHTTP pv meth p))"

section \<open>Canonical paths\<close>

lemma join_plain_last:
  "list_all plain_elem es \<Longrightarrow> es \<noteq> [] \<Longrightarrow> join_str ''/'' es \<noteq> [] \<and> last (join_str ''/'' es) \<noteq> path_sep"
proof (induction "''/''" es rule: join_str.induct)
  case (2 x)
  then show ?case by (auto simp: plain_elem_def dest: last_in_set)
next
  case (3 x y zs)
  then show ?case by simp
qed simp

lemma clean_no_slash: "is_abs p \<Longrightarrow> path_clean p \<noteq> ''/'' \<Longrightarrow> last (path_clean p) \<noteq> path_sep"
  using join_plain_last [OF abs_elems_plain [of p]] by (cases "abs_elems p = []") (auto simp: path_clean_abs)

lemma clean_trailing: "is_abs p \<Longrightarrow> path_clean (path_clean p @ ''/'') = path_clean p"
proof -
  assume p: "is_abs p"
  then have c: "is_abs (path_clean p)" by (rule is_abs_clean)
  then have "is_abs (path_clean p @ ''/'')" by (cases "path_clean p") (simp_all add: is_abs_def)
  moreover have "abs_elems (path_clean p @ ''/'') = abs_elems (path_clean p)"
    using abs_elems_append_elem [of "[]" "path_clean p"] by (simp add: clean_elem_def)
  ultimately have "path_clean (path_clean p @ ''/'') = path_clean (path_clean p)"
    using c by (simp add: path_clean_eq_iff)
  then show ?thesis by (simp add: path_clean_idem [OF p])
qed

lemma is_abs_hd: "is_abs p \<longleftrightarrow> p \<noteq> [] \<and> hd p = path_sep"
  by (cases p) (simp_all add: is_abs_def path_sep_def)

lemma clean_url_abs: "is_abs p \<Longrightarrow> clean_url p =
    (if last p = path_sep \<and> path_clean p \<noteq> ''/'' then path_clean p @ ''/'' else path_clean p)"
  by (simp add: clean_url_def is_abs_hd Let_def)

lemma clean_url_idem: "clean_url (clean_url p) = clean_url p"
proof -
  have abs: "clean_url (clean_url q) = clean_url q" if q: "is_abs q" for q
  proof -
    have c: "is_abs (path_clean q)" by (rule is_abs_clean [OF q])
    then have d: "is_abs (path_clean q @ ''/'')" by (cases "path_clean q") (simp_all add: is_abs_def)
    show ?thesis
    proof (cases "last q = path_sep \<and> path_clean q \<noteq> ''/''")
      case True
      then have "clean_url q = path_clean q @ ''/''" using q by (simp add: clean_url_abs)
      moreover have "clean_url (path_clean q @ ''/'') = path_clean q @ ''/''"
        using True clean_url_abs [OF d] by (simp add: clean_trailing [OF q] path_sep_def)
      ultimately show ?thesis by simp
    next
      case False
      then have "clean_url q = path_clean q" using q by (auto simp: clean_url_abs)
      moreover have "clean_url (path_clean q) = path_clean q"
        using clean_url_abs [OF c] clean_no_slash [OF q] by (auto simp: path_clean_idem [OF q])
      ultimately show ?thesis by simp
    qed
  qed
  have root: "clean_url ''/'' = ''/''"
    using path_clean_abs [of "''/''"] abs_elems_rooted [of "[]"] by (simp add: clean_url_abs is_abs_def)
  show ?thesis
  proof (cases "p = []")
    case True
    with root show ?thesis by (simp add: clean_url_def)
  next
    case False
    define q where "q = (if hd p = path_sep then p else path_sep # p)"
    have "is_abs q" using False by (simp add: q_def is_abs_hd)
    moreover have "clean_url p = clean_url q"
      using False by (simp add: clean_url_def q_def Let_def)
    ultimately show ?thesis using abs by simp
  qed
qed

text \<open>
  A redirect leads to a resource in one step: its target is canonical, so the request a client then
  makes is answered by a handler; and a request that is redirected never reaches the service.
\<close>

lemma api_prefix_canonical: "clean_url api_prefix = api_prefix"
proof -
  have "abs_elems api_prefix = [''api'', ''v1'']"
    by (simp add: abs_elems_def clean_elems_def clean_elem_def api_prefix_def path_sep_def)
  then show ?thesis
    using clean_url_abs [of api_prefix] path_clean_abs [of api_prefix]
    by (simp add: is_abs_def api_prefix_def path_sep_def)
qed

theorem mux_redirects_once:
  assumes "mux pv meth path = Moved q"
  shows "mux pv meth' q = Handled (ServeHTTP pv meth' q)"
proof (cases "clean_url path @ ''/'' = api_prefix")
  case True
  then have "q = api_prefix" using assms by (simp add: mux_def)
  moreover have "api_prefix @ ''/'' \<noteq> api_prefix" by simp
  ultimately show ?thesis by (simp add: mux_def api_prefix_canonical Let_def)
next
  case False
  then have "q = clean_url path" using assms by (simp add: mux_def Let_def split: if_splits)
  then show ?thesis using False by (simp add: mux_def clean_url_idem Let_def)
qed

lemma mux_handled: "mux pv meth path = Handled r \<longleftrightarrow> clean_url path = path \<and> path @ ''/'' \<noteq> api_prefix \<and> r = ServeHTTP pv meth path"
  by (auto simp: mux_def Let_def)

section \<open>Serving and shutting down\<close>

text \<open>
  The two goroutines of \<^verbatim>\<open>Start\<close>: \<^verbatim>\<open>Serve\<close> runs until it fails or the server is shut down (then its
  error is \<^verbatim>\<open>ErrServerClosed\<close>, which is not logged); the other waits for the end of the context, calls
  \<^verbatim>\<open>Shutdown\<close> and gives the open requests two seconds.
\<close>

datatype serving = Accepting | Draining | Stopped

record http_state =
  hs_Phase :: serving
  hs_Done :: bool
  hs_Open :: nat
  hs_Log :: "log_record list"

inductive serve_step :: "http_state \<Rightarrow> http_state \<Rightarrow> bool" where
  accept: "hs_Phase s = Accepting \<Longrightarrow> serve_step s (s\<lparr>hs_Open := Suc (hs_Open s)\<rparr>)"
| answer: "0 < hs_Open s \<Longrightarrow> serve_step s (s\<lparr>hs_Open := hs_Open s - 1\<rparr>)"
| fail: "hs_Phase s = Accepting \<Longrightarrow> serve_step s (s\<lparr>hs_Phase := Stopped,
    hs_Log := hs_Log s @ [log_Warn ''http server stopped'' [(''error'', error_string e)]]\<rparr>)"
| cancel: "serve_step s (s\<lparr>hs_Done := True\<rparr>)"
| shutdown: "hs_Done s \<Longrightarrow> hs_Phase s = Accepting \<Longrightarrow> serve_step s (s\<lparr>hs_Phase := Draining\<rparr>)"
| drained: "hs_Phase s = Draining \<Longrightarrow> hs_Open s = 0 \<Longrightarrow> serve_step s (s\<lparr>hs_Phase := Stopped\<rparr>)"
| overdue: "hs_Phase s = Draining \<Longrightarrow> serve_step s (s\<lparr>hs_Phase := Stopped\<rparr>)"

definition serve_start :: "string \<Rightarrow> http_state" where
  "serve_start addr = \<lparr>hs_Phase = Accepting, hs_Done = False, hs_Open = 0,
     hs_Log = [log_Info ''http server started'' [(''addr'', addr)]]\<rparr>"

inductive_cases serve_stepE: "serve_step s t"

inductive serves :: "http_state \<Rightarrow> http_state \<Rightarrow> bool" where
  now: "serves s s"
| later: "serves s t \<Longrightarrow> serve_step t u \<Longrightarrow> serves s u"

text \<open>What a server logs after its start is at most one warning, and none if the context ended it.\<close>

lemma serve_log:
  "serves (serve_start addr) s \<Longrightarrow> \<exists>w. hs_Log s = hs_Log (serve_start addr) @ w
     \<and> (w = [] \<or> hs_Phase s = Stopped \<and> (\<exists>e. w = [log_Warn ''http server stopped'' [(''error'', error_string e)]]))
     \<and> (hs_Phase s = Draining \<longrightarrow> hs_Done s)"
proof (induction "serve_start addr" s rule: serves.induct)
  case now
  then show ?case by (simp add: serve_start_def)
next
  case (later t u)
  from later(3) show ?case using later(2) by cases auto
qed

text \<open>Once the server no longer accepts, it never does again, and the open requests only get fewer.\<close>

lemma serve_closing:
  "serves s t \<Longrightarrow> hs_Phase s \<noteq> Accepting \<Longrightarrow> hs_Phase t \<noteq> Accepting \<and> hs_Open t \<le> hs_Open s"
  by (induction rule: serves.induct) (auto elim!: serve_stepE)

text \<open>After the end of the context the server can always come to rest.\<close>

lemma serve_can_stop: "hs_Done s \<Longrightarrow> \<exists>t. serves s t \<and> hs_Phase t = Stopped"
proof -
  assume d: "hs_Done s"
  have drain: "\<exists>u. serves s u \<and> hs_Phase u = Stopped" if "serves s t" "hs_Phase t = Draining" for t
  proof -
    have "serve_step t (t\<lparr>hs_Phase := Stopped\<rparr>)" by (rule serve_step.overdue [OF that(2)])
    from serves.later [OF that(1) this] show ?thesis by (intro exI [of _ "t\<lparr>hs_Phase := Stopped\<rparr>"]) simp
  qed
  show ?thesis
  proof (cases "hs_Phase s")
    case Accepting
    have "serves s (s\<lparr>hs_Phase := Draining\<rparr>)"
      by (rule serves.later [OF serves.now serve_step.shutdown [OF d Accepting]])
    then show ?thesis by (rule drain) simp
  next
    case Draining
    with drain serves.now show ?thesis by blast
  next
    case Stopped
    with serves.now show ?thesis by blast
  qed
qed

end
