(* ===== verification/Dashboard.thy ===== *)
theory Dashboard
  imports HttpServer Calendar Floats
begin

text \<open>
  The page of dashboard.go: its template with what html/template makes of it. Template text is
  \<open>Markup\<close> and is written as it is; every action is \<open>Shown\<close> and escaped, the same way in element
  content and in the quoted attribute. html/template drops the comments of the script, so the text
  of the script is the one of the source without them.
\<close>

section \<open>Numbers and times\<close>

text \<open>A float64 from 1 on (53 bits); the verb %.1f.\<close>

definition float64 :: "rat \<Rightarrow> rat" where
  "float64 q =
     (let bits = floorlog 2 (nat \<lfloor>q\<rfloor>)
      in if bits \<le> 53 then of_int (round_even (q * 2 ^ (53 - bits))) / 2 ^ (53 - bits)
         else of_int (round_even (q / 2 ^ (bits - 53))) * 2 ^ (bits - 53))"

definition tenths :: "int \<Rightarrow> string" where
  "tenths t = itoa (t div 10) @ ''.'' @ itoa (t mod 10)"

definition fixed1 :: "rat \<Rightarrow> string" where
  "fixed1 q = (if q < 0 then ''-'' else []) @ tenths (round_even (\<bar>q\<bar> * 10))"

definition fmtTokens :: "int \<Rightarrow> string" where
  "fmtTokens n =
     (if n < 1000 then itoa n else fixed1 (float64 (float64 (of_int n) / 1000)) @ ''k'')"

definition em_dash :: string where "em_dash = [CHR 0xE2, CHR 0x80, CHR 0x94]"
definition middle_dot :: string where "middle_dot = [CHR 0xC2, CHR 0xB7]"

definition fmtTime :: "int \<Rightarrow> string" where "fmtTime t = format_time t"

definition fmtTimePtr :: "int option \<Rightarrow> string" where
  "fmtTimePtr t = (case t of None \<Rightarrow> em_dash | Some n \<Rightarrow> format_time n)"

definition fmtTimeNano :: "int \<Rightarrow> string" where "fmtTimeNano t = format_time_nano t"

section \<open>Escaping\<close>

definition escape_byte :: "char \<Rightarrow> string" where
  "escape_byte c =
     (let n = byte c
      in if n = 0 then [CHR 0xEF, CHR 0xBF, CHR 0xBD]
         else if n = 34 then ''&#34;'' else if n = 38 then ''&amp;'' else if n = 39 then ''&#39;''
         else if n = 43 then ''&#43;'' else if n = 60 then ''&lt;'' else if n = 62 then ''&gt;''
         else [c])"

definition html_escape :: "string \<Rightarrow> string" where
  "html_escape s = concat (map escape_byte s)"

text \<open>\<^verbatim>\<open>template.HTMLEscapeString\<close>, which leaves a plus sign alone.\<close>

definition HTMLEscapeString :: "string \<Rightarrow> string" where
  "HTMLEscapeString s = concat (map (\<lambda>c. if byte c = 43 then [c] else escape_byte c) s)"

datatype piece = Markup string | Shown string

fun piece_html :: "piece \<Rightarrow> string" where
  "piece_html (Markup m) = m"
| "piece_html (Shown s) = html_escape s"

definition pieces_html :: "piece list \<Rightarrow> string" where
  "pieces_html ps = concat (map piece_html ps)"

definition unlines :: "string list \<Rightarrow> string" where
  "unlines ls = join_str [CHR 0x0A] ls"

section \<open>The template\<close>

definition page_head :: "piece" where
  \<open>page_head =
     Markup (unlines
         [''<!doctype html>'',
          ''<html lang="en">'',
          ''<head>'',
          ''<meta charset="utf-8">'',
          ''<meta name="viewport" content="width=device-width, initial-scale=1">'',
          ''<meta http-equiv="refresh" content="5">'',
          ''<title>Symphony Dashboard</title>'',
          ''<style>'',
          '' body { font-family: system-ui, sans-serif; margin: 2rem; color: #1a1a1a; }'',
          '' h1 { font-size: 1.4rem; }'',
          '' table { border-collapse: collapse; width: 100%; margin-bottom: 2rem; }'',
          '' th, td { border: 1px solid #ddd; padding: 6px 10px; text-align: left; font-size: 0.9rem; }'',
          '' th { background: #f4f4f4; }'',
          '' .counts { display: flex; gap: 2rem; margin-bottom: 1.5rem; }'',
          '' .card { background: #f8f8f8; border: 1px solid #e0e0e0; border-radius: 8px; padding: 1rem 1.5rem; }'',
          '' .card .n { font-size: 1.6rem; font-weight: 600; }'',
          '' .muted { color: #777; }'',
          '' .feed { margin-bottom: 2rem; }'',
          '' .feed h3 { font-size: 1rem; margin: 1rem 0 0.5rem; }'',
          '' .feed ul { list-style: none; padding: 0; margin: 0; }'',
          '' .feed li { padding: 6px 10px; border-left: 3px solid #ddd; margin-bottom: 4px; background: #fafafa; font-size: 0.9rem; }'',
          '' .feed li .ts { color: #777; font-size: 0.8rem; margin-right: 0.5rem; }'',
          '' .feed .msg { white-space: pre-wrap; word-break: break-word; }'',
          '' .feed details { border-left: 3px solid #cdd6e0; margin-bottom: 4px; background: #fafafa; font-size: 0.9rem; }'',
          '' .feed details[open] { border-left-color: #6b8cae; background: #f4f7fb; }'',
          '' .feed summary { padding: 6px 10px; cursor: pointer; list-style-position: inside; }'',
          '' .feed summary::-webkit-details-marker { color: #999; }'',
          '' .feed summary .msg { white-space: normal; }'',
          '' .feed .tok { color: #3a6ea5; font-size: 0.8rem; margin-left: 0.4rem; white-space: nowrap; }'',
          '' .feed .detail { margin: 0; padding: 6px 12px 10px 26px; white-space: pre-wrap; word-break: break-word;'',
          ''   font-family: ui-monospace, SFMono-Regular, Menlo, monospace; font-size: 0.82rem; color: #333; }'',
          '' .feed .usage { color: #777; font-size: 0.78rem; padding: 0 12px 8px 26px; }'',
          ''</style>'',
          ''</head>'',
          ''<body>'',
          ''<h1>Symphony Dashboard</h1>'',
          ''<p class="muted">generated at ''])\<close>

definition page_counts :: "snapshot \<Rightarrow> piece list" where
  \<open>page_counts sn =
     [Shown (fmtTime (sn_GeneratedAt sn)),
      Markup (unlines
         [''</p>'',
          [],
          ''<div class="counts">'',
          '' <div class="card"><div class="n">'']),
      Shown (itoa (sn_CountRunning sn)),
      Markup (unlines
         [''</div><div>running</div></div>'',
          '' <div class="card"><div class="n">'']),
      Shown (itoa (sn_CountRetrying sn)),
      Markup (unlines
         [''</div><div>retrying</div></div>'',
          '' <div class="card"><div class="n">'']),
      Shown (itoa (tt_TotalTokens (sn_ClaudeTotals sn))),
      Markup (unlines
         [''</div><div>total tokens</div></div>'',
          '' <div class="card"><div class="n">'']),
      Shown (fixed1 (tt_SecondsRunning (sn_ClaudeTotals sn)))]\<close>

definition running_head :: "piece" where
  \<open>running_head =
     Markup (unlines
         [''</div><div>seconds running</div></div>'',
          ''</div>'',
          [],
          ''<h2>Running</h2>'',
          ''<table>'',
          '' <tr><th>Identifier</th><th>State</th><th>Session</th><th>Turns</th><th>Last event</th><th>Started</th><th>Tokens</th></tr>'',
          '' ''])\<close>

definition running_row_html :: "running_row \<Rightarrow> piece list" where
  \<open>running_row_html r =
     [Markup (unlines [[], '' <tr>'', ''  <td>'']),
      Shown (rr_IssueIdentifier r),
      Markup (unlines [''</td>'', ''  <td>'']),
      Shown (rr_State r),
      Markup (unlines [''</td>'', ''  <td>'']),
      Shown (rr_SessionID r),
      Markup (unlines [''</td>'', ''  <td>'']),
      Shown (itoa (rr_TurnCount r)),
      Markup (unlines [''</td>'', ''  <td>'']),
      Shown (rr_LastEvent r),
      Markup '' <span class="muted">'',
      Shown (fmtTimePtr (rr_LastEventAt r)),
      Markup (unlines [''</span></td>'', ''  <td>'']),
      Shown (fmtTime (rr_StartedAt r)),
      Markup (unlines [''</td>'', ''  <td>'']),
      Shown (itoa (rr_TotalTokens r)),
      Markup (unlines [''</td>'', '' </tr>'', '' ''])]\<close>

definition running_html :: "running_row list \<Rightarrow> piece list" where
  \<open>running_html rows =
     (if rows = [] then [Markup (unlines
         [[],
          '' <tr><td colspan="7" class="muted">no running sessions</td></tr>'',
          '' ''])]
      else concat (map running_row_html rows))\<close>

definition feed_head :: "piece" where
  \<open>feed_head =
     Markup (unlines
         [[],
          ''</table>'',
          [],
          ''<h2>Recent output</h2>'',
          ''<div class="feed">'',
          '' ''])\<close>

definition tokens_html :: "int \<Rightarrow> piece list" where
  \<open>tokens_html n =
     (if n \<noteq> 0 then
        [Markup (''<span class="tok">'' @ middle_dot @ '' ''), Shown (fmtTokens n), Markup '' tok</span>'']
      else [])\<close>

definition usage_html :: "agent_activity \<Rightarrow> piece list" where
  \<open>usage_html a =
     (if act_InputTokens a \<noteq> 0 \<or> act_OutputTokens a \<noteq> 0 then
        [Markup ''<div class="usage">'',
         Shown (fmtTokens (act_InputTokens a)), Markup '' in / '',
         Shown (fmtTokens (act_OutputTokens a)), Markup '' out</div>'']
      else [])\<close>

definition activity_html :: "string \<Rightarrow> agent_activity \<Rightarrow> piece list" where
  \<open>activity_html ident a =
     (Markup (unlines [[], ''   '']) #
     (if act_Detail a \<noteq> [] then
       [Markup (unlines [[], ''   <li><details data-key="'']),
      Shown (ident),
      Markup ''|'',
      Shown (fmtTimeNano (act_Timestamp a)),
      Markup (unlines [''">'', ''    <summary><span class="ts">'']),
      Shown (fmtTime (act_Timestamp a)),
      Markup ''</span><span class="msg">'',
      Shown (act_Message a),
      Markup ''</span>'']
       @ tokens_html (act_OutputTokens a)
       @ [Markup (unlines [''</summary>'', ''    <pre class="detail">'']),
      Shown (act_Detail a),
      Markup (unlines [''</pre>'', ''    ''])]
       @ usage_html a @ [Markup (unlines [[], ''   </details></li>'', ''   ''])]
      else
       [Markup (unlines [[], ''   <li><span class="ts">'']),
      Shown (fmtTime (act_Timestamp a)),
      Markup ''</span><span class="msg">'',
      Shown (act_Message a),
      Markup ''</span>'']
       @ tokens_html (act_OutputTokens a) @ [Markup (unlines [''</li>'', ''   ''])])
     @ [Markup (unlines [[], ''   ''])])\<close>

definition feed_row_html :: "running_row \<Rightarrow> piece list" where
  \<open>feed_row_html r =
     (Markup (unlines [[], ''  '']) #
     (if rr_Activity r \<noteq> [] then
       [Markup (unlines [[], ''  '']),
      Markup (unlines [[], ''  '']),
      Markup (unlines [[], ''  <h3>'']),
      Shown (rr_IssueIdentifier r),
      Markup '' <span class="muted">turn '',
      Shown (itoa (rr_TurnCount r)),
      Markup (unlines [''</span></h3>'', ''  <ul>'', ''   ''])]
       @ concat (map (activity_html (rr_IssueIdentifier r)) (rr_Activity r)) @ [Markup (unlines [[], ''  </ul>'', ''  ''])]
      else [])
     @ [Markup (unlines [[], '' ''])])\<close>

text \<open>The variable \<^verbatim>\<open>shown\<close> of the template is set by every row with activity.\<close>

definition feed_html :: "running_row list \<Rightarrow> piece list" where
  \<open>feed_html rows =
     (Markup (unlines [[], '' '']) # concat (map feed_row_html rows) @ [Markup (unlines [[], '' ''])]
     @ (if list_ex (\<lambda>r. rr_Activity r \<noteq> []) rows then [] else [Markup ''<p class="muted">no agent output yet</p>'']))\<close>

definition retry_head :: "piece" where
  \<open>retry_head =
     Markup (unlines
         [[],
          ''</div>'',
          [],
          ''<h2>Retry queue</h2>'',
          ''<table>'',
          '' <tr><th>Identifier</th><th>Attempt</th><th>Due</th><th>Error</th></tr>'',
          '' ''])\<close>

definition retry_row_html :: "retry_row \<Rightarrow> piece list" where
  \<open>retry_row_html r =
     ([Markup (unlines [[], '' <tr>'', ''  <td>'']),
      Shown (ry_IssueIdentifier r),
      Markup (unlines [''</td>'', ''  <td>'']),
      Shown (itoa (ry_Attempt r)),
      Markup (unlines [''</td>'', ''  <td>'']),
      Shown (fmtTime (ry_DueAtMs r * 1000000)),
      Markup (unlines [''</td>'', ''  <td>''])]
     @ (case ry_Error r of Some e \<Rightarrow> [Shown e]
        | None \<Rightarrow> [Markup (''<span class="muted">'' @ em_dash @ ''</span>'')])
     @ [Markup (unlines [''</td>'', '' </tr>'', '' ''])])\<close>

definition retry_html :: "retry_row list \<Rightarrow> piece list" where
  \<open>retry_html rows =
     (if rows = [] then [Markup (unlines [[], '' <tr><td colspan="4" class="muted">empty</td></tr>'', '' ''])]
      else concat (map retry_row_html rows))\<close>

definition page_script :: "piece" where
  \<open>page_script =
     Markup (unlines
         [[],
          ''</table>'',
          ''<script>'',
          [],
          [],
          [],
          ''(function () {'',
          ''  var KEY = "symphony.openActivity";'',
          ''  function load() {'',
          ''    try { return new Set(JSON.parse(localStorage.getItem(KEY)) || []); }'',
          ''    catch (e) { return new Set(); }'',
          ''  }'',
          ''  function save(set) {'',
          ''    try { localStorage.setItem(KEY, JSON.stringify(Array.from(set))); } catch (e) {}'',
          ''  }'',
          ''  var open = load();'',
          ''  document.querySelectorAll("details[data-key]").forEach(function (d) {'',
          ''    var k = d.getAttribute("data-key");'',
          ''    if (open.has(k)) { d.open = true; }'',
          ''    d.addEventListener("toggle", function () {'',
          ''      var cur = load();'',
          ''      if (d.open) { cur.add(k); } else { cur.delete(k); }'',
          ''      save(cur);'',
          ''    });'',
          ''  });'',
          ''})();'',
          ''</script>'',
          ''</body>'',
          ''</html>''])\<close>

definition dashboard :: "snapshot \<Rightarrow> piece list" where
  "dashboard sn =
     [page_head] @ page_counts sn @ [running_head] @ running_html (sn_Running sn)
     @ [feed_head] @ feed_html (sn_Running sn) @ [retry_head] @ retry_html (sn_Retrying sn) @ [page_script]"

definition unavailable_page :: "string \<Rightarrow> string" where
  "unavailable_page err = ''<h1>Symphony</h1><p>snapshot unavailable: '' @ HTMLEscapeString err @ ''</p>''"

text \<open>The bytes of the two HTML bodies of \<^verbatim>\<open>handleRoot\<close>.\<close>

definition html_body :: "body \<Rightarrow> string option" where
  "html_body b = (case b of
     DashboardBody sn \<Rightarrow> Some (pieces_html (dashboard sn))
   | UnavailablePage err \<Rightarrow> Some (unavailable_page err)
   | _ \<Rightarrow> None)"

section \<open>Data cannot become markup\<close>

definition markup_char :: "char \<Rightarrow> bool" where
  "markup_char c \<longleftrightarrow> byte c \<in> {34, 39, 60, 62}"

lemma escape_byte_inert: "list_all (\<lambda>c. \<not> markup_char c) (escape_byte c)"
  by (simp add: escape_byte_def markup_char_def Let_def)

lemma html_escape_inert: "list_all (\<lambda>c. \<not> markup_char c) (html_escape s)"
  by (induction s) (simp_all add: html_escape_def escape_byte_inert)

fun marks :: "piece list \<Rightarrow> string" where
  "marks [] = []"
| "marks (Markup m # ps) = m @ marks ps"
| "marks (Shown s # ps) = marks ps"

lemma marks_append [simp]: "marks (ps @ qs) = marks ps @ marks qs"
  by (induction ps rule: marks.induct) auto

lemma filter_inert: "list_all (\<lambda>c. \<not> P c) s \<Longrightarrow> filter P s = []"
  by (induction s) auto

lemma pieces_markup: "filter markup_char (pieces_html ps) = filter markup_char (marks ps)"
  by (induction ps rule: marks.induct) (simp_all add: pieces_html_def filter_inert html_escape_inert)

text \<open>Two snapshots of the same shape: as many rows, texts and numbers present or absent alike.\<close>

definition same_activity :: "agent_activity \<Rightarrow> agent_activity \<Rightarrow> bool" where
  "same_activity a b \<longleftrightarrow> (act_Detail a = []) = (act_Detail b = [])
     \<and> (act_OutputTokens a = 0) = (act_OutputTokens b = 0)
     \<and> (act_InputTokens a = 0 \<and> act_OutputTokens a = 0) = (act_InputTokens b = 0 \<and> act_OutputTokens b = 0)"

definition same_row :: "running_row \<Rightarrow> running_row \<Rightarrow> bool" where
  "same_row r s \<longleftrightarrow> list_all2 same_activity (rr_Activity r) (rr_Activity s)"

definition same_retry :: "retry_row \<Rightarrow> retry_row \<Rightarrow> bool" where
  "same_retry r s \<longleftrightarrow> (ry_Error r = None) = (ry_Error s = None)"

definition same_shape :: "snapshot \<Rightarrow> snapshot \<Rightarrow> bool" where
  "same_shape s t \<longleftrightarrow> list_all2 same_row (sn_Running s) (sn_Running t)
     \<and> list_all2 same_retry (sn_Retrying s) (sn_Retrying t)"

lemma marks_concat:
  "list_all2 R xs ys \<Longrightarrow> (\<And>x y. R x y \<Longrightarrow> marks (f x) = marks (g y)) \<Longrightarrow>
     marks (concat (map f xs)) = marks (concat (map g ys))"
  by (induction rule: list_all2_induct) simp_all

lemma marks_tokens: "(n = 0) = (m = 0) \<Longrightarrow> marks (tokens_html n) = marks (tokens_html m)"
  by (simp add: tokens_html_def)

lemma marks_usage: "same_activity a b \<Longrightarrow> marks (usage_html a) = marks (usage_html b)"
  by (auto simp: usage_html_def same_activity_def)

lemma marks_activity:
  assumes "same_activity a b"
  shows "marks (activity_html i a) = marks (activity_html j b)"
proof -
  have "marks (tokens_html (act_OutputTokens a)) = marks (tokens_html (act_OutputTokens b))"
    using assms by (intro marks_tokens) (simp add: same_activity_def)
  moreover have "act_Detail a = [] \<longleftrightarrow> act_Detail b = []" using assms by (simp add: same_activity_def)
  ultimately show ?thesis using marks_usage [OF assms] by (simp add: activity_html_def)
qed

lemma marks_feed_row: "same_row r s \<Longrightarrow> marks (feed_row_html r) = marks (feed_row_html s)"
  using marks_concat [of same_activity "rr_Activity r" "rr_Activity s"
      "activity_html (rr_IssueIdentifier r)" "activity_html (rr_IssueIdentifier s)"]
  by (auto simp: feed_row_html_def same_row_def marks_activity)

lemma marks_running_row: "marks (running_row_html r) = marks (running_row_html s)"
  by (simp add: running_row_html_def)

lemma marks_retry_row: "same_retry r s \<Longrightarrow> marks (retry_row_html r) = marks (retry_row_html s)"
  by (cases "ry_Error r"; cases "ry_Error s") (simp_all add: retry_row_html_def same_retry_def)

lemma same_row_Nil: "same_row r s \<Longrightarrow> (rr_Activity r = []) = (rr_Activity s = [])"
  by (auto simp: same_row_def)

lemma shown_same:
  "list_all2 same_row rs ss \<Longrightarrow> list_ex (\<lambda>r. rr_Activity r \<noteq> []) rs = list_ex (\<lambda>r. rr_Activity r \<noteq> []) ss"
  by (induction rule: list_all2_induct) (simp_all add: same_row_Nil)

lemma marks_dashboard:
  assumes "same_shape sn sn'"
  shows "marks (dashboard sn) = marks (dashboard sn')"
proof -
  have r: "list_all2 same_row (sn_Running sn) (sn_Running sn')"
    and y: "list_all2 same_retry (sn_Retrying sn) (sn_Retrying sn')"
    using assms by (simp_all add: same_shape_def)
  have "marks (running_html (sn_Running sn)) = marks (running_html (sn_Running sn'))"
    using marks_concat [OF r, of running_row_html running_row_html] marks_running_row r
    by (auto simp: running_html_def)
  moreover have "marks (feed_html (sn_Running sn)) = marks (feed_html (sn_Running sn'))"
    using marks_concat [OF r, of feed_row_html feed_row_html] marks_feed_row shown_same [OF r]
    by (simp add: feed_html_def)
  moreover have "marks (retry_html (sn_Retrying sn)) = marks (retry_html (sn_Retrying sn'))"
    using marks_concat [OF y, of retry_row_html retry_row_html] marks_retry_row y
    by (auto simp: retry_html_def)
  moreover have "marks (page_counts sn) = marks (page_counts sn')" by (simp add: page_counts_def)
  ultimately show ?thesis by (simp only: dashboard_def marks_append)
qed

section \<open>Data is shown as it is\<close>

text \<open>The character references the escaper writes, read back.\<close>

definition references :: "(string \<times> nat) list" where
  "references = [(''&#34;'', 34), (''&amp;'', 38), (''&#39;'', 39), (''&#43;'', 43), (''&lt;'', 60), (''&gt;'', 62)]"

function html_text :: "string \<Rightarrow> string" where
  "html_text [] = []"
| "html_text (c # s) =
     (case find (\<lambda>r. has_prefix (c # s) (fst r)) references of
        None \<Rightarrow> c # html_text s
      | Some r \<Rightarrow> char_of (snd r) # html_text (drop (length (fst r) - 1) s))"
  by pat_completeness auto
termination by (relation "measure length") auto

declare html_text.simps(2) [simp del]

lemma html_text_byte:
  assumes "byte c \<noteq> 0"
  shows "html_text (escape_byte c @ s) = c # html_text s"
proof (cases "byte c \<in> {34, 38, 39, 43, 60, 62}")
  case True
  have ch: "char_of n = c" if "byte c = n" for n using that by auto
  from True show ?thesis
    by (auto simp: escape_byte_def html_text.simps(2) references_def has_prefix_def ch)
next
  case False
  then have "c \<noteq> CHR ''&''" by auto
  with False assms show ?thesis
    by (simp add: escape_byte_def html_text.simps(2) references_def has_prefix_def Let_def)
qed

lemma html_text_escape: "list_all (\<lambda>c. byte c \<noteq> 0) s \<Longrightarrow> html_text (html_escape s) = s"
  by (induction s) (simp_all add: html_escape_def html_text_byte)

section \<open>Token counts\<close>

lemma floorlog_bits: "0 < n \<Longrightarrow> n < 2 ^ k \<Longrightarrow> floorlog 2 n \<le> k"
  by (simp add: floorlog_le_iff)

lemma float64_int:
  assumes "0 < n" and "n < 2 ^ 50"
  shows "float64 (of_int n) = of_int n"
proof -
  have b: "floorlog 2 (nat n) \<le> 50" using assms by (intro floorlog_bits) (auto simp: nat_less_iff)
  have "(of_int n :: rat) * 2 ^ k = of_int (n * 2 ^ k)" for k by simp
  then have "round_even ((of_int n :: rat) * 2 ^ k) = n * 2 ^ k" for k by (metis round_even_int)
  with b show ?thesis by (simp add: float64_def Let_def)
qed

lemma float64_near:
  assumes "1 \<le> q" and "q < 2 ^ 41"
  shows "\<bar>float64 q - q\<bar> \<le> 1 / 2 ^ 13"
proof -
  let ?b = "floorlog 2 (nat \<lfloor>q\<rfloor>)"
  have "nat \<lfloor>q\<rfloor> < 2 ^ 41" "0 < nat \<lfloor>q\<rfloor>" using assms by (auto simp: nat_less_iff floor_less_iff)
  then have b: "?b \<le> 41" by (intro floorlog_bits)
  let ?s = "2 ^ (53 - ?b) :: rat"
  have s: "2 ^ 12 \<le> ?s" using b by (intro power_increasing) auto
  have "\<bar>float64 q - q\<bar> = \<bar>of_int (round_even (q * ?s)) - q * ?s\<bar> / ?s"
  proof -
    have "float64 q - q = (of_int (round_even (q * ?s)) - q * ?s) / ?s"
      using b by (simp add: float64_def Let_def diff_divide_distrib)
    then show ?thesis by (simp only: abs_divide) simp
  qed
  also have "\<dots> \<le> (1 / 2) / ?s" using round_even_near by (intro divide_right_mono) auto
  also have "\<dots> \<le> (1 / 2) / 2 ^ 12" using s by (intro divide_left_mono) auto
  finally show ?thesis by simp
qed

lemma int_bounds:
  assumes "1000 \<le> n" and "n < 2 ^ 50"
  shows "1000 \<le> (of_int n :: rat)" "(of_int n :: rat) < 2 ^ 50"
  using assms by (metis of_int_le_iff of_int_numeral, metis of_int_less_iff of_int_numeral of_int_power)

lemma float64_thousands:
  assumes "1000 \<le> n" and "n < 2 ^ 50"
  shows "\<bar>float64 (of_int n / 1000) - of_int n / 1000\<bar> \<le> 1 / 2 ^ 13" "0 \<le> float64 (of_int n / 1000)"
proof -
  show d: "\<bar>float64 (of_int n / 1000) - of_int n / 1000\<bar> \<le> 1 / 2 ^ 13"
    using int_bounds [OF assms] by (intro float64_near) auto
  have "1 \<le> (of_int n / 1000 :: rat)" using int_bounds [OF assms] by simp
  moreover have "1 / 2 ^ 13 \<le> (1 :: rat)" by simp
  ultimately show "0 \<le> float64 (of_int n / 1000)" using d by linarith
qed

lemma tenths_near:
  assumes "1000 \<le> n" and "n < 2 ^ 50"
  shows "\<bar>round_even (float64 (of_int n / 1000) * 10) * 100 - n\<bar> \<le> 50"
proof -
  let ?x = "float64 (of_int n / 1000)"
  have "\<bar>of_int (round_even (?x * 10)) - ?x * 10\<bar> \<le> 1 / 2" by (rule round_even_near)
  moreover have "1 / 2 ^ 13 \<le> (1 / 2000 :: rat)" by simp
  ultimately have "\<bar>of_int (round_even (?x * 10)) * 100 - (of_int n :: rat)\<bar> < 51"
    using float64_thousands(1) [OF assms] by linarith
  then have "(of_int \<bar>round_even (?x * 10) * 100 - n\<bar> :: rat) < of_int 51" by simp
  then show ?thesis by linarith
qed

text \<open>A compact count is within 50 tokens of the count, whatever the float64 division does.\<close>

lemma fmtTokens_near:
  assumes "1000 \<le> n" and "n < 2 ^ 50"
  shows "\<exists>t. fmtTokens n = tenths t @ ''k'' \<and> \<bar>t * 100 - n\<bar> \<le> 50"
proof -
  have "float64 (of_int n :: rat) = of_int n" using assms by (intro float64_int) auto
  then show ?thesis
    using tenths_near [OF assms] float64_thousands(2) [OF assms] assms
    by (intro exI [of _ "round_even (float64 (of_int n / 1000) * 10)"]) (simp add: fmtTokens_def fixed1_def)
qed

section \<open>Property\<close>

definition same_answer :: "snapshot result \<Rightarrow> snapshot result \<Rightarrow> bool" where
  "same_answer r s \<longleftrightarrow> rel_sum (\<lambda>_ _. True) same_shape r s"

definition markup_of :: "response \<Rightarrow> string option" where
  "markup_of r = map_option (filter markup_char) (html_body (hr_Body r))"

lemma unavailable_markup: "filter markup_char (unavailable_page e) = filter markup_char (unavailable_page e')"
proof -
  have "list_all (\<lambda>c. \<not> markup_char c) (HTMLEscapeString e)" for e
    by (induction e) (simp_all add: HTMLEscapeString_def escape_byte_inert, simp add: markup_char_def)
  then show ?thesis by (simp add: unavailable_page_def filter_inert)
qed

text \<open>
  C21: No text can change the structure of the dashboard. Whatever the tracker, the agent and the
  errors supply, two snapshots of the same shape (as many rows and messages, details, token counts
  and errors present or absent alike) give pages with the same angle brackets and quotes in the same
  order, and so do two error pages; and the escaped text reads back as the text itself.
\<close>

theorem dashboard_no_injection:
  assumes "same_answer (pv_Snapshot pv) (pv_Snapshot pv')"
  shows "markup_of (snd (handleRoot pv meth path)) = markup_of (snd (handleRoot pv' meth path))
    \<and> (list_all (\<lambda>c. byte c \<noteq> 0) s \<longrightarrow> html_text (html_escape s) = s)"
  using assms marks_dashboard unavailable_markup
  by (cases "pv_Snapshot pv"; cases "pv_Snapshot pv'")
    (auto simp: handleRoot_def markup_of_def html_body_def same_answer_def pieces_markup html_text_escape
      writeError_def)

definition ex_answer :: "string \<Rightarrow> provider" where
  "ex_answer e =
     \<lparr>pv_Snapshot = Inr
        \<lparr>sn_GeneratedAt = 0, sn_CountRunning = 0, sn_CountRetrying = 1, sn_Running = [],
         sn_Retrying = [\<lparr>ry_IssueID = ''1'', ry_IssueIdentifier = e, ry_IssueURL = None, ry_Attempt = 2,
           ry_DueAtMs = 0, ry_Error = Some e\<rparr>],
         sn_ClaudeTotals = \<lparr>tt_InputTokens = 0, tt_OutputTokens = 0, tt_TotalTokens = 0, tt_SecondsRunning = 0\<rparr>,
         sn_RateLimits = VNil\<rparr>,
      pv_Refresh = True, pv_Now = 0\<rparr>"

theorem dashboard_no_injection_witness:
  "markup_of (snd (handleRoot (ex_answer ''<b>x</b>'') ''GET'' ''/''))
     = markup_of (snd (handleRoot (ex_answer ''no slot'') ''GET'' ''/''))
   \<and> html_text (html_escape ''<b>'') = ''<b>''"
proof -
  have "same_answer (pv_Snapshot (ex_answer e)) (pv_Snapshot (ex_answer e'))" for e e'
    by (simp add: same_answer_def ex_answer_def same_shape_def same_retry_def)
  from dashboard_no_injection [OF this [of "''<b>x</b>''" "''no slot''"], of "''GET''" "''/''" "''<b>''"]
  show ?thesis by simp
qed

end
