(* ===== verification/ApiText.thy ===== *)
theory ApiText
  imports Dashboard
begin

text \<open>
  What the JSON interface of package httpserver sends, byte by byte (\<^verbatim>\<open>writeJSON\<close>): the documents of
  the handlers and of the snapshot (with the tags of package domain) and their text, and that a
  client reads back what the handler meant.
\<close>

section \<open>The documents\<close>

text \<open>A nil slice is null.\<close>

definition slice_json :: "('a \<Rightarrow> json) \<Rightarrow> 'a list \<Rightarrow> json" where
  "slice_json f xs = (if xs = [] then JNull else JArr (map f xs))"

definition activity_json :: "agent_activity \<Rightarrow> json" where
  "activity_json a = JObj
     [(''timestamp'', jtime (act_Timestamp a)), (''event'', JStr (act_Event a)),
      (''turn_id'', JStr (act_TurnID a)), (''message'', JStr (act_Message a)),
      (''detail'', JStr (act_Detail a)), (''input_tokens'', jint (act_InputTokens a)),
      (''output_tokens'', jint (act_OutputTokens a))]"

definition tokens_json :: "int \<Rightarrow> int \<Rightarrow> int \<Rightarrow> json" where
  "tokens_json i o' n = JObj [(''input_tokens'', jint i), (''output_tokens'', jint o'), (''total_tokens'', jint n)]"

definition running_row_json :: "running_row \<Rightarrow> json" where
  "running_row_json row = JObj
     [(''issue_id'', JStr (rr_IssueID row)), (''issue_identifier'', JStr (rr_IssueIdentifier row)),
      (''issue_url'', opt_json JStr (rr_IssueURL row)), (''state'', JStr (rr_State row)),
      (''session_id'', JStr (rr_SessionID row)), (''turn_count'', jint (rr_TurnCount row)),
      (''last_event'', JStr (rr_LastEvent row)), (''last_message'', JStr (rr_LastMessage row)),
      (''started_at'', jtime (rr_StartedAt row)), (''last_event_at'', opt_json jtime (rr_LastEventAt row)),
      (''tokens'', tokens_json (rr_InputTokens row) (rr_OutputTokens row) (rr_TotalTokens row)),
      (''activity'', slice_json activity_json (rr_Activity row))]"

definition retry_row_json :: "retry_row \<Rightarrow> json" where
  "retry_row_json row = JObj
     [(''issue_id'', JStr (ry_IssueID row)), (''issue_identifier'', JStr (ry_IssueIdentifier row)),
      (''issue_url'', opt_json JStr (ry_IssueURL row)), (''attempt'', jint (ry_Attempt row)),
      (''due_at'', jtime (ry_DueAtMs row * 1000000)), (''error'', opt_json JStr (ry_Error row))]"

text \<open>The seconds are the float64 nearest to the exact sum of the model.\<close>

definition totals_json :: "totals \<Rightarrow> json" where
  "totals_json tt = JObj
     [(''input_tokens'', jint (tt_InputTokens tt)), (''output_tokens'', jint (tt_OutputTokens tt)),
      (''total_tokens'', jint (tt_TotalTokens tt)),
      (''seconds_running'', JNum (float_text (case to_double (tt_SecondsRunning tt) of None \<Rightarrow> 0 | Some d \<Rightarrow> d)))]"

definition snapshot_json :: "snapshot \<Rightarrow> json option" where
  "snapshot_json sn =
     map_option (\<lambda>limits. JObj
       [(''generated_at'', jtime (sn_GeneratedAt sn)),
        (''counts'', JObj [(''running'', jint (sn_CountRunning sn)), (''retrying'', jint (sn_CountRetrying sn))]),
        (''running'', slice_json running_row_json (sn_Running sn)),
        (''retrying'', slice_json retry_row_json (sn_Retrying sn)),
        (''claude_totals'', totals_json (sn_ClaudeTotals sn)),
        (''rate_limits'', limits)])
       (any_json (sn_RateLimits sn))"

text \<open>The document of a body; the pages have none.\<close>

fun body_json :: "body \<Rightarrow> json option" where
  "body_json (JsonBody j) = Some j"
| "body_json (SnapshotBody sn) = snapshot_json sn"
| "body_json (ErrorBody code msg) =
     Some (jmap [(''error'', jmap [(''code'', JStr code), (''message'', JStr msg)])])"
| "body_json (RefreshBody queued now) =
     Some (jmap [(''queued'', JBool queued), (''coalesced'', JBool (\<not> queued)),
       (''requested_at'', JStr (format_time now)), (''operations'', JArr [JStr ''poll'', JStr ''reconcile''])])"
| "body_json (DashboardBody sn) = None"
| "body_json (UnavailablePage e) = None"

section \<open>The bytes\<close>

text \<open>
  \<^verbatim>\<open>writeJSON\<close> ignores an encoding error; the encoder has then written nothing. The header is
  set in every case.
\<close>

definition writeJSON :: "json option \<Rightarrow> string \<times> string" where
  "writeJSON doc = (''application/json'', case doc of None \<Rightarrow> [] | Some j \<Rightarrow> marshal j @ [CHR 0x0A])"

definition response_bytes :: "response \<Rightarrow> string \<times> string" where
  "response_bytes r =
     (case html_body (hr_Body r) of
        Some page \<Rightarrow> (''text/html; charset=utf-8'', page)
      | None \<Rightarrow> writeJSON (body_json (hr_Body r)))"

section \<open>The documents are well formed\<close>

lemma json_ok_parts [simp]:
  "json_ok (jint n)" "json_ok (jtime t)" "json_number (float_text q)"
  by (simp_all add: jint_def jtime_def itoa_number float_text_number)

lemma json_ok_opt [simp]: "(\<And>x. json_ok (f x)) \<Longrightarrow> json_ok (opt_json f v)"
  by (cases v) (simp_all add: opt_json_def)

lemma json_ok_slice [simp]: "(\<And>x. json_ok (f x)) \<Longrightarrow> json_ok (slice_json f xs)"
  by (simp add: slice_json_def)

lemma json_ok_jmap [simp]: "json_ok (jmap ms) \<longleftrightarrow> (\<forall>m \<in> set ms. json_ok (snd m))"
  by (simp add: jmap_def)

lemma rows_ok [simp]: "json_ok (running_row_json r)" "json_ok (retry_row_json q)" "json_ok (activity_json a)"
    "json_ok (totals_json tt)"
  by (simp_all add: running_row_json_def retry_row_json_def activity_json_def totals_json_def tokens_json_def)

lemma details_ok [simp]: "json_ok (running_detail r)" "json_ok (retry_detail q)"
  by (simp_all add: running_detail_def retry_detail_def activityList_def)

definition body_ok :: "body \<Rightarrow> bool" where
  "body_ok b = (case b of JsonBody j \<Rightarrow> json_ok j | _ \<Rightarrow> True)"

lemma body_json_ok: "body_ok b \<Longrightarrow> body_json b = Some j \<Longrightarrow> json_ok j"
  by (cases b) (auto simp: body_ok_def snapshot_json_def dest: any_json_ok)

lemma writeJSON_reads_back:
  assumes "json_ok j"
  shows "read_doc (snd (writeJSON (Some j))) = Some (clean_doc j)"
    and "filter (\<lambda>c. byte c < 32) (snd (writeJSON (Some j))) = [CHR 0x0A]"
proof -
  show "read_doc (snd (writeJSON (Some j))) = Some (clean_doc j)"
    using marshal_reads_back [OF assms, of "[CHR 0x0A]"]
    by (simp add: writeJSON_def ends_word_def number_char_def is_digit_def skip_ws_def ws_char_def)
  have "filter (\<lambda>c. byte c < 32) (marshal j) = []"
    using print_printable [OF cst_of_ok [OF assms]] by (auto simp: marshal_def filter_empty_conv not_less)
  then show "filter (\<lambda>c. byte c < 32) (snd (writeJSON (Some j))) = [CHR 0x0A]"
    by (simp add: writeJSON_def)
qed

section \<open>Markup\<close>

text \<open>No byte of the text of a document can start or end an HTML tag or an entity.\<close>

definition tag_char :: "char \<Rightarrow> bool" where "tag_char c \<longleftrightarrow> byte c \<in> {38, 60, 62}"

fun piece_inert :: "jpiece \<Rightarrow> bool" where
  "piece_inert (Byte c) \<longleftrightarrow> \<not> tag_char c"
| "piece_inert p \<longleftrightarrow> piece_ok p"

lemma piece_inert_text: "piece_inert p \<Longrightarrow> list_all (\<lambda>c. \<not> tag_char c) (piece_text p)"
  by (cases p) (auto simp: list_all_iff tag_char_def escape_letters_def jquote_def jslash_def is_hex_def is_digit_def)

lemma ascii_pieces_inert: "b < 128 \<Longrightarrow> list_all piece_inert (ascii_pieces b)"
  using ascii_pieces_ok [of b] by (auto simp: ascii_pieces_def tag_char_def split: if_splits)

lemma rune_pieces_inert: "seg_of u p \<Longrightarrow> list_all piece_inert (rune_pieces p)"
proof (cases "fst p < 128")
  case True
  then show ?thesis by (simp add: rune_pieces_def case_prod_unfold ascii_pieces_inert)
next
  case False
  assume u: "seg_of u p"
  have fixed: "piece_inert (Hex ''fffd'')" "piece_inert (Hex ''2028'')" "piece_inert (Hex ''2029'')"
    by (simp_all add: is_hex_def is_digit_def)
  have "\<forall>c \<in> set (snd p). \<not> tag_char c" if "\<not> (fst p = rune_error \<and> length (snd p) = 1)"
  proof
    fix c assume c: "c \<in> set (snd p)"
    have "\<forall>c \<in> set (snd p). 128 \<le> byte c"
      using high_bytes [of u "fst p" "snd p"] u False that by (simp add: clean_seg_def)
    with c have "128 \<le> byte c" by blast
    then show "\<not> tag_char c" by (auto simp: tag_char_def)
  qed
  with False fixed show ?thesis
    by (auto simp: rune_pieces_def case_prod_unfold Let_def replacement_piece_def list_all_iff)
qed

lemma quoted_inert: "list_all (\<lambda>c. \<not> tag_char c) (quoted (string_pieces s))"
proof -
  have "list_all piece_inert (string_pieces s)"
    using segs_seg_of [of _ s] rune_pieces_inert by (fastforce simp: string_pieces_def list_all_iff)
  then show ?thesis
    using piece_inert_text by (fastforce simp: quoted_def literal_text_def list_all_iff tag_char_def jquote_def)
qed

lemma join_str_all: "list_all P sep \<Longrightarrow> list_all (list_all P) xs \<Longrightarrow> list_all P (join_str sep xs)"
  by (induction sep xs rule: join_str.induct) auto

lemma marshal_inert: "json_ok v \<Longrightarrow> list_all (\<lambda>c. \<not> tag_char c) (marshal v)"
  unfolding marshal_def
proof (induction v)
  case (JNum n)
  then show ?case
    by (auto simp: json_number_def list_all_iff number_char_def is_digit_def tag_char_def)
next
  case (JStr s)
  then show ?case by (simp add: quoted_inert)
next
  case (JArr vs)
  then have "list_all (list_all (\<lambda>c. \<not> tag_char c)) (map print_json (map cst_of vs))"
    by (simp add: list_all_iff)
  then have "list_all (\<lambda>c. \<not> tag_char c) (join_str '','' (map print_json (map cst_of vs)))"
    by (intro join_str_all) (simp_all add: tag_char_def)
  then show ?case by (simp add: tag_char_def)
next
  case (JObj ms)
  let ?m = "\<lambda>(k, v). quoted k @ '':'' @ print_json v"
  have "list_all (\<lambda>c. \<not> tag_char c) (quoted (string_pieces k) @ '':'' @ print_json (cst_of v))"
    if "(k, v) \<in> set ms" for k v
    using that JObj quoted_inert [of k] by (fastforce simp: tag_char_def)
  then have "list_all (list_all (\<lambda>c. \<not> tag_char c)) (map ?m (map (\<lambda>(k, v). (string_pieces k, cst_of v)) ms))"
    unfolding list_all_iff by fastforce
  then have "list_all (\<lambda>c. \<not> tag_char c) (join_str '','' (map ?m (map (\<lambda>(k, v). (string_pieces k, cst_of v)) ms)))"
    by (intro join_str_all) (simp_all add: tag_char_def)
  then show ?case by (simp add: tag_char_def)
qed (simp_all add: tag_char_def)

section \<open>Property\<close>

lemma ServeHTTP_api_body:
  assumes "has_prefix path api_prefix"
  shows "html_body (hr_Body (snd (ServeHTTP pv meth path))) = None"
    and "body_ok (hr_Body (snd (ServeHTTP pv meth path)))"
    and "hr_Body (snd (ServeHTTP pv meth path)) = SnapshotBody sn \<Longrightarrow> pv_Snapshot pv = Inr sn"
  using assms
  by (auto simp: ServeHTTP_def handleAPI_def handleState_def handleRefresh_def handleIssueDetail_def writeError_def
      html_body_def body_ok_def buildIssueDetail_def Let_def split: sum.splits option.splits if_splits)

text \<open>
  C31: What the JSON interface sends is what a client reads. As long as the rate limits of the
  snapshot can be encoded (those decoded from the agent's stream always can), the answer to every
  request below the API prefix is one line of JSON that any reader decodes to the very document
  the handler built, with strings coerced to valid UTF-8, and no byte of it can be taken for markup.
\<close>

theorem api_answers_read_back:
  assumes "has_prefix path api_prefix"
    and "case pv_Snapshot pv of Inl e \<Rightarrow> True | Inr sn \<Rightarrow> any_json (sn_RateLimits sn) \<noteq> None"
  shows "\<exists>j s. body_json (hr_Body (snd (ServeHTTP pv meth path))) = Some j
    \<and> response_bytes (snd (ServeHTTP pv meth path)) = (''application/json'', s @ [CHR 0x0A])
    \<and> read_doc (s @ [CHR 0x0A]) = Some (clean_doc j)
    \<and> list_all (\<lambda>c. 32 \<le> byte c \<and> \<not> tag_char c) s"
proof -
  let ?b = "hr_Body (snd (ServeHTTP pv meth path))"
  note api = ServeHTTP_api_body [OF assms(1), of pv meth]
  obtain j where j: "body_json ?b = Some j"
  proof (cases ?b)
    case (SnapshotBody sn)
    with api(3) [of sn] assms(2) obtain l where "any_json (sn_RateLimits sn) = Some l" by auto
    with SnapshotBody that show thesis by (simp add: snapshot_json_def)
  qed (use that api(1) in \<open>auto simp: html_body_def\<close>)
  have ok: "json_ok j" by (rule body_json_ok [OF api(2) j])
  have "response_bytes (snd (ServeHTTP pv meth path)) = (''application/json'', marshal j @ [CHR 0x0A])"
    using api(1) j by (simp add: response_bytes_def writeJSON_def)
  moreover have "read_doc (marshal j @ [CHR 0x0A]) = Some (clean_doc j)"
    using writeJSON_reads_back(1) [OF ok] by (simp add: writeJSON_def)
  moreover have "list_all (\<lambda>c. 32 \<le> byte c \<and> \<not> tag_char c) (marshal j)"
    using marshal_inert [OF ok] print_printable [OF cst_of_ok [OF ok]] by (simp add: list_all_iff marshal_def)
  ultimately show ?thesis using j by blast
qed

theorem api_answers_read_back_witness:
  "\<exists>j s. body_json (SnapshotBody (case pv_Snapshot (ex_answer ''<b>'') of Inr sn \<Rightarrow> sn)) = Some j
     \<and> snd (response_bytes (snd (ServeHTTP (ex_answer ''<b>'') ''GET'' ''/api/v1/state''))) = s @ [CHR 0x0A]
     \<and> read_doc (s @ [CHR 0x0A]) = Some (clean_doc j)"
proof -
  let ?pv = "ex_answer ''<b>''"
  have path: "has_prefix ''/api/v1/state'' api_prefix" by (simp add: has_prefix_def api_prefix_def)
  have "case pv_Snapshot ?pv of Inl e \<Rightarrow> True | Inr sn \<Rightarrow> any_json (sn_RateLimits sn) \<noteq> None"
    by (simp add: ex_answer_def)
  from api_answers_read_back [OF path this, of "''GET''"] obtain j s where
    j: "body_json (hr_Body (snd (ServeHTTP ?pv ''GET'' ''/api/v1/state''))) = Some j"
      "response_bytes (snd (ServeHTTP ?pv ''GET'' ''/api/v1/state'')) = (''application/json'', s @ [CHR 0x0A])"
      "read_doc (s @ [CHR 0x0A]) = Some (clean_doc j)" by blast
  have "hr_Body (snd (ServeHTTP ?pv ''GET'' ''/api/v1/state''))
      = SnapshotBody (case pv_Snapshot ?pv of Inr sn \<Rightarrow> sn)"
    using ServeHTTP_api [of ?pv "''GET''" "''state''"] by (simp add: api_prefix_def handleState_def ex_answer_def)
  with j show ?thesis by simp
qed

section \<open>What a client sees of the state\<close>

lemma map_of_clean:
  assumes "\<And>m. m \<in> set ms \<Longrightarrow> is_ascii (fst m)" and "is_ascii k"
  shows "map_of (map (\<lambda>(k, v). (valid_utf8 k, clean_doc v)) ms) k = map_option clean_doc (map_of ms k)"
  using assms(1)
proof (induction ms)
  case (Cons m ms)
  then have "valid_utf8 (fst m) = fst m" by (intro valid_utf8_id utf8_ascii) simp
  with Cons show ?case by (cases m) auto
qed simp

text \<open>The rows of a state answer, as a client reads them, are those of the snapshot, in order.\<close>

lemma state_rows_read:
  assumes "snapshot_json sn = Some j"
  shows "map (member ''issue_identifier'') (elements (member ''running'' (clean_doc j)))
      = map (\<lambda>r. JStr (valid_utf8 (rr_IssueIdentifier r))) (sn_Running sn)"
    and "map (member ''issue_identifier'') (elements (member ''retrying'' (clean_doc j)))
      = map (\<lambda>r. JStr (valid_utf8 (ry_IssueIdentifier r))) (sn_Retrying sn)"
proof -
  have id: "valid_utf8 s = s" if "is_ascii s" for s using that by (simp add: valid_utf8_id utf8_ascii)
  obtain l where j: "j = JObj
       [(''generated_at'', jtime (sn_GeneratedAt sn)),
        (''counts'', JObj [(''running'', jint (sn_CountRunning sn)), (''retrying'', jint (sn_CountRetrying sn))]),
        (''running'', slice_json running_row_json (sn_Running sn)),
        (''retrying'', slice_json retry_row_json (sn_Retrying sn)),
        (''claude_totals'', totals_json (sn_ClaudeTotals sn)),
        (''rate_limits'', l)]"
    using assms by (auto simp: snapshot_json_def)
  show "map (member ''issue_identifier'') (elements (member ''running'' (clean_doc j)))
      = map (\<lambda>r. JStr (valid_utf8 (rr_IssueIdentifier r))) (sn_Running sn)"
    "map (member ''issue_identifier'') (elements (member ''retrying'' (clean_doc j)))
      = map (\<lambda>r. JStr (valid_utf8 (ry_IssueIdentifier r))) (sn_Retrying sn)"
    by (simp_all add: j id slice_json_def running_row_json_def retry_row_json_def)
qed

text \<open>The bytes of a state answer, and the token totals in them.\<close>

lemma state_answer:
  assumes "pv_Snapshot pv = Inr sn" and "snapshot_json sn = Some j"
  shows "read_doc (snd (response_bytes (snd (ServeHTTP pv ''GET'' (api_prefix @ ''state''))))) = Some (clean_doc j)"
proof -
  have body: "hr_Body (snd (ServeHTTP pv ''GET'' (api_prefix @ ''state''))) = SnapshotBody sn"
    by (simp add: ServeHTTP_api handleState_def assms(1))
  have "json_ok j" using body_json_ok [of "SnapshotBody sn" j] assms(2) by (simp add: body_ok_def)
  from writeJSON_reads_back(1) [OF this] show ?thesis
    by (simp add: response_bytes_def body html_body_def assms(2))
qed

definition totals_read :: "json \<Rightarrow> totals \<Rightarrow> bool" where
  "totals_read d tt \<longleftrightarrow> (let m = member ''claude_totals'' d
     in member ''input_tokens'' m = jint (tt_InputTokens tt) \<and> member ''output_tokens'' m = jint (tt_OutputTokens tt)
      \<and> member ''total_tokens'' m = jint (tt_TotalTokens tt))"

lemma state_totals_read: "snapshot_json sn = Some j \<Longrightarrow> totals_read (clean_doc j) (sn_ClaudeTotals sn)"
proof -
  assume "snapshot_json sn = Some j"
  moreover have "valid_utf8 s = s" if "is_ascii s" for s using that by (simp add: valid_utf8_id utf8_ascii)
  ultimately show ?thesis by (auto simp: snapshot_json_def totals_read_def totals_json_def jint_def Let_def)
qed

text \<open>With nothing running, \<^verbatim>\<open>running\<close> is null in the answer and not an empty list.\<close>

lemma idle_rows_null:
  assumes "sn_Running sn = []" and "snapshot_json sn = Some j"
  shows "member ''running'' j = JNull"
  using assms by (auto simp: snapshot_json_def slice_json_def)

end
