(* ===== verification/JsonStructs.thy ===== *)
theory JsonStructs
  imports JsonValues
begin

text \<open>
  Decoding into the fields of Go structs, as the Linear client and the reader of the agent's stream
  do it: pointers, numbers that are out of range, and how a document with known keys is read.
\<close>

text \<open>\<^verbatim>\<open>json.Marshal\<close> of a value of type any, with its error.\<close>

definition marshal_any :: "gvalue \<Rightarrow> string result" where
  "marshal_any v =
     (case any_json v of Some j \<Rightarrow> Inr (marshal j) | None \<Rightarrow> Inl (PlainErr ''json: unsupported value''))"

section \<open>Fields\<close>

text \<open>A pointer field becomes nil at null; a value of another type is an error.\<close>

fun string_ptr :: "string option \<Rightarrow> cst list \<Rightarrow> string option option" where
  "string_ptr s [] = Some s"
| "string_ptr s (CStr ps # vs) = string_ptr (Some (unquoted ps)) vs"
| "string_ptr s (CLit w # vs) = (if w = ''null'' then string_ptr None vs else None)"
| "string_ptr s (v # vs) = None"

fun bool_ptr :: "bool option \<Rightarrow> cst list \<Rightarrow> bool option option" where
  "bool_ptr b [] = Some b"
| "bool_ptr b (CLit w # vs) = bool_ptr (if w = ''null'' then None else Some (w = ''true'')) vs"
| "bool_ptr b (v # vs) = None"

fun bool_field :: "bool \<Rightarrow> cst list \<Rightarrow> bool option" where
  "bool_field b [] = Some b"
| "bool_field b (CLit w # vs) = bool_field (if w = ''null'' then b else w = ''true'') vs"
| "bool_field b (v # vs) = None"

text \<open>
  A raw message that is decoded into an any of its own later: nil when it is absent or does not
  decode.
\<close>

definition raw_value :: "cst list \<Rightarrow> gvalue" where
  "raw_value vs = (if vs = [] then VNil else case any_of (last vs) of None \<Rightarrow> VNil | Some v \<Rightarrow> v)"

text \<open>
  Decoding into an any whose error is ignored: a number out of range leaves a nil, the rest is kept.
\<close>

fun any_lenient :: "cst \<Rightarrow> gvalue" where
  "any_lenient (CLit w) = (if w = ''null'' then VNil else VBool (w = ''true''))"
| "any_lenient (CNum n) = (case to_double (literal_value n) of None \<Rightarrow> VNil | Some q \<Rightarrow> VFloat (Fin q))"
| "any_lenient (CStr ps) = VStr (unquoted ps)"
| "any_lenient (CArr vs) = VList (map any_lenient vs)"
| "any_lenient (CObj ms) = VMap (foldl (\<lambda>m (k, v). map_put k v m) [] (map (\<lambda>(k, v). (unquoted k, any_lenient v)) ms))"

text \<open>Where nothing is out of range it is the value itself.\<close>

lemma any_lenient_any: "any_of c = Some v \<Longrightarrow> any_lenient c = v"
proof (induction c arbitrary: v)
  case (CArr cs)
  then obtain vs where vs: "map any_of cs = map Some vs" "v = VList vs" by (auto simp: all_some_Some)
  have "map any_lenient cs = vs"
  proof (rule nth_equalityI)
    show len: "length (map any_lenient cs) = length vs" using vs(1) map_eq_imp_length_eq by fastforce
    fix i assume i: "i < length (map any_lenient cs)"
    then have "any_of (cs ! i) = Some (vs ! i)" using vs(1) len by (metis length_map nth_map)
    with i CArr.IH [of "cs ! i"] show "map any_lenient cs ! i = vs ! i" by simp
  qed
  with vs(2) show ?case by simp
next
  case (CObj ms)
  then obtain xs where xs: "map (\<lambda>(k, v). map_option (Pair (unquoted k)) (any_of v)) ms = map Some xs"
    and v: "v = VMap (foldl (\<lambda>m (k, v). map_put k v m) [] xs)"
    by (auto simp: all_some_Some)
  have "map (\<lambda>(k, v). (unquoted k, any_lenient v)) ms = xs"
  proof (rule nth_equalityI)
    show len: "length (map (\<lambda>(k, v). (unquoted k, any_lenient v)) ms) = length xs"
      using xs map_eq_imp_length_eq by fastforce
    fix i assume i: "i < length (map (\<lambda>(k, v). (unquoted k, any_lenient v)) ms)"
    obtain k c where m: "ms ! i = (k, c)" by (cases "ms ! i")
    have "map_option (Pair (unquoted k)) (any_of c) = Some (xs ! i)"
      using xs len i m by (metis (no_types, lifting) length_map nth_map old.prod.case)
    moreover have "(k, c) \<in> set ms" using i m by (metis length_map nth_mem)
    ultimately show "map (\<lambda>(k, v). (unquoted k, any_lenient v)) ms ! i = xs ! i"
      using i m CObj.IH [of "(k, c)" c] by (auto simp: snds.intros)
  qed
  with v show ?case by simp
qed (auto split: option.splits)

text \<open>It can always be encoded, and so can every value in it.\<close>

lemma any_json_map: "any_json (VMap ms) \<noteq> None \<longleftrightarrow> (\<forall>m \<in> set ms. any_json (snd m) \<noteq> None)"
proof -
  have "None \<in> (\<lambda>(k, v). map_option (Pair k) (any_json v)) ` set ms \<longleftrightarrow> (\<exists>m \<in> set ms. any_json (snd m) = None)"
  proof
    assume "None \<in> (\<lambda>(k, v). map_option (Pair k) (any_json v)) ` set ms"
    then obtain m where "m \<in> set ms" "map_option (Pair (fst m)) (any_json (snd m)) = None" by auto
    then show "\<exists>m \<in> set ms. any_json (snd m) = None" by auto
  next
    assume "\<exists>m \<in> set ms. any_json (snd m) = None"
    then obtain m where m: "m \<in> set ms" "any_json (snd m) = None" by blast
    then show "None \<in> (\<lambda>(k, v). map_option (Pair k) (any_json v)) ` set ms"
      by (intro rev_image_eqI [OF m(1)]) (simp add: case_prod_unfold)
  qed
  then show ?thesis by (auto simp: all_some_None)
qed

lemma any_lenient_encodable: "any_json (any_lenient c) \<noteq> None"
proof (induction c)
  case (CArr cs)
  then have "None \<notin> any_json ` any_lenient ` set cs" by (metis (no_types, lifting) imageE)
  then show ?case by (simp add: all_some_None image_image)
next
  case (CObj ms)
  have "any_json (snd m) \<noteq> None"
    if "m \<in> set (foldl (\<lambda>m (k, v). map_put k v m) [] (map (\<lambda>(k, v). (unquoted k, any_lenient v)) ms))" for m
  proof -
    from that map_puts_values [of "[]" "map (\<lambda>(k, v). (unquoted k, any_lenient v)) ms"]
    have "snd m \<in> snd ` set (map (\<lambda>(k, v). (unquoted k, any_lenient v)) ms)" by force
    then obtain p where "p \<in> set ms" "snd m = any_lenient (snd p)" by auto
    with CObj.IH [of p "snd p"] show ?thesis by (auto simp: snds.simps)
  qed
  then show ?case unfolding any_lenient.simps any_json_map by blast
qed (simp_all split: option.split)

lemma any_lenient_values: "any_lenient c = VMap ms \<Longrightarrow> any_json (vget ms k) \<noteq> None"
proof -
  assume "any_lenient c = VMap ms"
  with any_lenient_encodable [of c] have "any_json (VMap ms) \<noteq> None" by (simp del: any_json.simps)
  then have "\<forall>m \<in> set ms. any_json (snd m) \<noteq> None" unfolding any_json_map .
  then show ?thesis by (auto simp: vget_def map_get_def dest!: map_of_SomeD split: option.split)
qed

section \<open>Documents with known keys\<close>

definition key_fold :: "string \<Rightarrow> nat list" where "key_fold s = map (\<lambda>c. fold_rune (byte c)) s"

lemma ascii_fold: "is_ascii s \<Longrightarrow> is_ascii u \<Longrightarrow> equal_fold s u \<longleftrightarrow> key_fold s = key_fold u"
  by (simp add: equal_fold_def runes_def segs_ascii comp_def key_fold_def)

lemma key_fold_eval:
  "key_fold [] = []" "key_fold (c # s) = fold_rune (byte c) # key_fold s"
  by (simp_all add: key_fold_def)

text \<open>The members of a document whose keys are ASCII, by the name of a field.\<close>

definition doc_members :: "(string \<times> json) list \<Rightarrow> members" where
  "doc_members ms = map (\<lambda>(k, v). (string_pieces k, cst_of v)) ms"

definition doc_values :: "string \<Rightarrow> (string \<times> json) list \<Rightarrow> json list" where
  "doc_values name ms = map snd (filter (\<lambda>m. key_fold (fst m) = key_fold name) ms)"

lemma doc_values_simps [simp]:
  "doc_values name [] = []"
  "doc_values name ((k, v) # ms) = (if key_fold k = key_fold name then v # doc_values name ms else doc_values name ms)"
  by (simp_all add: doc_values_def)

lemma cst_of_JObj [simp]: "cst_of (JObj ms) = CObj (doc_members ms)"
  by (simp add: doc_members_def)

declare cst_of.simps(6) [simp del]

lemma field_values_doc:
  assumes "list_all (\<lambda>m. is_ascii (fst m)) ms" and "is_ascii name"
  shows "field_values name (doc_members ms) = map cst_of (doc_values name ms)"
  using assms(1)
proof (induction ms)
  case (Cons m ms)
  then have "unquoted (string_pieces (fst m)) = fst m"
    by (simp add: string_round_trip valid_utf8_id utf8_ascii)
  with Cons assms(2) show ?case
    by (cases m) (simp add: field_values_def doc_members_def ascii_fold)
qed (simp add: field_values_def doc_members_def)

text \<open>What a document decodes to.\<close>

lemma any_of_doc [simp]:
  "any_of (cst_of JNull) = Some VNil" "any_of (cst_of (JBool b)) = Some (VBool b)"
  "any_of (cst_of (JStr s)) = Some (VStr (valid_utf8 s))"
  "any_of (cst_of (JArr vs)) = map_option VList (all_some (map (any_of \<circ> cst_of) vs))"
  by (simp_all add: string_round_trip)

lemma any_of_jint: "\<bar>n\<bar> < 2 ^ 53 \<Longrightarrow> any_of (cst_of (jint n)) = Some (VFloat (Fin (of_int n)))"
  by (simp add: jint_def literal_itoa to_double_int)

lemma any_of_members:
  "all_some (map (\<lambda>(k, v). map_option (Pair (unquoted k)) (any_of v)) (doc_members ms))
    = all_some (map (\<lambda>(k, v). map_option (Pair (valid_utf8 k)) (any_of (cst_of v))) ms)"
  by (simp add: doc_members_def comp_def case_prod_unfold string_round_trip)

text \<open>A document that is not nested too deeply is read as it was printed.\<close>

fun doc_depth :: "json \<Rightarrow> nat" where
  "doc_depth (JArr vs) = Suc (foldr max (map doc_depth vs) 0)"
| "doc_depth (JObj ms) = Suc (foldr max (map (\<lambda>m. doc_depth (snd m)) ms) 0)"
| "doc_depth _ = 0"

lemma depth_cst_of: "depth (cst_of d) = doc_depth d"
proof (induction d)
  case (JArr vs)
  then have eq: "map (\<lambda>v. depth (cst_of v)) vs = map doc_depth vs" by simp
  show ?case unfolding cst_of.simps depth.simps doc_depth.simps map_map comp_def eq ..
next
  case (JObj ms)
  have eq: "map (\<lambda>m. depth (cst_of (snd m))) ms = map (\<lambda>m. doc_depth (snd m)) ms"
    using JObj by (fastforce simp: snds.simps)
  show ?case
    unfolding cst_of_JObj doc_members_def depth.simps doc_depth.simps map_map comp_def case_prod_unfold snd_conv eq ..
qed simp_all

lemma unmarshal_marshal:
  "json_ok d \<Longrightarrow> doc_depth d \<le> max_nesting \<Longrightarrow> unmarshal (marshal d) = Some (cst_of d)"
  using unmarshal_print [OF cst_of_ok] by (simp add: marshal_def depth_cst_of)

end
