(* ===== verification/Mcp.thy ===== *)
theory Mcp
  imports GraphQL Workflow Workspace JsonStructs
begin

text \<open>
  Command \<^verbatim>\<open>symphony-lineargql-mcp\<close> (cmd/symphony-lineargql-mcp/main.go): the JSON-RPC loop from
  the bytes of standard input to those of standard output, and the linear_graphql tool behind it.
  JSON is read and written as in JsonValues; the HTTP exchange of the tool is a parameter, as is
  the text of a decoding error. \<open>me_Http k\<close> is the exchange when the \<open>k\<close>-th line is handled.
\<close>

declare cst_of_JObj [simp del] cst_of.simps(6) [simp]

section \<open>The codecs of the tool\<close>

record mcp_env =
  me_Tool :: tool
  me_Http :: "nat \<Rightarrow> http_request \<Rightarrow> (string \<times> int) result"
  me_Error :: "string \<Rightarrow> string"

definition decode_error :: "mcp_env \<Rightarrow> string \<Rightarrow> go_error" where
  "decode_error me s = PlainErr (me_Error me s)"

text \<open>The map of the variables: null empties it, an object is merged into it.\<close>

fun variables_field :: "gvalue option \<Rightarrow> cst list \<Rightarrow> gvalue option option" where
  "variables_field m [] = Some m"
| "variables_field m (CLit w # vs) = (if w = ''null'' then variables_field None vs else None)"
| "variables_field m (CObj ms # vs) =
     (case any_of (CObj ms) of
        Some (VMap xs) \<Rightarrow>
          variables_field (Some (VMap (foldl (\<lambda>m (k, v). map_put k v m)
            (case m of Some (VMap ys) \<Rightarrow> ys | _ \<Rightarrow> []) xs))) vs
      | _ \<Rightarrow> None)"
| "variables_field m (v # vs) = None"

definition unmarshal_input :: "string \<Rightarrow> tool_input option" where
  "unmarshal_input s =
     (case Option.bind (unmarshal s) struct_members of
        None \<Rightarrow> None
      | Some ms \<Rightarrow>
          (case (string_field [] (field_values ''query'' ms), variables_field None (field_values ''variables'' ms)) of
             (Some q, Some vars) \<Rightarrow> Some \<lparr>in_Query = q, in_Variables = vars\<rparr>
           | _ \<Rightarrow> None))"

definition parse_arguments :: "mcp_env \<Rightarrow> string \<Rightarrow> tool_input result" where
  "parse_arguments me raw = ParseInput
     (\<lambda>s. case unmarshal s of Some (CStr ps) \<Rightarrow> Inr (unquoted ps) | _ \<Rightarrow> Inl (decode_error me s))
     (\<lambda>s. case unmarshal_input s of Some inp \<Rightarrow> Inr inp | None \<Rightarrow> Inl (decode_error me s)) raw"

text \<open>The envelope of a GraphQL answer.\<close>

definition decode_envelope :: "string \<Rightarrow> (string \<times> string) option" where
  "decode_envelope body =
     map_option (\<lambda>ms. (raw_field (field_values ''data'' ms), raw_field (field_values ''errors'' ms)))
       (Option.bind (unmarshal body) struct_members)"

definition run_tool :: "mcp_env \<Rightarrow> nat \<Rightarrow> tool_input \<Rightarrow> tool_result" where
  "run_tool me k inp = Execute (tool_post marshal_any (me_Http me k)) decode_envelope (me_Tool me) inp"

text \<open>
  \<^verbatim>\<open>Result\<close> as JSON: empty raw messages and a nil error are left out. A failing encoder gives the
  empty text (its error is ignored).
\<close>

definition omit_empty :: "string \<Rightarrow> string \<Rightarrow> members option" where
  "omit_empty name raw =
     (if raw = [] then Some [] else map_option (\<lambda>c. [(string_pieces name, c)]) (raw_message raw))"

definition result_text :: "tool_result \<Rightarrow> string" where
  "result_text tr =
     (case (omit_empty ''data'' (tr_Data tr), omit_empty ''errors'' (tr_Errors tr)) of
        (Some data, Some errors) \<Rightarrow>
          print_json (CObj ((string_pieces ''success'', cst_of (JBool (tr_Success tr))) # data @ errors
            @ (case tr_Error tr of
                 None \<Rightarrow> []
               | Some (code, msg) \<Rightarrow>
                   [(string_pieces ''error'', cst_of (JObj [(''code'', JStr code), (''message'', JStr msg)]))])))
      | _ \<Rightarrow> [])"

section \<open>main.go\<close>

text \<open>A raw id or params is the text of the value, empty when it is absent.\<close>

record rpc_request =
  rq_ID :: string
  rq_Method :: string
  rq_Params :: string

record rpc_response =
  rp_ID :: string
  rp_Result :: "gvalue option"
  rp_Error :: "(int \<times> string) option"

definition unmarshal_request :: "string \<Rightarrow> rpc_request option" where
  "unmarshal_request line =
     (case Option.bind (unmarshal line) struct_members of
        None \<Rightarrow> None
      | Some ms \<Rightarrow>
          (case (string_field [] (field_values ''jsonrpc'' ms), string_field [] (field_values ''method'' ms)) of
             (Some version, Some m) \<Rightarrow>
               Some \<lparr>rq_ID = raw_field (field_values ''id'' ms), rq_Method = m,
                     rq_Params = raw_field (field_values ''params'' ms)\<rparr>
           | _ \<Rightarrow> None))"

text \<open>The struct \<^verbatim>\<open>rpcResponse\<close> as JSON; a nil id is null.\<close>

definition response_cst :: "rpc_response \<Rightarrow> cst option" where
  "response_cst r =
     (case (raw_message (rp_ID r), case rp_Result r of None \<Rightarrow> Some [] | Some v \<Rightarrow>
              map_option (\<lambda>j. [(string_pieces ''result'', cst_of j)]) (any_json v)) of
        (Some i, Some res) \<Rightarrow>
          Some (CObj ((string_pieces ''jsonrpc'', cst_of (JStr ''2.0'')) # (string_pieces ''id'', i) # res
            @ (case rp_Error r of
                 None \<Rightarrow> []
               | Some (code, msg) \<Rightarrow>
                   [(string_pieces ''error'', cst_of (JObj [(''code'', jint code), (''message'', JStr msg)]))])))
      | _ \<Rightarrow> None)"

definition response_text :: "rpc_response \<Rightarrow> string" where
  "response_text r = (case response_cst r of Some c \<Rightarrow> print_json c | None \<Rightarrow> [])"

definition protocolVersion :: string where "protocolVersion = ''2024-11-05''"

definition toolSchema :: gvalue where
  "toolSchema = VMap
     [(''name'', VStr ''linear_graphql''),
      (''description'', VStr (''Execute a single Linear GraphQL query or mutation using ''
         @ ''Symphony'' @ [CHR 0x27] @ ''s configured tracker auth.'')),
      (''inputSchema'', VMap
        [(''type'', VStr ''object''),
         (''properties'', VMap
           [(''query'', VMap [(''type'', VStr ''string''), (''description'', VStr ''One GraphQL operation.'')]),
            (''variables'', VMap [(''type'', VStr ''object''), (''description'', VStr ''Optional variables.'')])]),
         (''required'', VList [VStr ''query''])])]"

definition toolResult :: "string \<Rightarrow> bool \<Rightarrow> gvalue" where
  "toolResult text isError = VMap
     [(''content'', VList [VMap [(''type'', VStr ''text''), (''text'', VStr text)]]),
      (''isError'', VBool isError)]"

definition invalid_input_text :: "string \<Rightarrow> string" where
  \<open>invalid_input_text msg =
     ''{"success":false,"error":{"code":"invalid_input","message":'' @ go_quote msg @ ''}}''\<close>

definition unsupported_tool_text :: "string \<Rightarrow> string" where
  \<open>unsupported_tool_text name =
     ''{"success":false,"error":{"code":"unsupported_tool","message":"unsupported tool: '' @ name @ ''"}}''\<close>

definition unmarshal_params :: "string \<Rightarrow> (string \<times> string) option" where
  "unmarshal_params s =
     (case Option.bind (unmarshal s) struct_members of
        None \<Rightarrow> None
      | Some ms \<Rightarrow>
          map_option (\<lambda>name. (name, raw_field (field_values ''arguments'' ms)))
            (string_field [] (field_values ''name'' ms)))"

definition callTool :: "mcp_env \<Rightarrow> nat \<Rightarrow> string \<Rightarrow> gvalue" where
  "callTool me k params =
     (case unmarshal_params params of
        None \<Rightarrow> toolResult (invalid_input_text (me_Error me params)) True
      | Some (name, arguments) \<Rightarrow>
          if name \<noteq> ''linear_graphql'' then toolResult (unsupported_tool_text name) True
          else (case parse_arguments me arguments of
                  Inl e \<Rightarrow> toolResult (invalid_input_text (error_string e)) True
                | Inr inp \<Rightarrow>
                    (let res = run_tool me k inp in toolResult (result_text res) (\<not> tr_Success res))))"

definition mcp_handle :: "mcp_env \<Rightarrow> nat \<Rightarrow> rpc_request \<Rightarrow> rpc_response option" where
  "mcp_handle me k req =
     (let answer = (\<lambda>v. Some \<lparr>rp_ID = rq_ID req, rp_Result = Some v, rp_Error = None\<rparr>)
      in if rq_Method req = ''initialize'' then
           answer (VMap [(''protocolVersion'', VStr protocolVersion),
             (''capabilities'', VMap [(''tools'', VMap [])]),
             (''serverInfo'', VMap [(''name'', VStr ''symphony-lineargql''), (''version'', VStr ''1.0.0'')])])
         else if rq_Method req = ''notifications/initialized'' then None
         else if rq_Method req = ''tools/list'' then answer (VMap [(''tools'', VList [toolSchema])])
         else if rq_Method req = ''tools/call'' then answer (callTool me k (rq_Params req))
         else if rq_ID req = [] then None
         else Some \<lparr>rp_ID = rq_ID req, rp_Result = None,
                    rp_Error = Some (-32601, ''method not found: '' @ rq_Method req)\<rparr>)"

text \<open>The loop of \<^verbatim>\<open>main\<close> over the lines; \<open>k\<close> counts them. \<open>mcp_main\<close> is what is written.\<close>

fun mcp_loop :: "mcp_env \<Rightarrow> nat \<Rightarrow> string list \<Rightarrow> rpc_response list" where
  "mcp_loop me k [] = []"
| "mcp_loop me k (line # rest) =
     (if line = [] then mcp_loop me (Suc k) rest
      else case unmarshal_request line of
             None \<Rightarrow> mcp_loop me (Suc k) rest
           | Some req \<Rightarrow>
               (case mcp_handle me k req of
                  None \<Rightarrow> mcp_loop me (Suc k) rest
                | Some resp \<Rightarrow> resp # mcp_loop me (Suc k) rest))"

definition mcp_main :: "mcp_env \<Rightarrow> string \<Rightarrow> string" where
  "mcp_main me stdin = write_lines (map response_text (mcp_loop me 0 (scan_lines stdin)))"

section \<open>Lemmas\<close>

definition methods :: "string set" where "methods = {''initialize'', ''tools/list'', ''tools/call''}"

definition answered :: "rpc_request \<Rightarrow> bool" where
  "answered req \<longleftrightarrow> rq_Method req \<noteq> ''notifications/initialized'' \<and> (rq_ID req \<noteq> [] \<or> rq_Method req \<in> methods)"

lemma mcp_handle_answered: "mcp_handle me k req = None \<longleftrightarrow> \<not> answered req"
  by (simp add: mcp_handle_def answered_def methods_def Let_def)

fun requests :: "string list \<Rightarrow> rpc_request list" where
  "requests [] = []"
| "requests (l # ls) =
     (if l = [] then requests ls
      else case unmarshal_request l of None \<Rightarrow> requests ls | Some req \<Rightarrow> req # requests ls)"

text \<open>The document of an answer, as a reader gets it.\<close>

definition response_doc :: "rpc_response \<Rightarrow> json" where
  "response_doc r = JObj
     ([(''jsonrpc'', JStr ''2.0''), (''id'', raw_doc (rp_ID r))]
      @ (case Option.bind (rp_Result r) any_json of None \<Rightarrow> [] | Some j \<Rightarrow> [(''result'', clean_doc j)])
      @ (case rp_Error r of
           None \<Rightarrow> []
         | Some (code, msg) \<Rightarrow>
             [(''error'', JObj [(''code'', jint code), (''message'', JStr (valid_utf8 msg))])]))"

lemma ascii_keys: "valid_utf8 ''jsonrpc'' = ''jsonrpc''" "valid_utf8 ''id'' = ''id''" "valid_utf8 ''result'' = ''result''"
    "valid_utf8 ''error'' = ''error''" "valid_utf8 ''code'' = ''code''" "valid_utf8 ''message'' = ''message''"
    "valid_utf8 ''2.0'' = ''2.0''"
  by (simp_all add: valid_utf8_id utf8_ascii)

lemma response_reads_back:
  assumes "raw_ok (rp_ID r)" and "\<And>v. rp_Result r = Some v \<Longrightarrow> any_json v \<noteq> None"
  shows "read_doc (response_text r) = Some (response_doc r)" and "linefeed \<notin> set (response_text r)"
proof -
  obtain i where i: "raw_message (rp_ID r) = Some i" "cst_ok i" "doc_of i = raw_doc (rp_ID r)"
    using raw_ok_message [OF assms(1)] by blast
  define e where "e = (case rp_Error r of
      None \<Rightarrow> [] | Some (code, msg) \<Rightarrow>
        [(string_pieces ''error'', cst_of (JObj [(''code'', jint code), (''message'', JStr msg)]))])"
  have e_ok: "\<forall>m \<in> set e. list_all piece_ok (fst m) \<and> cst_ok (snd m)"
    by (auto simp: e_def string_pieces_ok jint_def itoa_number [unfolded json_number_def] split: option.splits)
  have e_doc: "map (\<lambda>(k, v). (unquoted k, doc_of v)) e = (case rp_Error r of
      None \<Rightarrow> [] | Some (code, msg) \<Rightarrow>
        [(''error'', JObj [(''code'', jint code), (''message'', JStr (valid_utf8 msg))])])"
    by (simp add: e_def string_round_trip ascii_keys jint_def split: option.split)
  have "\<exists>c. response_cst r = Some c \<and> cst_ok c \<and> doc_of c = response_doc r"
  proof (cases "rp_Result r")
    case None
    then show ?thesis
      using i e_ok e_doc by (auto simp: response_cst_def response_doc_def string_pieces_ok string_round_trip ascii_keys e_def [symmetric])
  next
    case (Some v)
    then obtain j where j: "any_json v = Some j" using assms(2) by blast
    with any_json_ok [OF j] Some i e_ok e_doc show ?thesis
      by (auto simp: response_cst_def response_doc_def string_pieces_ok string_round_trip ascii_keys cst_of_ok
          doc_of_cst_of e_def [symmetric])
  qed
  then obtain c where c: "response_cst r = Some c" "cst_ok c" "doc_of c = response_doc r" by blast
  then show "read_doc (response_text r) = Some (response_doc r)"
    using read_print [OF c(2), of "[]"] by (simp add: response_text_def read_doc_def ends_word_def)
  show "linefeed \<notin> set (response_text r)"
    using print_printable [OF c(2)] c(1) by (auto simp: response_text_def linefeed_def)
qed

lemma tool_result_plain: "plain_any (toolResult s b)"
  by (simp add: toolResult_def)

lemma callTool_plain: "plain_any (callTool me k p)"
  by (simp add: callTool_def tool_result_plain Let_def split: option.split sum.split prod.split)

lemma mcp_handle_result:
  assumes "mcp_handle me k req = Some r"
  shows "rp_ID r = rq_ID req" and "(rp_Result r \<noteq> None) = (rq_Method req \<in> methods)"
    and "(rp_Error r \<noteq> None) = (rq_Method req \<notin> methods)" and "\<And>v. rp_Result r = Some v \<Longrightarrow> any_json v \<noteq> None"
proof -
  show "rp_ID r = rq_ID req" "(rp_Result r \<noteq> None) = (rq_Method req \<in> methods)"
    "(rp_Error r \<noteq> None) = (rq_Method req \<notin> methods)"
    using assms by (auto simp: mcp_handle_def methods_def Let_def split: if_splits)
  fix v assume "rp_Result r = Some v"
  then have "plain_any v"
    using assms by (auto simp: mcp_handle_def Let_def toolSchema_def callTool_plain split: if_splits)
  then show "any_json v \<noteq> None" by (rule plain_any_encodable)
qed

lemma unmarshal_request_raw: "unmarshal_request l = Some req \<Longrightarrow> raw_ok (rq_ID req)"
  by (auto simp: unmarshal_request_def bind_eq_Some_conv field_raw_ok split: option.splits)

text \<open>What the document of an answer says about its request.\<close>

fun has_member :: "string \<Rightarrow> json \<Rightarrow> bool" where
  "has_member k (JObj ms) = (map_of ms k \<noteq> None)"
| "has_member k v = False"

definition answers :: "json \<Rightarrow> rpc_request \<Rightarrow> bool" where
  "answers d req \<longleftrightarrow> member ''jsonrpc'' d = JStr ''2.0'' \<and> member ''id'' d = raw_doc (rq_ID req)
     \<and> has_member ''result'' d = (rq_Method req \<in> methods)
     \<and> has_member ''error'' d = (rq_Method req \<notin> methods)"

lemma response_answers:
  assumes "mcp_handle me k req = Some r"
  shows "answers (response_doc r) req"
proof (cases "rq_Method req \<in> methods")
  case True
  with mcp_handle_result [OF assms] obtain v j where
    "rp_Result r = Some v" "any_json v = Some j" "rp_Error r = None" by fastforce
  with True mcp_handle_result(1) [OF assms] show ?thesis by (simp add: answers_def response_doc_def)
next
  case False
  with mcp_handle_result [OF assms] obtain e where "rp_Result r = None" "rp_Error r = Some e" by fastforce
  with False mcp_handle_result(1) [OF assms] show ?thesis
    by (cases e) (simp add: answers_def response_doc_def)
qed

lemma mcp_loop_reads_back:
  "list_all2 (\<lambda>s req. linefeed \<notin> set s \<and> (\<exists>d. read_doc s = Some d \<and> answers d req))
     (map response_text (mcp_loop me k ls)) (filter answered (requests ls))"
proof (induction me k ls rule: mcp_loop.induct)
  case (2 me k line rest)
  show ?case
  proof (cases "line = []")
    case False
    show ?thesis
    proof (cases "unmarshal_request line")
      case (Some req)
      show ?thesis
      proof (cases "mcp_handle me k req")
        case None
        with False Some 2 mcp_handle_answered [of me k req] show ?thesis by simp
      next
        case r: (Some r)
        have "raw_ok (rp_ID r)"
          using unmarshal_request_raw [OF Some] mcp_handle_result(1) [OF r] by simp
        note reads = response_reads_back [OF this mcp_handle_result(4) [OF r]]
        with False Some r 2 mcp_handle_answered [of me k req] response_answers [OF r] show ?thesis by simp
      qed
    qed (use False 2 in simp)
  qed (use 2 in simp)
qed simp

section \<open>Properties\<close>

text \<open>
  C25: From bytes to bytes: whatever lines a client writes, what the server writes is one line
  for each request that asks for an answer, in order, and each line is a JSON document that a
  reader decodes to a version 2.0 answer under the very id of its request (null if it has none),
  with a result exactly if the method is known and an error exactly if it is not. Lines that
  are empty or do not decode and notifications get no answer.
\<close>

theorem mcp_answers_requests:
  assumes "list_all line_ok ls"
  shows "\<exists>answer_lines. mcp_main me (write_lines ls) = write_lines answer_lines
    \<and> list_all2 (\<lambda>s req. linefeed \<notin> set s \<and> (\<exists>d. read_doc s = Some d \<and> answers d req))
        answer_lines (filter answered (requests (map dropCR ls)))"
  using scan_write_lines [OF assms, of "[]"] mcp_loop_reads_back [of me 0 "map dropCR ls"]
  by (auto simp: mcp_main_def)

definition ex_me :: mcp_env where
  \<open>ex_me = \<lparr>me_Tool = tool_New [] ''k'', me_Http = (\<lambda>k rq. Inr (''{"data":{"x":1}}'', 200)), me_Error = (\<lambda>s. ''bad'')\<rparr>\<close>

definition ex_literal :: "string \<Rightarrow> jpiece list" where "ex_literal s = map Byte s"

definition ex_request :: "string \<Rightarrow> string \<Rightarrow> cst" where
  "ex_request i m = CObj ([(ex_literal ''method'', CStr (ex_literal m))]
     @ (if i = [] then [] else [(ex_literal ''id'', CNum i)]))"

lemma ex_request_unmarshal:
  assumes "cst_ok (ex_request i m)" and "is_ascii m"
  shows "unmarshal_request (print_json (ex_request i m)) = Some \<lparr>rq_ID = i, rq_Method = m, rq_Params = []\<rparr>"
proof -
  have u: "unmarshal (print_json (ex_request i m)) = Some (ex_request i m)"
    using assms(1) by (intro unmarshal_print) (simp_all add: ex_request_def max_nesting_def)
  have s: "unquote [] (ex_literal s) = s" if "is_ascii s" for s
    using unquote_bytes [of "[]" s "[]"] that by (simp add: ex_literal_def valid_utf8_id utf8_ascii)
  have f: "equal_fold ''method'' ''method''" "equal_fold ''id'' ''id''" "\<not> equal_fold ''method'' ''id''"
    "\<not> equal_fold ''method'' ''jsonrpc''" "\<not> equal_fold ''method'' ''params''" "\<not> equal_fold ''id'' ''method''"
    "\<not> equal_fold ''id'' ''jsonrpc''" "\<not> equal_fold ''id'' ''params''"
    by (simp_all add: ascii_fold key_fold_def fold_rune_def lower_rune_def fold_exceptions_def)
  show ?thesis
    unfolding unmarshal_request_def u
    using s [OF assms(2)] s [of "''method''"] s [of "''id''"] f
    by (cases "i = []") (simp_all add: ex_request_def struct_members_def field_values_def raw_field_def)
qed

lemma ex_request_ok: "list_all piece_ok (ex_literal m) \<Longrightarrow> i = [] \<or> json_number i \<Longrightarrow> cst_ok (ex_request i m)"
  by (auto simp: ex_request_def ex_literal_def json_number_def jquote_def jslash_def)

theorem mcp_answers_requests_witness:
  "\<exists>s d. mcp_main ex_me (write_lines [print_json (ex_request ''7'' ''tools/list''), []]) = write_lines [s]
     \<and> read_doc s = Some d \<and> member ''id'' d = JNum ''7'' \<and> has_member ''result'' d"
proof -
  let ?l = "print_json (ex_request ''7'' ''tools/list'')"
  let ?r = "\<lparr>rq_ID = ''7'', rq_Method = ''tools/list'', rq_Params = []\<rparr>"
  have num: "json_number ''7''"
    by (simp add: json_number_def number_char_def is_digit_def number_ok_def exp_ok_def)
  have cst: "cst_ok (ex_request ''7'' ''tools/list'')"
    using num by (intro ex_request_ok) (auto simp: ex_literal_def jquote_def jslash_def)
  have "length ?l = 30" by (simp add: ex_request_def ex_literal_def quoted_def literal_text_def)
  moreover have "linefeed \<notin> set ?l" using print_printable [OF cst] by (auto simp: linefeed_def)
  ultimately have ok: "list_all line_ok [?l, []]" by (simp add: line_ok_def max_line_def)
  have drop: "dropCR ?l = ?l" "?l \<noteq> []" "dropCR [] = []"
    by (simp_all add: dropCR_def carriage_def ex_request_def ex_literal_def quoted_def literal_text_def)
  have asked: "filter answered (requests (map dropCR [?l, []])) = [?r]"
    using drop ex_request_unmarshal [OF cst] by (simp add: answered_def)
  obtain ss where ss: "mcp_main ex_me (write_lines [?l, []]) = write_lines ss"
    "list_all2 (\<lambda>s req. linefeed \<notin> set s \<and> (\<exists>d. read_doc s = Some d \<and> answers d req)) ss [?r]"
    using mcp_answers_requests [OF ok, of ex_me] unfolding asked by blast
  then obtain s d where s: "ss = [s]" "read_doc s = Some d" "answers d ?r"
    by (auto simp: list_all2_Cons2)
  have "raw_doc ''7'' = JNum ''7''"
    using read_print [of "CNum ''7''" "[]"] num
    by (simp add: raw_doc_def read_doc_def json_number_def ends_word_def)
  with ss(1) s show ?thesis by (intro exI [of _ s] exI [of _ d]) (simp add: answers_def methods_def)
qed

text \<open>
  A tool call never ends in a protocol error: it always has a result, and one that is
  not marked as an error means that the tool was linear_graphql, that its arguments held one
  operation, that a key is configured, and that the tracker answered with status 200 and
  no GraphQL errors; the text is then the tool's own result.
\<close>

lemma tool_call_outcome:
  "\<exists>text err. callTool me k params = toolResult text err
    \<and> (\<not> err \<longrightarrow> (\<exists>args inp body data errors. unmarshal_params params = Some (''linear_graphql'', args)
        \<and> parse_arguments me args = Inr inp \<and> countOperations (in_Query inp) = 1
        \<and> trim_space (tl_apiKey (me_Tool me)) \<noteq> []
        \<and> tool_post marshal_any (me_Http me k) (me_Tool me) inp = Inr (body, 200)
        \<and> decode_envelope body = Some (data, errors) \<and> errors \<in> {[], ''null''}
        \<and> text = result_text (run_tool me k inp)))"
proof (cases "unmarshal_params params")
  case None
  then show ?thesis by (auto simp: callTool_def)
next
  case (Some p)
  obtain name args where p: "p = (name, args)" by (cases p)
  show ?thesis
  proof (cases "name = ''linear_graphql''")
    case False
    then show ?thesis using Some p by (auto simp: callTool_def)
  next
    case True
    show ?thesis
    proof (cases "parse_arguments me args")
      case (Inl e)
      then show ?thesis using Some p True by (auto simp: callTool_def)
    next
      case inp: (Inr inp)
      have "callTool me k params = toolResult (result_text (run_tool me k inp)) (\<not> tr_Success (run_tool me k inp))"
        using Some p True inp by (simp add: callTool_def Let_def)
      moreover have "tr_Success (run_tool me k inp) \<Longrightarrow>
          countOperations (in_Query inp) = 1 \<and> trim_space (tl_apiKey (me_Tool me)) \<noteq> []
          \<and> (\<exists>body data errors. tool_post marshal_any (me_Http me k) (me_Tool me) inp = Inr (body, 200)
               \<and> decode_envelope body = Some (data, errors) \<and> errors \<in> {[], ''null''})"
        using Execute_success [of "tool_post marshal_any (me_Http me k)" decode_envelope "me_Tool me" inp]
        unfolding run_tool_def by blast
      ultimately show ?thesis using Some p True inp by blast
    qed
  qed
qed

section \<open>Limits\<close>

text \<open>
  The text of a refused call is JSON put together by hand. The name is inserted as it is, so a
  quote in it ends the message and adds members of its own; and a message quoted with \<^verbatim>\<open>%q\<close>
  may hold escapes that JSON does not have.
\<close>

lemma tool_name_injects:
  shows \<open>unsupported_tool_text ''x"},"success":true,"y":{"z":"'' =
     ''{"success":false,"error":{"code":"unsupported_tool","message":"unsupported tool: x"},"success":true,"y":{"z":""}}''\<close>
  by (simp add: unsupported_tool_text_def)

lemma quoted_message_not_json: "go_quote [CHR 0x07] = [CHR 0x22, CHR 0x5C, CHR ''a'', CHR 0x22]"
  by (simp add: go_quote_def segs_ascii is_ascii_def quote_ascii_def Let_def)

text \<open>A line of ten megabytes or more ends the service: what follows is never read.\<close>

lemma long_line_ends_server:
  assumes "list_all line_ok ls" and "max_line \<le> length l" and "linefeed \<notin> set l"
  shows "mcp_main me (write_lines ls @ l @ s) = mcp_main me (write_lines ls)"
  using scan_write_lines [OF assms(1), of "l @ s"] scan_write_lines [OF assms(1), of "[]"]
    scan_long_line [OF assms(2,3)] by (simp add: mcp_main_def)

text \<open>A call without an id is a notification to the protocol; it is run and answered all the same.\<close>

lemma call_without_id_answered:
  "rq_Method req = ''tools/call'' \<Longrightarrow> rq_ID req = [] \<Longrightarrow> mcp_handle me k req \<noteq> None"
  by (simp add: mcp_handle_def Let_def)

end
