(* ===== verification/Flags.thy ===== *)
theory Flags
  imports GoStrings
begin

text \<open>
  The command line of the daemon (the two flags of cmd/symphony/main.go) as \<^verbatim>\<open>flag.Parse\<close> reads it:
  the syntax of flags, \<^verbatim>\<open>strconv.ParseInt\<close> with base 0 for the port, and what a wrong command
  line does (\<^verbatim>\<open>flag.ExitOnError\<close>: exit code 2, or 0 after the help text).
\<close>

section \<open>strconv.ParseInt with base 0\<close>

definition lower_byte :: "char \<Rightarrow> nat" where
  "lower_byte c = (if 65 \<le> byte c \<and> byte c \<le> 90 then byte c + 32 else byte c)"

text \<open>The value of a digit or a letter in any base up to 36.\<close>

definition digit_value :: "char \<Rightarrow> nat option" where
  "digit_value c =
     (if is_digit c then Some (byte c - 48)
      else if 97 \<le> lower_byte c \<and> lower_byte c \<le> 122 then Some (lower_byte c - 87) else None)"

text \<open>The digits of a number in a base, underscores skipped.\<close>

fun base_value :: "nat \<Rightarrow> nat \<Rightarrow> string \<Rightarrow> nat option" where
  "base_value b n [] = Some n"
| "base_value b n (c # cs) =
     (if c = CHR ''_'' then base_value b n cs
      else case digit_value c of
             None \<Rightarrow> None
           | Some d \<Rightarrow> if b \<le> d then None else base_value b (n * b + d) cs)"

text \<open>The prefix says the base: 0x, 0o and 0b with a digit after them, or a leading 0 for octal.\<close>

definition base_prefix :: "string \<Rightarrow> nat \<times> string" where
  "base_prefix s =
     (if take 1 s \<noteq> ''0'' then (10, s)
      else if 3 \<le> length s \<and> lower_byte (s ! 1) = 98 then (2, drop 2 s)
      else if 3 \<le> length s \<and> lower_byte (s ! 1) = 111 then (8, drop 2 s)
      else if 3 \<le> length s \<and> lower_byte (s ! 1) = 120 then (16, drop 2 s)
      else (8, drop 1 s))"

text \<open>\<^verbatim>\<open>underscoreOK\<close>: an underscore stands between digits (the prefix counts as one).\<close>

datatype seen = SStart | SDigit | SUnderscore | SOther

fun underscores_ok :: "bool \<Rightarrow> seen \<Rightarrow> string \<Rightarrow> bool" where
  "underscores_ok hex i [] = (i \<noteq> SUnderscore)"
| "underscores_ok hex i (c # cs) =
     (if is_digit c \<or> hex \<and> 97 \<le> lower_byte c \<and> lower_byte c \<le> 102 then underscores_ok hex SDigit cs
      else if c = CHR ''_'' then i = SDigit \<and> underscores_ok hex SUnderscore cs
      else i \<noteq> SUnderscore \<and> underscores_ok hex SOther cs)"

definition underscoreOK :: "string \<Rightarrow> bool" where
  "underscoreOK s =
     (let u = (if take 1 s = ''-'' \<or> take 1 s = ''+'' then drop 1 s else s)
      in if 2 \<le> length u \<and> take 1 u = ''0'' \<and> lower_byte (u ! 1) \<in> {98, 111, 120}
         then underscores_ok (lower_byte (u ! 1) = 120) SDigit (drop 2 u)
         else underscores_ok False SStart u)"

definition parse_int0 :: "string \<Rightarrow> int option" where
  "parse_int0 s =
     (let neg = (take 1 s = ''-''); u = (if take 1 s = ''-'' \<or> take 1 s = ''+'' then drop 1 s else s)
      in if u = [] then None
         else case base_value (fst (base_prefix u)) 0 (snd (base_prefix u)) of
                None \<Rightarrow> None
              | Some n \<Rightarrow>
                  if CHR ''_'' \<in> set u \<and> \<not> underscoreOK u then None
                  else let v = (if neg then - int n else int n) in if in_int64 v then Some v else None)"

section \<open>flag.Parse\<close>

record flags =
  fl_Port :: int
  fl_Status :: bool

text \<open>What parsing ends with: the flags and the remaining arguments, the help text, or an error.\<close>

datatype parsed = Parsed flags "string list" | Help | BadFlag

text \<open>\<^verbatim>\<open>-name=value\<close>: the name, and the value if there is an equals sign after its first byte.\<close>

definition split_flag :: "string \<Rightarrow> string \<times> string option" where
  "split_flag name =
     (let k = length (takeWhile (\<lambda>c. c \<noteq> CHR ''='') (tl name))
      in if Suc k < length name then (take (Suc k) name, Some (drop (Suc (Suc k)) name)) else (name, None))"

text \<open>A flag starts with one or two dashes and has a name.\<close>

definition flag_name :: "string \<Rightarrow> string option" where
  "flag_name s =
     (let name = (if take 2 s = ''--'' then drop 2 s else drop 1 s)
      in if name = [] \<or> hd name \<in> set ''-='' then None else Some name)"

fun flag_Parse :: "flags \<Rightarrow> string list \<Rightarrow> parsed" where
  "flag_Parse fl [] = Parsed fl []"
| "flag_Parse fl (s # args) =
     (if length s < 2 \<or> take 1 s \<noteq> ''-'' then Parsed fl (s # args)
      else if s = ''--'' then Parsed fl args
      else case flag_name s of
             None \<Rightarrow> BadFlag
           | Some name \<Rightarrow>
               (case split_flag name of (n, v) \<Rightarrow>
                  if n = ''status'' then
                    (case v of
                       None \<Rightarrow> flag_Parse (fl\<lparr>fl_Status := True\<rparr>) args
                     | Some w \<Rightarrow>
                         (case parse_bool w of
                            None \<Rightarrow> BadFlag | Some b \<Rightarrow> flag_Parse (fl\<lparr>fl_Status := b\<rparr>) args))
                  else if n = ''port'' then
                    (case v of
                       Some w \<Rightarrow>
                         (case parse_int0 w of
                            None \<Rightarrow> BadFlag | Some p \<Rightarrow> flag_Parse (fl\<lparr>fl_Port := p\<rparr>) args)
                     | None \<Rightarrow>
                         (case args of
                            [] \<Rightarrow> BadFlag
                          | w # rest \<Rightarrow>
                              (case parse_int0 w of
                                 None \<Rightarrow> BadFlag | Some p \<Rightarrow> flag_Parse (fl\<lparr>fl_Port := p\<rparr>) rest)))
                  else if n = ''help'' \<or> n = ''h'' then Help else BadFlag))"

text \<open>The defaults of the two flags.\<close>

definition default_flags :: flags where
  "default_flags = \<lparr>fl_Port = -1, fl_Status = False\<rparr>"

section \<open>Ports\<close>

lemma base_value_10:
  "list_all is_digit ds \<Longrightarrow> base_value 10 n ds = Some (foldl (\<lambda>n c. n * 10 + (byte c - 48)) n ds)"
  by (induction ds arbitrary: n) (auto simp: digit_value_def is_digit_def)

lemma nat_digits_value: "foldl (\<lambda>n c. n * 10 + (byte c - 48)) 0 (nat_digits n) = n"
proof (induction n rule: nat_digits.induct)
  case (1 n)
  then show ?case by (subst nat_digits.simps) (simp add: Let_def)
qed

lemma parse_int0_itoa:
  assumes "0 \<le> n" and "in_int64 n"
  shows "parse_int0 (itoa n) = Some n"
proof -
  let ?ds = "nat_digits (nat n)"
  note digits = nat_digits_digits [of "nat n"]
  have i: "itoa n = ?ds" using assms(1) by (simp add: itoa_def)
  have first: "is_digit (hd ?ds)" using digits by (cases ?ds) auto
  then have sign: "take 1 ?ds \<noteq> ''-''" "take 1 ?ds \<noteq> ''+''" by (cases ?ds; auto simp: is_digit_def)+
  have under: "CHR ''_'' \<notin> set ?ds" using digits by (auto simp: list_all_iff is_digit_def)
  have "base_value (fst (base_prefix ?ds)) 0 (snd (base_prefix ?ds)) = Some (nat n)"
  proof (cases "n = 0")
    case True
    then show ?thesis by (simp add: nat_digits_zero base_prefix_def)
  next
    case False
    with assms(1) have "hd ?ds \<noteq> CHR ''0''" by (intro nat_digits_head) simp
    then have "base_prefix ?ds = (10, ?ds)" by (cases ?ds) (auto simp: base_prefix_def)
    then show ?thesis using base_value_10 [OF digits, of 0] nat_digits_value [of "nat n"] by simp
  qed
  with assms sign under show ?thesis by (simp add: parse_int0_def i Let_def)
qed

text \<open>The command line that says everything is read as it was meant, whatever the arguments look like.\<close>

lemma flag_Parse_canonical:
  assumes "0 \<le> n" and "in_int64 n"
  shows "flag_Parse default_flags ([''-port'', itoa n] @ (if st then [''-status''] else []) @ ''--'' # args)
    = Parsed \<lparr>fl_Port = n, fl_Status = st\<rparr> args"
  using parse_int0_itoa [OF assms] by (simp add: flag_name_def split_flag_def default_flags_def)

end
