(* ===== verification/Startup.thy ===== *)
theory Startup
  imports Workflow HttpServer Samples Logging Flags
begin

text \<open>
  The composition root (cmd/symphony/main.go) and package \<^verbatim>\<open>watcher\<close>: what a start does up to
  the event loop and with which exit code it ends, the debounced watch of the workflow file,
  and the reload it posts. File system, environment, YAML decoder and listener are parameters.
\<close>

section \<open>main.go\<close>

text \<open>\<^verbatim>\<open>filepath.Dir\<close>.\<close>

definition path_dir :: "string \<Rightarrow> string" where
  "path_dir p = path_clean (rev (dropWhile (\<lambda>c. c \<noteq> path_sep) (rev p)))"

definition resolvePort :: "int \<Rightarrow> config \<Rightarrow> int option" where
  "resolvePort cliPort cfg =
     (if 0 \<le> cliPort then Some cliPort
      else if sv_PortSet (c_Server cfg) then Some (sv_Port (c_Server cfg)) else None)"

record host =
  ho_OS :: os_env
  ho_YAML :: "string \<Rightarrow> gvalue result"
  ho_Listen :: "string \<Rightarrow> string result"
  ho_Env :: env

datatype started = SWatcher string | SStatus | SHttp int | SLoop orch | SLog log_record

definition failed_record :: "string \<Rightarrow> go_error \<Rightarrow> log_record" where
  "failed_record msg e = log_Error msg [(''outcome'', ''failed''), (''error'', error_string e)]"

text \<open>\<^verbatim>\<open>logRoutingSummary\<close> of the orchestrator: one record for each active state.\<close>

definition logRoutingSummary :: "config \<Rightarrow> log_record list" where
  "logRoutingSummary cfg = map (\<lambda>state. log_Info ''state routing''
     [(''state'', state), (''prompt_mode'', promptMode cfg state), (''model'', ModelForState cfg state),
      (''reasoning_effort'', ReasoningEffortForState cfg state), (''max_turns'', itoa (MaxTurnsForState cfg state))])
     (tc_ActiveStates (c_Tracker cfg))"

text \<open>
  \<^verbatim>\<open>run\<close>: what it starts and logs, in order, and its exit code; the event loop itself, once entered,
  ends only by the signal, with code 0. (The records of the clean-up at the start and of the
  handlers are left out.)
\<close>

definition main_fails :: "started list \<Rightarrow> string \<Rightarrow> go_error \<Rightarrow> started list \<times> nat" where
  "main_fails up msg e = (up @ [SLog (failed_record msg e)], 1)"

definition main_loop :: "env \<Rightarrow> orch \<Rightarrow> started list \<Rightarrow> started list \<times> nat" where
  "main_loop env ob up =
     (case run_startup env ob of
        Inl e \<Rightarrow> main_fails (up @ [SLog (failed_record ''startup validation failed'' e)])
          ''orchestrator exited abnormally'' e
      | Inr ob' \<Rightarrow>
          (up @ map SLog (logRoutingSummary (o_cfg ob))
            @ [SLoop ob', SLog (log_Info ''shutdown complete'' [(''outcome'', ''completed'')])], 0))"

definition main_run :: "host \<Rightarrow> string list \<Rightarrow> int \<Rightarrow> bool \<Rightarrow> started list \<times> nat" where
  "main_run h args port showStatus =
     (let workflowPath = (case args of [] \<Rightarrow> ''WORKFLOW.md'' | a # _ \<Rightarrow> a)
      in case path_abs (os_Getwd (ho_OS h)) workflowPath of
           Inl e \<Rightarrow> main_fails [] ''resolve workflow path failed'' e
         | Inr absPath \<Rightarrow>
      (case workflow_Load (os_ReadFile (ho_OS h)) (ho_YAML h) absPath of
           Inl e \<Rightarrow> main_fails [] ''workflow load failed'' e
         | Inr def \<Rightarrow>
      (case config_New (ho_OS h) (wd_Config def) (path_dir absPath) of
           Inl e \<Rightarrow> main_fails [] ''config build failed'' e
         | Inr cfg \<Rightarrow>
      (case orch_New cfg (wd_PromptTemplate def) of
           Inl e \<Rightarrow> main_fails [] ''orchestrator init failed'' e
         | Inr ob \<Rightarrow>
           (let base = SWatcher absPath # (if showStatus then [SStatus] else [])
            in case resolvePort port cfg of
                 None \<Rightarrow> main_loop (ho_Env h) ob base
               | Some p \<Rightarrow>
                   (case server_Start (ho_Listen h) p of
                      Inl e \<Rightarrow> main_fails base ''http server start failed'' e
                    | Inr addr \<Rightarrow> main_loop (ho_Env h) ob
                        (base @ [SHttp p, SLog (log_Info ''http server started'' [(''addr'', addr)])])))))))"

text \<open>The process: \<^verbatim>\<open>main\<close> with the parsing of its command line.\<close>

definition symphony :: "host \<Rightarrow> string list \<Rightarrow> started list \<times> nat" where
  "symphony h argv =
     (case flag_Parse default_flags argv of
        Parsed fl args \<Rightarrow> main_run h args (fl_Port fl) (fl_Status fl)
      | Help \<Rightarrow> ([], 0)
      | BadFlag \<Rightarrow> ([], 2))"

section \<open>watcher.go\<close>

text \<open>\<^verbatim>\<open>reload\<close>: the event it posts, if any; \<open>room\<close> says whether the channel takes it.\<close>

definition watcher_reload :: "os_env \<Rightarrow> (string \<Rightarrow> gvalue result) \<Rightarrow> string \<Rightarrow> bool \<Rightarrow> event option" where
  "watcher_reload os yaml path room =
     (case workflow_Load (os_ReadFile os) yaml path of
        Inl e \<Rightarrow> None
      | Inr def \<Rightarrow>
      (case config_New os (wd_Config def) (path_dir path) of
        Inl e \<Rightarrow> None
      | Inr cfg \<Rightarrow>
      (case ValidateDispatch cfg of
        Some e \<Rightarrow> None
      | None \<Rightarrow> if room then Some (ReloadConfig cfg (wd_PromptTemplate def)) else None)))"

text \<open>
  The loop of \<^verbatim>\<open>Run\<close> over what it receives, with the time of each (in milliseconds), and the
  debounce timer as its due time; the result lists the times at which \<^verbatim>\<open>reload\<close> is run. A timer
  due when the next input arrives has fired. The end of the context stops the timer, a closed
  event channel does not.
\<close>

datatype watch_input = WName string | WError | WClosed | WDone

definition debounce_ms :: int where "debounce_ms = 150"

definition fired :: "int \<Rightarrow> int option \<Rightarrow> int list" where
  "fired now due = (case due of Some d \<Rightarrow> if d \<le> now then [d] else [] | None \<Rightarrow> [])"

definition still_due :: "int \<Rightarrow> int option \<Rightarrow> int option" where
  "still_due now due = (case due of Some d \<Rightarrow> if d \<le> now then None else Some d | None \<Rightarrow> None)"

definition pending :: "int option \<Rightarrow> int list" where
  "pending due = (case due of Some d \<Rightarrow> [d] | None \<Rightarrow> [])"

fun watch :: "string result \<Rightarrow> string \<Rightarrow> int option \<Rightarrow> (int \<times> watch_input) list \<Rightarrow> int list" where
  "watch getwd path due [] = pending due"
| "watch getwd path due ((now, x) # xs) = fired now due @
     (case x of
        WDone \<Rightarrow> []
      | WClosed \<Rightarrow> pending (still_due now due)
      | WError \<Rightarrow> watch getwd path (still_due now due) xs
      | WName n \<Rightarrow>
          (if (case path_abs getwd n of Inl _ \<Rightarrow> [] | Inr a \<Rightarrow> a) = path
           then watch getwd path (Some (now + debounce_ms)) xs
           else watch getwd path (still_due now due) xs))"

text \<open>
  \<^verbatim>\<open>Run\<close>: without a notifier it logs and ends; otherwise it watches the directory and the file,
  and listens. The result: what it logs at the start, what it watches, when it reloads.
\<close>

definition watcher_Run ::
  "go_error option \<Rightarrow> string result \<Rightarrow> string \<Rightarrow> (int \<times> watch_input) list \<Rightarrow> log_record list \<times> string list \<times> int list" where
  "watcher_Run notifier_error getwd path xs =
     (case notifier_error of
        Some e \<Rightarrow> ([log_Warn ''workflow watch disabled'' [(''error'', error_string e)]], [], [])
      | None \<Rightarrow>
          (let file = (case path_abs getwd path of Inl _ \<Rightarrow> [] | Inr a \<Rightarrow> a)
           in ([], [path_dir file, file], watch getwd file None xs)))"

section \<open>Lemmas\<close>

lemma path_dir_abs: "is_abs p \<Longrightarrow> is_abs (path_dir p)"
proof -
  assume "is_abs p"
  then obtain q where p: "p = path_sep # q" by (cases p) (auto simp: is_abs_def path_sep_def)
  have "rev (dropWhile (\<lambda>c. c \<noteq> path_sep) (rev q @ [path_sep])) = path_sep # rev (dropWhile (\<lambda>c. c \<noteq> path_sep) (rev q))"
    by (simp add: dropWhile_append3 dropWhile_append dropWhile_eq_Nil_conv)
  then show ?thesis
    unfolding path_dir_def p by (intro is_abs_clean) (simp add: is_abs_def path_sep_def)
qed

lemma path_abs_is_abs:
  assumes "\<And>wd. getwd = Inr wd \<Longrightarrow> is_abs wd" and "path_abs getwd p = Inr a"
  shows "is_abs a"
  using assms is_abs_clean path_join_abs
  by (cases "is_abs p"; cases getwd) (auto simp: path_abs_def)

section \<open>The debounce\<close>

text \<open>The times at which the file was touched, and those after which it stayed untouched for 150 ms.\<close>

definition touches :: "string result \<Rightarrow> string \<Rightarrow> (int \<times> watch_input) list \<Rightarrow> int set" where
  "touches getwd path xs =
     {t. \<exists>n. (t, WName n) \<in> set xs \<and> (case path_abs getwd n of Inl _ \<Rightarrow> [] | Inr a \<Rightarrow> a) = path}"

definition quiet :: "int set \<Rightarrow> int set" where
  "quiet A = {t \<in> A. \<forall>u \<in> A. \<not> (t < u \<and> u < t + debounce_ms)}"

definition due_touch :: "int option \<Rightarrow> int set" where
  "due_touch due = (case due of None \<Rightarrow> {} | Some d \<Rightarrow> {d - debounce_ms})"

lemma touches_simps [simp]:
  "touches getwd path [] = {}"
  "touches getwd path ((t, WError) # xs) = touches getwd path xs"
  "touches getwd path ((t, WName n) # xs) =
     (if (case path_abs getwd n of Inl _ \<Rightarrow> [] | Inr a \<Rightarrow> a) = path then insert t (touches getwd path xs)
      else touches getwd path xs)"
  by (auto simp: touches_def)

lemma touches_bound: "t \<in> touches getwd path xs \<Longrightarrow> t \<in> fst ` set xs"
  by (force simp: touches_def)

lemma quiet_first: "(\<And>u. u \<in> A \<Longrightarrow> t + debounce_ms \<le> u) \<Longrightarrow> quiet (insert t A) = insert t (quiet A)"
  by (fastforce simp: quiet_def debounce_ms_def)

lemma quiet_restart:
  "t \<le> now \<Longrightarrow> now < t + debounce_ms \<Longrightarrow> (\<And>u. u \<in> A \<Longrightarrow> now \<le> u) \<Longrightarrow>
     quiet (insert now (insert t A)) = quiet (insert now A)"
  by (cases "t = now") (fastforce simp: quiet_def)+

text \<open>One arrival splits the due touch into a reload now, or keeps it.\<close>

lemma quiet_arrival:
  assumes "\<And>u. u \<in> A \<Longrightarrow> now \<le> u"
  shows "quiet (due_touch due \<union> A) =
    (\<lambda>r. r - debounce_ms) ` set (fired now due) \<union> quiet (due_touch (still_due now due) \<union> A)"
proof (cases due)
  case (Some d)
  show ?thesis
  proof (cases "d \<le> now")
    case True
    then have "\<And>u. u \<in> A \<Longrightarrow> (d - debounce_ms) + debounce_ms \<le> u" using assms by force
    from quiet_first [OF this] True Some show ?thesis
      by (simp add: due_touch_def fired_def still_due_def)
  qed (simp add: Some due_touch_def fired_def still_due_def)
qed (simp add: due_touch_def fired_def still_due_def)

lemma quiet_singleton: "quiet {t} = {t}" "quiet {} = {}"
  by (auto simp: quiet_def)

lemma watch_set:
  "\<forall>t \<in> due_touch due. \<forall>x \<in> set xs. t \<le> fst x \<Longrightarrow> sorted (map fst xs) \<Longrightarrow>
     list_all (\<lambda>x. snd x \<noteq> WDone \<and> snd x \<noteq> WClosed) xs \<Longrightarrow>
     (\<lambda>r. r - debounce_ms) ` set (watch getwd path due xs) = quiet (due_touch due \<union> touches getwd path xs)"
proof (induction xs arbitrary: due)
  case Nil
  then show ?case by (auto simp: pending_def due_touch_def quiet_singleton split: option.split)
next
  case (Cons p xs)
  obtain now x where p: "p = (now, x)" by (cases p)
  let ?T = "touches getwd path xs"
  have later: "now \<le> u" if "u \<in> ?T" for u
    using that Cons.prems(2) touches_bound [of u getwd path xs] by (auto simp: p)
  have due: "t \<le> now" if "t \<in> due_touch due" for t using that Cons.prems(1) by (auto simp: p)
  have tail: "sorted (map fst xs)" "list_all (\<lambda>x. snd x \<noteq> WDone \<and> snd x \<noteq> WClosed) xs"
    using Cons.prems by simp_all
  have keep: "\<forall>t \<in> due_touch (still_due now due). \<forall>x \<in> set xs. t \<le> fst x"
    using Cons.prems(1) by (auto simp: due_touch_def still_due_def split: option.splits if_splits)
  have IH: "(\<lambda>r. r - debounce_ms) ` set (watch getwd path (still_due now due) xs)
      = quiet (due_touch (still_due now due) \<union> ?T)"
    by (rule Cons.IH [OF keep tail])
  note arrival = quiet_arrival [of ?T now due, OF later]
  have skip: "(\<lambda>r. r - debounce_ms) ` set (fired now due @ watch getwd path (still_due now due) xs)
      = quiet (due_touch due \<union> ?T)"
    using IH arrival by (simp add: image_Un)
  show ?case
  proof (cases x)
    case WError
    then show ?thesis using skip by (simp add: p)
  next
    case (WName n)
    show ?thesis
    proof (cases "(case path_abs getwd n of Inl _ \<Rightarrow> [] | Inr a \<Rightarrow> a) = path")
      case False
      then show ?thesis using skip WName by (simp add: p)
    next
      case True
      have now: "\<forall>t \<in> due_touch (Some (now + debounce_ms)). \<forall>x \<in> set xs. t \<le> fst x"
        using Cons.prems(2) by (auto simp: p due_touch_def)
      have IH2: "(\<lambda>r. r - debounce_ms) ` set (watch getwd path (Some (now + debounce_ms)) xs)
          = quiet (insert now ?T)"
        using Cons.IH [OF now tail] by (simp add: due_touch_def)
      have "quiet (due_touch (still_due now due) \<union> insert now ?T) = quiet (insert now ?T)"
        using due quiet_restart [of _ now ?T, OF _ _ later]
        by (simp add: due_touch_def still_due_def split: option.splits)
      with quiet_arrival [of "insert now ?T" now due] later IH2 True WName show ?thesis
        by (auto simp: p image_Un)
    qed
  qed (use Cons.prems(3) in \<open>simp_all add: p\<close>)
qed

lemma watch_sorted:
  "\<forall>t \<in> due_touch due. \<forall>x \<in> set xs. t \<le> fst x \<Longrightarrow> sorted (map fst xs) \<Longrightarrow>
     list_all (\<lambda>x. snd x \<noteq> WDone \<and> snd x \<noteq> WClosed) xs \<Longrightarrow> sorted_wrt (<) (watch getwd path due xs)"
proof (induction xs arbitrary: due)
  case Nil
  then show ?case by (simp add: pending_def split: option.split)
next
  case (Cons p xs)
  obtain now x where p: "p = (now, x)" by (cases p)
  have tail: "sorted (map fst xs)" "list_all (\<lambda>x. snd x \<noteq> WDone \<and> snd x \<noteq> WClosed) xs"
    using Cons.prems by simp_all
  have step: "sorted_wrt (<) (fired now due @ watch getwd path due' xs)"
    if keep: "\<forall>t \<in> due_touch due'. \<forall>x \<in> set xs. t \<le> fst x"
      and after: "fired now due \<noteq> [] \<Longrightarrow> \<forall>t \<in> due_touch due'. now \<le> t" for due'
  proof -
    have "now < r" if "r \<in> set (watch getwd path due' xs)" "fired now due \<noteq> []" for r
    proof -
      have "r - debounce_ms \<in> quiet (due_touch due' \<union> touches getwd path xs)"
        using watch_set [OF keep tail, of getwd path] that(1) by blast
      then have "r - debounce_ms \<in> due_touch due' \<or> r - debounce_ms \<in> fst ` set xs"
        using touches_bound [of "r - debounce_ms" getwd path xs] by (auto simp: quiet_def)
      then have "now \<le> r - debounce_ms"
        using after [OF that(2)] Cons.prems(2) by (auto simp: p)
      then show ?thesis by (simp add: debounce_ms_def)
    qed
    moreover have "d \<le> now" if "d \<in> set (fired now due)" for d
      using that by (auto simp: fired_def split: option.splits if_splits)
    moreover have "sorted_wrt (<) (fired now due)" by (simp add: fired_def split: option.split)
    ultimately show ?thesis
      using Cons.IH [OF keep tail] by (fastforce simp: sorted_wrt_append)
  qed
  have keep: "\<forall>t \<in> due_touch (still_due now due). \<forall>x \<in> set xs. t \<le> fst x"
    and gone: "fired now due \<noteq> [] \<Longrightarrow> still_due now due = None"
    using Cons.prems(1) by (auto simp: due_touch_def still_due_def fired_def split: option.splits if_splits)
  have fresh: "\<forall>t \<in> due_touch (Some (now + debounce_ms)). (\<forall>x \<in> set xs. t \<le> fst x) \<and> now \<le> t"
    using Cons.prems(2) by (auto simp: p due_touch_def)
  have "sorted_wrt (<) (fired now due @ watch getwd path (still_due now due) xs)"
    using gone by (intro step [OF keep]) (auto simp: due_touch_def)
  moreover have "sorted_wrt (<) (fired now due @ watch getwd path (Some (now + debounce_ms)) xs)"
    using fresh by (intro step) auto
  ultimately show ?case using Cons.prems(3) by (cases x) (auto simp: p)
qed

lemma quiet_after:
  assumes "finite A" and "t \<in> A"
  shows "\<exists>u \<in> quiet A. t \<le> u"
proof -
  have "Max A \<in> A" using assms by (intro Max_in) auto
  then have "Max A \<in> quiet A" using Max_ge [OF assms(1)] by (auto simp: quiet_def not_less)
  then show ?thesis using assms Max_ge by blast
qed

lemma finite_touches: "finite (touches getwd path xs)"
  by (rule finite_subset [of _ "fst ` set xs"]) (auto dest: touches_bound)

section \<open>Properties\<close>

text \<open>
  C24: Bursts of changes to the workflow file are coalesced and none is missed: as long as the
  watch lives, the file is read again exactly 150 ms after each change that no other change
  follows within that time, each time once, so after every change there is a reload at least
  150 ms later.
\<close>

theorem watch_debounces:
  assumes "sorted (map fst xs)" and "list_all (\<lambda>x. snd x \<noteq> WDone \<and> snd x \<noteq> WClosed) xs"
  shows "set (watch getwd path None xs) = (\<lambda>t. t + debounce_ms) ` quiet (touches getwd path xs)
    \<and> sorted_wrt (<) (watch getwd path None xs)
    \<and> (\<forall>t \<in> touches getwd path xs. \<exists>r \<in> set (watch getwd path None xs). t + debounce_ms \<le> r)"
proof -
  have "(\<lambda>r. r - debounce_ms) ` set (watch getwd path None xs) = quiet (touches getwd path xs)"
    using watch_set [of None xs getwd path] assms by (simp add: due_touch_def)
  then have eq: "set (watch getwd path None xs) = (\<lambda>t. t + debounce_ms) ` quiet (touches getwd path xs)"
    by (metis (no_types, lifting) diff_add_cancel image_cong image_ident image_image)
  then have "\<exists>r \<in> set (watch getwd path None xs). t + debounce_ms \<le> r" if "t \<in> touches getwd path xs" for t
    using quiet_after [OF finite_touches that] by auto
  with eq show ?thesis
    using watch_sorted [of None xs getwd path] assms by (simp add: due_touch_def)
qed

theorem watch_debounces_witness:
  "set (watch (Inr ''/d'') ''/d/W'' None [(0, WName ''/d/W''), (100, WName ''W''), (200, WName ''/d/x''), (400, WName ''/d/W'')])
    = {250, 550}"
proof -
  let ?xs = "[(0, WName ''/d/W''), (100, WName ''W''), (200, WName ''/d/x''), (400, WName ''/d/W'')]"
  have names: "path_abs (Inr ''/d'') ''/d/W'' = Inr ''/d/W''" "path_abs (Inr ''/d'') ''W'' = Inr ''/d/W''"
    "path_abs (Inr ''/d'') ''/d/x'' = Inr ''/d/x''"
    by (simp_all add: path_abs_def path_join_def path_clean_def clean_elems_def clean_elem_def is_abs_def
        path_sep_def Let_def)
  then have "touches (Inr ''/d'') ''/d/W'' ?xs = {0, 100, 400}" by auto
  moreover have "quiet {0, 100, 400} = {100, 400}" by (auto simp: quiet_def debounce_ms_def)
  ultimately show ?thesis
    using watch_debounces [of ?xs "Inr ''/d''" "''/d/W''"] by (simp add: debounce_ms_def)
qed

section \<open>Starting and reloading\<close>

text \<open>A workflow file with usable tracker settings, for the instances below.\<close>

definition ex_file :: string where "ex_file = write_lines [''---'', ''a'', ''---'', ''p'']"

definition ex_front :: "string \<Rightarrow> gvalue result" where
  "ex_front s = Inr (VMap [(''tracker'', VMap [(''kind'', VStr ''linear''), (''api_key'', VStr ''k''),
     (''project_slug'', VStr ''s'')])])"

definition ex_fs_os :: os_env where "ex_fs_os = ex_os\<lparr>os_ReadFile := (\<lambda>_. Inr ex_file)\<rparr>"

lemma ex_load:
  "workflow_Load (os_ReadFile ex_fs_os) ex_front path = Inr \<lparr>wd_Config =
     [(''tracker'', VMap [(''kind'', VStr ''linear''), (''api_key'', VStr ''k''), (''project_slug'', VStr ''s'')])],
     wd_PromptTemplate = ''p''\<rparr>"
proof -
  have "list_all line_ok (''---'' # [''a''] @ ''---'' # [''p''])"
    by (simp add: line_ok_def linefeed_def max_line_def)
  moreover have "fence ''---''" "fence ''---''" "list_all (\<lambda>l. \<not> fence l) [''a'']"
    by (simp_all add: fence_def trim_right_def carriage_def)
  moreover have "trim_prefix ex_file bom = write_lines (''---'' # [''a''] @ ''---'' # [''p''])"
    by (simp add: ex_file_def trim_prefix_def has_prefix_def bom_def)
  ultimately have "splitFrontMatter ex_file = (write_lines (map dropCR [''a'']), write_lines (map dropCR [''p'']), True)"
    by (rule split_document)
  then show ?thesis
    by (simp add: workflow_Load_def workflow_Parse_def ex_fs_os_def ex_front_def normalizeMap_map)
      (simp add: dropCR_def carriage_def linefeed_def str_eval)
qed

lemma ex_usable:
  "\<exists>cfg. config_New ex_fs_os [(''tracker'', VMap [(''kind'', VStr ''linear''), (''api_key'', VStr ''k''),
       (''project_slug'', VStr ''s'')])] dir = Inr cfg \<and> ValidateDispatch cfg = None \<and> sv_PortSet (c_Server cfg) = False"
  by (simp add: config_New_def subMap_def vget_def map_get_def new_hooks_def new_agent_def new_claude_def
      new_server_def new_tracker_def asIntStrict_def validateEffort_def parseStateOverrides_def asString_def Let_def
      ValidateDispatch_def asIntDefault_def normalizeStateMap_def defaultClaudeCommand_def resolveEnv_def str_eval)

definition http_up :: "int \<Rightarrow> string \<Rightarrow> started list" where
  "http_up p addr = [SHttp p, SLog (log_Info ''http server started'' [(''addr'', addr)])]"

lemma main_run_cases:
  obtains (fails) up e msg where "main_run h args port st = (up @ [SLog (failed_record msg e)], 1)"
      "\<nexists>ob. SLoop ob \<in> set up"
  | (loops) a raw cfg tmpl ob ob' http post where
      "path_abs (os_Getwd (ho_OS h)) (case args of [] \<Rightarrow> ''WORKFLOW.md'' | a # _ \<Rightarrow> a) = Inr a"
      "config_New (ho_OS h) raw (path_dir a) = Inr cfg" "orch_New cfg tmpl = Inr ob" "run_startup (ho_Env h) ob = Inr ob'"
      "case resolvePort port cfg of None \<Rightarrow> http = [] | Some p \<Rightarrow> \<exists>addr. http = http_up p addr"
      "main_run h args port st = ((SWatcher a # (if st then [SStatus] else []) @ http
         @ map SLog (logRoutingSummary (o_cfg ob))) @ [SLoop ob', post], 0)" "\<nexists>ob. post = SLoop ob"
proof -
  let ?p = "case args of [] \<Rightarrow> ''WORKFLOW.md'' | a # _ \<Rightarrow> a"
  note run_defs = main_run_def main_fails_def
  show thesis
  proof (cases "path_abs (os_Getwd (ho_OS h)) ?p")
    case (Inl e)
    then show thesis by (intro that(1) [of "[]"]) (simp_all add: run_defs)
  next
    case path: (Inr a)
    show thesis
    proof (cases "workflow_Load (os_ReadFile (ho_OS h)) (ho_YAML h) a")
      case (Inl e)
      with path show thesis by (intro that(1) [of "[]"]) (simp_all add: run_defs)
    next
      case def': (Inr def)
      show thesis
      proof (cases "config_New (ho_OS h) (wd_Config def) (path_dir a)")
        case (Inl e)
        with path def' show thesis by (intro that(1) [of "[]"]) (simp_all add: run_defs)
      next
        case cfg: (Inr cfg)
        show thesis
        proof (cases "orch_New cfg (wd_PromptTemplate def)")
          case (Inl e)
          with path def' cfg show thesis by (intro that(1) [of "[]"]) (simp_all add: run_defs)
        next
          case ob: (Inr ob)
          let ?base = "SWatcher a # (if st then [SStatus] else [])"
          have loop: thesis if run: "main_run h args port st = main_loop (ho_Env h) ob (?base @ http)"
            and http: "case resolvePort port cfg of None \<Rightarrow> http = [] | Some p \<Rightarrow> \<exists>addr. http = http_up p addr" for http
          proof (cases "run_startup (ho_Env h) ob")
            case (Inl e)
            have "\<nexists>ob. SLoop ob \<in> set http" using http by (auto simp: http_up_def split: option.splits)
            with run Inl show thesis
              by (intro fails [of "?base @ http @ [SLog (failed_record ''startup validation failed'' e)]"])
                (auto simp: main_loop_def main_fails_def)
          next
            case (Inr ob')
            with run show thesis by (intro loops [OF path cfg ob Inr http]) (auto simp: main_loop_def)
          qed
          show thesis
          proof (cases "resolvePort port cfg")
            case None
            with path def' cfg ob show thesis by (intro loop [of "[]"]) (simp_all add: main_run_def)
          next
            case (Some p)
            show thesis
            proof (cases "server_Start (ho_Listen h) p")
              case (Inl e)
              with Some path def' cfg ob show thesis
                by (intro that(1) [of ?base]) (auto simp: run_defs)
            next
              case (Inr addr)
              with Some path def' cfg ob show thesis
                by (intro loop [of "http_up p addr"]) (auto simp: main_run_def http_up_def)
            qed
          qed
        qed
      qed
    qed
  qed
qed

text \<open>What the event loop is entered with.\<close>

lemma loop_entry:
  "orch_New cfg tmpl = Inr ob \<Longrightarrow> run_startup env ob = Inr ob' \<Longrightarrow>
     o_cfg ob' = cfg \<and> ValidateDispatch cfg = None \<and> running ob' = [] \<and> claimed ob' = {} \<and> retries ob' = []"
  by (auto simp: orch_New_def run_startup_def startupTerminalCleanup_def newRuntimeState_def
      scheduleTick_def split: sum.splits option.splits)

text \<open>
  C22: What becomes of a start, whatever its command line. An unusable flag ends it with exit code 2
  and a request for help with 0, before anything is started or read. Otherwise exit code 0 means
  that it went by way of the event loop, entered with a validated and usable configuration and with
  nothing running, claimed or queued: before the loop it has begun to watch the workflow file it
  was given (WORKFLOW.md if none), has started the status surface if asked for, and an HTTP
  server exactly if a port is set, the one of the command line before the one of the configuration.
  Every other start ends with exit code 1 before the loop, and the last thing it does is to log an
  error with its outcome and its cause.
\<close>

theorem start_outcome:
  assumes "case os_Getwd (ho_OS h) of Inl _ \<Rightarrow> True | Inr wd \<Rightarrow> is_abs wd"
  shows "case symphony h argv of (up, code) \<Rightarrow>
      code = 2 \<and> up = [] \<and> flag_Parse default_flags argv = BadFlag
    \<or> code = 0 \<and> up = [] \<and> flag_Parse default_flags argv = Help
    \<or> code = 1 \<and> (\<nexists>ob. SLoop ob \<in> set up) \<and> (\<exists>msg e. last up = SLog (failed_record msg e))
        \<and> (\<exists>fl args. flag_Parse default_flags argv = Parsed fl args)
    \<or> code = 0 \<and> (\<exists>fl args pre ob final_entry. flag_Parse default_flags argv = Parsed fl args
        \<and> up = pre @ [SLoop ob, final_entry] \<and> config_ok (o_cfg ob) \<and> ValidateDispatch (o_cfg ob) = None
        \<and> running ob = [] \<and> claimed ob = {} \<and> retries ob = [] \<and> (\<nexists>ob'. SLoop ob' \<in> set pre)
        \<and> (\<exists>a. path_abs (os_Getwd (ho_OS h)) (case args of [] \<Rightarrow> ''WORKFLOW.md'' | a # _ \<Rightarrow> a) = Inr a
             \<and> {p. SWatcher p \<in> set pre} = {a})
        \<and> (SStatus \<in> set pre \<longleftrightarrow> fl_Status fl)
        \<and> {p. SHttp p \<in> set pre} = set_option (if 0 \<le> fl_Port fl then Some (fl_Port fl)
            else if sv_PortSet (c_Server (o_cfg ob)) then Some (sv_Port (c_Server (o_cfg ob))) else None))"
proof (cases "flag_Parse default_flags argv")
  case (Parsed fl args)
  then have run: "symphony h argv = main_run h args (fl_Port fl) (fl_Status fl)" by (simp add: symphony_def)
  show ?thesis
  proof (cases rule: main_run_cases [where h = h and args = args and port = "fl_Port fl" and st = "fl_Status fl"])
    case (fails up e msg)
    then show ?thesis by (auto simp: run Parsed)
  next
    case (loops a raw cfg tmpl ob ob' http post)
    let ?pre = "SWatcher a # (if fl_Status fl then [SStatus] else []) @ http @ map SLog (logRoutingSummary (o_cfg ob))"
    have "is_abs a" using path_abs_is_abs [OF _ loops(1)] assms by (auto split: sum.splits)
    from config_New_ok [OF path_dir_abs [OF this] loops(2)] loop_entry [OF loops(3,4)]
    have "config_ok (o_cfg ob') \<and> ValidateDispatch (o_cfg ob') = None
        \<and> running ob' = [] \<and> claimed ob' = {} \<and> retries ob' = []" and cfg: "o_cfg ob' = cfg" by simp_all
    moreover have "\<nexists>ob'. SLoop ob' \<in> set ?pre" "SStatus \<in> set ?pre \<longleftrightarrow> fl_Status fl" "{p. SWatcher p \<in> set ?pre} = {a}"
      "{p. SHttp p \<in> set ?pre} = set_option (resolvePort (fl_Port fl) (o_cfg ob'))"
      using loops(5) by (auto simp: cfg http_up_def split: option.splits)
    ultimately show ?thesis
      using loops(1) by (simp only: run loops(6) prod.case) (auto simp: resolvePort_def Parsed)
  qed
qed (simp_all add: symphony_def)

definition ex_host :: host where
  "ex_host = \<lparr>ho_OS = ex_fs_os, ho_YAML = ex_front, ho_Listen = (\<lambda>a. Inr a), ho_Env =
     \<lparr>e_now = 0, e_candidates = (\<lambda>_. Inr []), e_by_states = (\<lambda>_ _. Inr []), e_by_ids = (\<lambda>_ _. Inr []),
      e_notifier = False\<rparr>\<rparr>"

theorem start_outcome_witness:
  "snd (symphony ex_host [''-port'', itoa 8080, ''--'']) = 0
   \<and> (\<exists>ob. SLoop ob \<in> set (fst (symphony ex_host [''-port'', itoa 8080, ''--''])))
   \<and> SHttp 8080 \<in> set (fst (symphony ex_host [''-port'', itoa 8080, ''--'']))"
proof -
  have wd: "os_Getwd ex_fs_os = Inr ''/d''" "is_abs ''/d''" by (simp_all add: ex_fs_os_def ex_os_def is_abs_def)
  obtain a where a: "path_abs (Inr ''/d'') ''WORKFLOW.md'' = Inr a"
    by (cases "path_abs (Inr ''/d'') ''WORKFLOW.md''") (auto simp: path_abs_def split: if_splits)
  obtain cfg where cfg: "config_New ex_fs_os [(''tracker'', VMap [(''kind'', VStr ''linear''), (''api_key'', VStr ''k''),
       (''project_slug'', VStr ''s'')])] (path_dir a) = Inr cfg" "ValidateDispatch cfg = None"
    using ex_usable by blast
  obtain ob where ob: "orch_New cfg ''p'' = Inr ob"
    using ValidateDispatch_tracker [OF cfg(2)] by (auto simp: orch_New_def)
  then have "run_startup (ho_Env ex_host) ob = Inr (scheduleTick 0 (startupTerminalCleanup (ho_Env ex_host) ob))"
    using cfg(2) by (auto simp: run_startup_def orch_New_def split: sum.splits)
  then have code: "snd (main_run ex_host [] 8080 False) = 0"
    using wd a cfg ob ex_load by (simp add: main_run_def main_loop_def Let_def ex_host_def resolvePort_def server_Start_def)
  have flags: "flag_Parse default_flags [''-port'', itoa 8080, ''--''] = Parsed \<lparr>fl_Port = 8080, fl_Status = False\<rparr> []"
    using flag_Parse_canonical [of 8080 False "[]"] by (simp add: in_int64_def min_int64_def max_int64_def)
  with code have zero: "snd (symphony ex_host [''-port'', itoa 8080, ''--'']) = 0" by (simp add: symphony_def)
  with start_outcome [where h = ex_host and argv = "[''-port'', itoa 8080, ''--'']"] wd flags
  have "\<exists>pre ob e. fst (symphony ex_host [''-port'', itoa 8080, ''--'']) = pre @ [SLoop ob, e] \<and> {p. SHttp p \<in> set pre} = {8080}"
    by (auto simp: ex_host_def split: prod.splits)
  with zero show ?thesis by fastforce
qed

text \<open>
  C23: The watcher posts a change only with a configuration that is usable and valid, and such a
  reload always takes effect: configuration, prompt, tracker, workspace manager and limit are
  the new ones, and what runs, is claimed or waits goes on. Otherwise the last good settings
  stay.
\<close>

theorem reload_is_effective:
  assumes "is_abs path" and "watcher_reload os yaml path room = Some e"
  shows "\<exists>cfg tmpl. e = ReloadConfig cfg tmpl \<and> config_ok cfg \<and> ValidateDispatch cfg = None
    \<and> o_cfg (handle env e ob) = cfg \<and> o_template (handle env e ob) = tmpl
    \<and> tracker_factory cfg = Inr (o_tracker (handle env e ob)) \<and> o_ws (handle env e ob) = workspace_factory cfg
    \<and> rs_MaxConcurrentAgents (o_state (handle env e ob)) = ac_MaxConcurrent (c_Agent cfg)
    \<and> running (handle env e ob) = running ob \<and> claimed (handle env e ob) = claimed ob
    \<and> retries (handle env e ob) = retries ob"
proof -
  obtain raw cfg tmpl where cfg: "config_New os raw (path_dir path) = Inr cfg" "ValidateDispatch cfg = None"
    and e: "e = ReloadConfig cfg tmpl"
    using assms(2) by (auto simp: watcher_reload_def split: sum.splits option.splits if_splits)
  obtain tr where "tracker_factory cfg = Inr tr" using ValidateDispatch_tracker [OF cfg(2)] by blast
  moreover have "config_ok cfg" by (rule config_New_ok [OF path_dir_abs [OF assms(1)] cfg(1)])
  ultimately show ?thesis using cfg(2) by (auto simp: e onReload_def scheduleTick_def Let_def)
qed

theorem reload_is_effective_witness:
  "\<exists>cfg. watcher_reload ex_fs_os ex_front ''/d/W'' True = Some (ReloadConfig cfg ''p'')
     \<and> o_cfg (handle ex_env (ReloadConfig cfg ''p'') ex_orch) = cfg"
proof -
  obtain cfg where cfg: "config_New ex_fs_os [(''tracker'', VMap [(''kind'', VStr ''linear''), (''api_key'', VStr ''k''),
       (''project_slug'', VStr ''s'')])] (path_dir ''/d/W'') = Inr cfg" "ValidateDispatch cfg = None"
    using ex_usable by blast
  then have reload: "watcher_reload ex_fs_os ex_front ''/d/W'' True = Some (ReloadConfig cfg ''p'')"
    using ex_load by (simp add: watcher_reload_def)
  have "is_abs ''/d/W''" by (simp add: is_abs_def)
  from reload_is_effective [OF this reload, of ex_env ex_orch] reload show ?thesis by auto
qed

end
