(* ===== verification/StreamLine.thy ===== *)
theory StreamLine
  imports ClaudeStream JsonStructs Workflow
begin

text \<open>
  The codecs of package \<^verbatim>\<open>claude\<close>: a line of the agent's output as a stream event (\<^verbatim>\<open>parseLine\<close>,
  parse.go), the lines of its bytes (the reading goroutine of \<^verbatim>\<open>RunTurn\<close>, client.go), and the text
  of a tool input. They instantiate the parameters of ClaudeStream.
\<close>

section \<open>One line\<close>

definition stream_event_of :: "cst \<Rightarrow> stream_event option" where
  "stream_event_of c =
     (case struct_members c of
        None \<Rightarrow> None
      | Some ms \<Rightarrow>
          (case (string_field [] (field_values ''type'' ms), string_field [] (field_values ''subtype'' ms),
                 string_field [] (field_values ''session_id'' ms), bool_ptr None (field_values ''is_error'' ms)) of
             (Some t, Some st, Some sid, Some e) \<Rightarrow>
               Some \<lparr>se_Type = t, se_Subtype = st, se_SessionID = sid, se_IsError = e,
                     se_Usage = raw_value (field_values ''usage'' ms),
                     se_Message = raw_value (field_values ''message'' ms),
                     se_raw = (case any_lenient c of VMap m \<Rightarrow> Some m | _ \<Rightarrow> None)\<rparr>
           | _ \<Rightarrow> None))"

text \<open>The text of the decoding error is not looked at.\<close>

definition parse_line :: "string \<Rightarrow> stream_event result" where
  "parse_line line =
     (case Option.bind (unmarshal line) stream_event_of of
        Some e \<Rightarrow> Inr e | None \<Rightarrow> Inl (PlainErr ''malformed line''))"

definition json_text :: "gvalue \<Rightarrow> string option" where
  "json_text v = map_option marshal (any_json v)"

section \<open>The lines\<close>

text \<open>
  What the reading goroutine sends for all the bytes of the output: its lines up to one that does
  not fit the buffer, the error of the scanner for such a line, and the end.
\<close>

definition stdout_stimuli :: "string \<Rightarrow> stimulus list" where
  "stdout_stimuli s = map SLine (scan_lines s)
     @ (if list_ex (\<lambda>l. max_line \<le> length l) (split_char linefeed s)
        then [SReadErr ''bufio.Scanner: token too long''] else []) @ [SEOF]"

section \<open>Lines are read as they were written\<close>

lemma parse_marshal:
  assumes "json_ok d" and "doc_depth d \<le> max_nesting"
  shows "parse_line (marshal d) = (case stream_event_of (cst_of d) of
    Some e \<Rightarrow> Inr e | None \<Rightarrow> Inl (PlainErr ''malformed line''))"
  by (simp add: parse_line_def unmarshal_marshal [OF assms])

definition short_doc :: "json \<Rightarrow> bool" where
  "short_doc d \<longleftrightarrow> json_ok d \<and> doc_depth d \<le> max_nesting \<and> length (marshal d) < max_line"

lemma marshal_line: "json_ok d \<Longrightarrow> linefeed \<notin> set (marshal d) \<and> dropCR (marshal d) = marshal d"
proof -
  assume "json_ok d"
  from print_printable [OF cst_of_ok [OF this]]
  have "linefeed \<notin> set (marshal d)" "carriage \<notin> set (marshal d)"
    by (auto simp: marshal_def linefeed_def carriage_def)
  then show ?thesis by (cases "marshal d = []") (auto simp: dropCR_def dest: last_in_set)
qed

lemma docs_lines: "list_all short_doc ds \<Longrightarrow> scan_lines (write_lines (map marshal ds)) = map marshal ds"
proof -
  assume ds: "list_all short_doc ds"
  then have "list_all line_ok (map marshal ds)"
    using marshal_line by (auto simp: list_all_iff line_ok_def short_doc_def)
  moreover have "map (dropCR \<circ> marshal) ds = map marshal ds"
    using ds marshal_line by (auto simp: list_all_iff short_doc_def)
  ultimately show ?thesis using scan_write_lines [of "map marshal ds" "[]"] by (simp add: scan_lines.simps)
qed

section \<open>The result of a turn\<close>

text \<open>The last line of a successful turn, as the agent prints it.\<close>

definition result_doc :: "string \<Rightarrow> int \<Rightarrow> int \<Rightarrow> int \<Rightarrow> int \<Rightarrow> json" where
  "result_doc sid i r c o' = JObj
     [(''type'', JStr ''result''), (''subtype'', JStr ''success''), (''is_error'', JBool False),
      (''session_id'', JStr sid),
      (''usage'', JObj [(''input_tokens'', jint i), (''cache_read_input_tokens'', jint r),
         (''cache_creation_input_tokens'', jint c), (''output_tokens'', jint o')])]"

lemma stream_keys [simp]:
  "key_fold ''type'' = [116, 121, 112, 101]"
  "key_fold ''subtype'' = [115, 117, 98, 116, 121, 112, 101]"
  "key_fold ''session_id'' = [115, 101, 115, 115, 105, 111, 110, 95, 105, 100]"
  "key_fold ''is_error'' = [105, 115, 95, 101, 114, 114, 111, 114]"
  "key_fold ''usage'' = [117, 115, 97, 103, 101]"
  "key_fold ''message'' = [109, 101, 115, 115, 97, 103, 101]"
  by (simp_all add: key_fold_eval fold_rune_def lower_rune_def fold_exceptions_def)

lemma stream_ascii [simp]: "is_ascii ''type''" "is_ascii ''subtype''" "is_ascii ''session_id''" "is_ascii ''is_error''"
    "is_ascii ''usage''" "is_ascii ''message''" "is_ascii ''result''" "is_ascii ''success''"
    "is_ascii ''input_tokens''" "is_ascii ''cache_read_input_tokens''" "is_ascii ''cache_creation_input_tokens''"
    "is_ascii ''output_tokens''"
  by (simp_all add: is_ascii_def)

definition exact :: "int \<Rightarrow> bool" where "exact n \<longleftrightarrow> \<bar>n\<bar> < 2 ^ 53"

lemma ascii_utf8 [simp]: "is_ascii s \<Longrightarrow> valid_utf8 s = s"
  by (rule valid_utf8_id [OF utf8_ascii])

lemma asInt_exact: "exact n \<Longrightarrow> asInt (VFloat (Fin (of_int n))) = n"
  by (auto simp: asInt_def int_of_float_def exact_def in_int64_def min_int64_def max_int64_def Let_def abs_less_iff)

definition usage_members :: "int \<Rightarrow> int \<Rightarrow> int \<Rightarrow> int \<Rightarrow> (string \<times> json) list" where
  "usage_members i r c o' = [(''input_tokens'', jint i), (''cache_read_input_tokens'', jint r),
     (''cache_creation_input_tokens'', jint c), (''output_tokens'', jint o')]"

definition usage_map :: "int \<Rightarrow> int \<Rightarrow> int \<Rightarrow> int \<Rightarrow> (string, gvalue) gmap" where
  "usage_map i r c o' = [(''input_tokens'', VFloat (Fin (of_int i))), (''cache_read_input_tokens'', VFloat (Fin (of_int r))),
     (''cache_creation_input_tokens'', VFloat (Fin (of_int c))), (''output_tokens'', VFloat (Fin (of_int o')))]"

lemma usage_value:
  assumes "exact i" and "exact r" and "exact c" and "exact o'"
  shows "any_of (cst_of (JObj (usage_members i r c o'))) = Some (VMap (usage_map i r c o'))"
proof -
  have n: "any_of (cst_of (jint k)) = Some (VFloat (Fin (of_int k)))" if "exact k" for k
    using that by (intro any_of_jint) (simp add: exact_def)
  show ?thesis
    unfolding cst_of_JObj any_of.simps any_of_members
    by (simp add: usage_members_def usage_map_def assms [THEN n] map_put_def)
qed

lemma usage_of_map:
  assumes "exact i" and "exact r" and "exact c" and "exact o'"
  shows "usageFromMap (usage_map i r c o')
    = \<lparr>u_InputTokens = i + r + c, u_OutputTokens = o', u_TotalTokens = i + r + c + o'\<rparr>"
proof -
  have "wrap64 (i + r + c) = i + r + c" "wrap64 (i + r + c + o') = i + r + c + o'"
    using assms by (auto intro!: wrap64_id simp: exact_def in_int64_def min_int64_def max_int64_def abs_less_iff)
  then show ?thesis
    by (simp add: usageFromMap_def usage_map_def vget_def map_get_def assms [THEN asInt_exact] Let_def)
qed

lemma result_event:
  assumes "exact i" and "exact r" and "exact c" and "exact o'"
  shows "\<exists>raw. stream_event_of (cst_of (result_doc sid i r c o')) = Some
    \<lparr>se_Type = ''result'', se_Subtype = ''success'', se_SessionID = valid_utf8 sid, se_IsError = Some False,
     se_Usage = VMap (usage_map i r c o'), se_Message = VNil, se_raw = raw\<rparr>"
proof -
  let ?ms = "[(''type'', JStr ''result''), (''subtype'', JStr ''success''), (''is_error'', JBool False),
      (''session_id'', JStr sid), (''usage'', JObj (usage_members i r c o'))]"
  have d: "result_doc sid i r c o' = JObj ?ms" by (simp add: result_doc_def usage_members_def)
  have f: "field_values name (doc_members ?ms) = map cst_of (doc_values name ?ms)" if "is_ascii name" for name
    using that by (intro field_values_doc) simp_all
  have u: "raw_value [cst_of (JObj (usage_members i r c o'))] = VMap (usage_map i r c o')"
    using usage_value [OF assms] by (simp add: raw_value_def del: cst_of_JObj)
  show ?thesis
    unfolding d cst_of_JObj stream_event_of_def
    using u by (simp add: struct_members_def f string_round_trip raw_value_def del: cst_of_JObj)
qed

section \<open>A turn, from the bytes of the agent\<close>

text \<open>
  Documents the agent may print before its result: any content, as long as the four fields the
  client looks at have their types.
\<close>

definition step_doc :: "json \<Rightarrow> bool" where
  "step_doc d \<longleftrightarrow> short_doc d \<and> (\<exists>e. stream_event_of (cst_of d) = Some e \<and> se_Type e \<noteq> ''result'')"

lemma consume_steps:
  assumes "list_all step_doc ds"
  shows "\<exists>sid' started' malformed' saw'.
    cs_Outcome (consume parse_line enc c pid turn sid started malformed saw
      (map (\<lambda>l. (now, SLine l)) (map marshal ds) @ xs))
    = cs_Outcome (consume parse_line enc c pid turn sid' started' malformed' saw' xs)"
  using assms
proof (induction ds arbitrary: sid started malformed saw)
  case Nil
  show ?case by (intro exI) simp
next
  case (Cons d ds)
  obtain e where e: "stream_event_of (cst_of d) = Some e" "se_Type e \<noteq> ''result''" and d: "short_doc d"
    using Cons.prems by (auto simp: step_doc_def)
  have parse: "parse_line (marshal d) = Inr e"
    using d e(1) parse_marshal [of d] by (simp add: short_doc_def)
  have line: "marshal d \<noteq> []"
  proof
    assume "marshal d = []"
    with parse show False
      by (simp add: parse_line_def unmarshal_def read_json_def)
  qed
  have "\<exists>sid' started'. cs_Outcome (consume parse_line enc c pid turn sid started malformed saw
      ((now, SLine (marshal d)) # ys)) = cs_Outcome (consume parse_line enc c pid turn sid' started' 0 True ys)" for ys
    using line parse handleEvent_goes_on [OF e(2)]
    by (intro exI [of _ "hd_SessionID (handleEvent enc now pid turn sid started e)"]
        exI [of _ "hd_Started (handleEvent enc now pid turn sid started e)"]) (simp add: Let_def)
  with Cons.IH Cons.prems show ?case by (simp del: consume.simps) metis
qed

definition usage_of_result :: "int \<Rightarrow> int \<Rightarrow> int \<Rightarrow> int \<Rightarrow> usage" where
  "usage_of_result i r c o' = \<lparr>u_InputTokens = i + r + c, u_OutputTokens = o', u_TotalTokens = i + r + c + o'\<rparr>"

theorem turn_counts_result:
  assumes "list_all step_doc ds" and "short_doc (result_doc sid' i r c o')"
    and "exact i" and "exact r" and "exact c" and "exact o'"
  shows "cs_Outcome (consume parse_line enc cl pid turn sid started malformed saw
      (map (Pair now) (stdout_stimuli (write_lines (map marshal (ds @ [result_doc sid' i r c o']))))))
    = Some (Inr (Some (usage_of_result i r c o')))"
proof -
  let ?d = "result_doc sid' i r c o'"
  have "list_all short_doc (ds @ [?d])" using assms(1,2) by (auto simp: step_doc_def list_all_iff)
  then obtain rest where xs: "map (Pair now) (stdout_stimuli (write_lines (map marshal (ds @ [?d]))))
      = map (\<lambda>l. (now, SLine l)) (map marshal ds) @ (now, SLine (marshal ?d)) # rest"
    using docs_lines [of "ds @ [?d]"] by (simp add: stdout_stimuli_def comp_def)
  obtain raw where e: "stream_event_of (cst_of ?d) = Some
    \<lparr>se_Type = ''result'', se_Subtype = ''success'', se_SessionID = valid_utf8 sid', se_IsError = Some False,
     se_Usage = VMap (usage_map i r c o'), se_Message = VNil, se_raw = raw\<rparr>"
    using result_event [OF assms(3-6)] by blast
  have parse: "parse_line (marshal ?d) = Inr
    \<lparr>se_Type = ''result'', se_Subtype = ''success'', se_SessionID = valid_utf8 sid', se_IsError = Some False,
     se_Usage = VMap (usage_map i r c o'), se_Message = VNil, se_raw = raw\<rparr>"
    using assms(2) e parse_marshal [of ?d] by (simp add: short_doc_def)
  have line: "marshal ?d \<noteq> []" by (simp add: marshal_def result_doc_def)
  have name: "contains_str ''success'' ''error'' = False" "to_lower ''success'' = ''success''"
    by (simp_all add: has_prefix_def str_eval)
  have last: "cs_Outcome (consume parse_line enc cl pid turn sid started malformed saw ((now, SLine (marshal ?d)) # rest))
      = Some (Inr (Some (usage_of_result i r c o')))" for sid started malformed saw
    using line parse name usage_of_map [OF assms(3-6)]
    by (simp add: handleEvent_def isErrorResult_def extractUsage_def usage_of_result_def Let_def)
  show ?thesis
    unfolding xs using consume_steps [OF assms(1)] last by metis
qed

text \<open>The rate limits of an event can be encoded again, whatever the agent wrote.\<close>

lemma stream_event_limits:
  "stream_event_of c = Some e \<Longrightarrow> any_json (extractRateLimits (se_raw e)) \<noteq> None"
  using any_lenient_values [of c]
  by (auto simp: stream_event_of_def extractRateLimits_def split: option.splits gvalue.splits)

lemma handleEvent_limits:
  assumes "any_json (extractRateLimits (se_raw e)) \<noteq> None"
  shows "\<forall>m \<in> set (hd_Emitted (handleEvent enc now pid turn sid started e)). any_json (ev_RateLimits m) \<noteq> None"
  using assms by (auto simp: handleEvent_def ev_def Let_def)

lemma consume_limits:
  "\<forall>m \<in> set (cs_Emitted (consume parse_line enc c pid turn sid started malformed saw xs)). any_json (ev_RateLimits m) \<noteq> None"
proof (induction xs arbitrary: sid started malformed saw)
  case (Cons p xs)
  obtain now x where p: "p = (now, x)" by (cases p)
  have plain: "any_json (ev_RateLimits (ev k now pid sid turn)) \<noteq> None" for k now sid by (simp add: ev_def)
  show ?case
  proof (cases x)
    case (SLine line)
    show ?thesis
    proof (cases "parse_line line")
      case (Inl e)
      then show ?thesis using p SLine Cons.IH plain by (auto simp: Let_def stop_with_def)
    next
      case (Inr e)
      then have "any_json (extractRateLimits (se_raw e)) \<noteq> None"
        using stream_event_limits by (auto simp: parse_line_def split: option.splits bind_splits)
      from handleEvent_limits [OF this] show ?thesis
        using p SLine Inr Cons.IH by (auto simp: Let_def split: option.splits)
    qed
  qed (use p Cons.IH plain in \<open>auto simp: Let_def stop_with_def\<close>)
qed simp

section \<open>A small stream\<close>

text \<open>A message whose text tries to be a line of its own.\<close>

definition ex_message :: json where
  "ex_message = JObj [(''type'', JStr ''assistant''), (''message'', JObj [(''content'', JArr
     [JObj [(''type'', JStr ''text''), (''text'', JStr (linefeed # ''{''))]])])]"

lemma ascii_pieces_of: "is_ascii s \<Longrightarrow> string_pieces s = concat (map (\<lambda>c. ascii_pieces (byte c)) s)"
  by (auto simp: string_pieces_def segs_ascii comp_def rune_pieces_def is_ascii_def list_all_iff intro!: arg_cong [of _ _ concat])

lemma ascii_pieces_length: "length (concat (map piece_text (ascii_pieces b))) \<le> 6"
  by (auto simp: ascii_pieces_def)

lemma quoted_length: "is_ascii s \<Longrightarrow> length (quoted (string_pieces s)) \<le> 6 * length s + 2"
proof -
  have "length (concat (map piece_text (concat (map (\<lambda>c. ascii_pieces (byte c)) s)))) \<le> 6 * length s"
  proof (induction s)
    case (Cons c s)
    with ascii_pieces_length [of "byte c"] show ?case by simp
  qed simp
  then show "is_ascii s \<Longrightarrow> ?thesis" by (simp add: quoted_def literal_text_def ascii_pieces_of)
qed

lemma ex_message_length: "length (marshal ex_message) < max_line"
  using quoted_length [of "''type''"] quoted_length [of "''assistant''"] quoted_length [of "''message''"]
    quoted_length [of "''content''"] quoted_length [of "''text''"] quoted_length [of "linefeed # ''{''"]
  by (simp add: marshal_def ex_message_def doc_members_def max_line_def is_ascii_def linefeed_def)

lemma ex_result_length: "length (marshal (result_doc ''s'' 7 0 0 2)) < max_line"
  using quoted_length [of "''type''"] quoted_length [of "''result''"] quoted_length [of "''subtype''"]
    quoted_length [of "''success''"] quoted_length [of "''is_error''"] quoted_length [of "''session_id''"]
    quoted_length [of "''s''"] quoted_length [of "''usage''"] quoted_length [of "''input_tokens''"]
    quoted_length [of "''cache_read_input_tokens''"] quoted_length [of "''cache_creation_input_tokens''"]
    quoted_length [of "''output_tokens''"]
  by (simp add: marshal_def result_doc_def doc_members_def max_line_def is_ascii_def jint_def itoa_def nat_digits.simps)

lemma ex_stream_docs: "step_doc ex_message" "short_doc (result_doc ''s'' 7 0 0 2)"
proof -
  let ?m = "JObj [(''content'', JArr [JObj [(''type'', JStr ''text''), (''text'', JStr (linefeed # ''{''))]])]"
  have "field_values name (doc_members [(''type'', JStr ''assistant''), (''message'', ?m)])
      = map cst_of (doc_values name [(''type'', JStr ''assistant''), (''message'', ?m)])" if "is_ascii name" for name
    using that by (intro field_values_doc) simp_all
  then have "\<exists>e. stream_event_of (cst_of ex_message) = Some e \<and> se_Type e \<noteq> ''result''"
    by (simp add: stream_event_of_def ex_message_def struct_members_def string_round_trip is_ascii_def)
  moreover have "json_ok ex_message" "doc_depth ex_message \<le> max_nesting"
    by (simp_all add: ex_message_def max_nesting_def)
  ultimately show "step_doc ex_message" using ex_message_length by (simp add: step_doc_def short_doc_def)
  show "short_doc (result_doc ''s'' 7 0 0 2)"
    using ex_result_length by (simp add: short_doc_def result_doc_def jint_def itoa_number max_nesting_def)
qed

end
