(* ===== verification/LinearWire.thy ===== *)
theory LinearWire
  imports LinearAPI JsonStructs "HOL-Library.Monad_Syntax"
begin

text \<open>
  The bytes between the Linear client and its service: the JSON of a request (\<^verbatim>\<open>do\<close>, linear.go) and
  the decoding of an answer into the structs of normalize.go. They instantiate the codecs that
  are parameters of LinearAPI.
\<close>

section \<open>Structs, pointers and slices\<close>

text \<open>
  Decoding into a struct, a pointer to one and a slice of them, each from the value the field had
  before (a repeated key decodes into the same place): \<open>f\<close> decodes the members, \<open>z\<close> is the zero
  value. The elements of a slice reuse those of the value before; what lies behind them after two
  repetitions is taken to be zero.
\<close>

fun struct_field :: "('a \<Rightarrow> members \<Rightarrow> 'a option) \<Rightarrow> 'a \<Rightarrow> cst list \<Rightarrow> 'a option" where
  "struct_field f x [] = Some x"
| "struct_field f x (CObj ms # vs) = (case f x ms of None \<Rightarrow> None | Some y \<Rightarrow> struct_field f y vs)"
| "struct_field f x (CLit w # vs) = (if w = ''null'' then struct_field f x vs else None)"
| "struct_field f x (v # vs) = None"

fun ptr_field :: "('a \<Rightarrow> members \<Rightarrow> 'a option) \<Rightarrow> 'a \<Rightarrow> 'a option \<Rightarrow> cst list \<Rightarrow> 'a option option" where
  "ptr_field f z x [] = Some x"
| "ptr_field f z x (CObj ms # vs) =
     (case f (case x of None \<Rightarrow> z | Some y \<Rightarrow> y) ms of None \<Rightarrow> None | Some y \<Rightarrow> ptr_field f z (Some y) vs)"
| "ptr_field f z x (CLit w # vs) = (if w = ''null'' then ptr_field f z None vs else None)"
| "ptr_field f z x (v # vs) = None"

definition element :: "('a \<Rightarrow> members \<Rightarrow> 'a option) \<Rightarrow> 'a \<Rightarrow> 'a list \<Rightarrow> nat \<Rightarrow> cst \<Rightarrow> 'a option" where
  "element f z xs i v = struct_field f (if i < length xs then xs ! i else z) [v]"

fun slice_field :: "('a \<Rightarrow> members \<Rightarrow> 'a option) \<Rightarrow> 'a \<Rightarrow> 'a list \<Rightarrow> cst list \<Rightarrow> 'a list option" where
  "slice_field f z xs [] = Some xs"
| "slice_field f z xs (CArr es # vs) =
     (case all_some (map (\<lambda>(i, e). element f z xs i e) (enumerate 0 es)) of
        None \<Rightarrow> None | Some ys \<Rightarrow> slice_field f z ys vs)"
| "slice_field f z xs (CLit w # vs) = (if w = ''null'' then slice_field f z [] vs else None)"
| "slice_field f z xs (v # vs) = None"

section \<open>The structs of an issue\<close>

definition state_into :: "string \<Rightarrow> members \<Rightarrow> string option" where
  "state_into name ms = do {
     n \<leftarrow> string_field name (field_values ''name'' ms);
     t \<leftarrow> string_field [] (field_values ''type'' ms);
     Some n }"

definition name_into :: "string \<Rightarrow> members \<Rightarrow> string option" where
  "name_into name ms = string_field name (field_values ''name'' ms)"

definition labels_into :: "string list \<Rightarrow> members \<Rightarrow> string list option" where
  "labels_into ls ms = slice_field name_into [] ls (field_values ''nodes'' ms)"

text \<open>Of the related issue only three fields are used; the types of the others are checked below.\<close>

definition related_into :: "string \<times> string \<times> string option \<Rightarrow> members \<Rightarrow> (string \<times> string \<times> string option) option" where
  "related_into r ms = do {
     i \<leftarrow> string_field (fst r) (field_values ''id'' ms);
     ident \<leftarrow> string_field (fst (snd r)) (field_values ''identifier'' ms);
     st \<leftarrow> ptr_field state_into [] (snd (snd r)) (field_values ''state'' ms);
     Some (i, ident, st) }"

definition zero_relation :: relation_node where "zero_relation = \<lparr>rn_Type = [], rn_Related = None\<rparr>"

definition relation_into :: "relation_node \<Rightarrow> members \<Rightarrow> relation_node option" where
  "relation_into r ms = do {
     t \<leftarrow> string_field (rn_Type r) (field_values ''type'' ms);
     x \<leftarrow> ptr_field related_into ([], [], None) (rn_Related r) (field_values ''relatedIssue'' ms);
     Some \<lparr>rn_Type = t, rn_Related = x\<rparr> }"

definition relations_into :: "relation_node list \<Rightarrow> members \<Rightarrow> relation_node list option" where
  "relations_into rs ms = slice_field relation_into zero_relation rs (field_values ''nodes'' ms)"

text \<open>The raw priority decodes to a value later.\<close>

definition zero_node :: issue_node where
  "zero_node = \<lparr>n_ID = [], n_Identifier = [], n_Title = [], n_Description = None, n_Priority = VNil,
     n_BranchName = None, n_URL = None, n_CreatedAt = None, n_UpdatedAt = None, n_State = None,
     n_Assignee = None, n_Labels = None, n_Inverse = None\<rparr>"

definition fields_into :: "issue_node \<Rightarrow> members \<Rightarrow> issue_node option" where
  "fields_into n ms = do {
     i \<leftarrow> string_field (n_ID n) (field_values ''id'' ms);
     ident \<leftarrow> string_field (n_Identifier n) (field_values ''identifier'' ms);
     title \<leftarrow> string_field (n_Title n) (field_values ''title'' ms);
     desc \<leftarrow> string_ptr (n_Description n) (field_values ''description'' ms);
     branch \<leftarrow> string_ptr (n_BranchName n) (field_values ''branchName'' ms);
     url \<leftarrow> string_ptr (n_URL n) (field_values ''url'' ms);
     created \<leftarrow> string_ptr (n_CreatedAt n) (field_values ''createdAt'' ms);
     updated \<leftarrow> string_ptr (n_UpdatedAt n) (field_values ''updatedAt'' ms);
     st \<leftarrow> ptr_field state_into [] (n_State n) (field_values ''state'' ms);
     who \<leftarrow> ptr_field name_into [] (n_Assignee n) (field_values ''assignee'' ms);
     ls \<leftarrow> ptr_field labels_into [] (n_Labels n) (field_values ''labels'' ms);
     rels \<leftarrow> ptr_field relations_into [] (n_Inverse n) (field_values ''inverseRelations'' ms);
     Some \<lparr>n_ID = i, n_Identifier = ident, n_Title = title, n_Description = desc,
       n_Priority = (if field_values ''priority'' ms = [] then n_Priority n else raw_value (field_values ''priority'' ms)),
       n_BranchName = branch, n_URL = url, n_CreatedAt = created, n_UpdatedAt = updated,
       n_State = st, n_Assignee = who, n_Labels = ls, n_Inverse = rels\<rparr> }"

text \<open>The members of the objects in a field, and of the objects in its arrays.\<close>

fun objects :: "cst list \<Rightarrow> members list" where
  "objects [] = []"
| "objects (CObj ms # vs) = ms # objects vs"
| "objects (CArr es # vs) = objects vs"
| "objects (v # vs) = objects vs"

fun array_elements :: "cst list \<Rightarrow> cst list" where
  "array_elements [] = []"
| "array_elements (CArr es # vs) = es @ array_elements vs"
| "array_elements (v # vs) = array_elements vs"

text \<open>The members of the issues an issue is related to.\<close>

definition related_members :: "members \<Rightarrow> members list" where
  "related_members ms = concat (map (\<lambda>conn. concat (map (\<lambda>rel. objects (field_values ''relatedIssue'' rel))
     (objects (array_elements (field_values ''nodes'' conn))))) (objects (field_values ''inverseRelations'' ms)))"

lemma objects_size: "ms \<in> set (objects vs) \<Longrightarrow> CObj ms \<in> set vs"
  by (induction vs rule: objects.induct) auto

lemma array_elements_in: "e \<in> set (array_elements vs) \<Longrightarrow> \<exists>es. CArr es \<in> set vs \<and> e \<in> set es"
  by (induction vs rule: array_elements.induct) auto

lemma field_size: "v \<in> set (field_values name ms) \<Longrightarrow> size v < size (CObj ms)"
proof -
  assume "v \<in> set (field_values name ms)"
  then obtain m where m: "m \<in> set ms" "v = snd m" by (auto simp: field_values_def)
  then show ?thesis
    by (induction ms) (auto simp: size_prod_simp less_Suc_eq_le)
qed

lemma related_size: "r \<in> set (related_members ms) \<Longrightarrow> size (CObj r) < size (CObj ms)"
proof -
  assume "r \<in> set (related_members ms)"
  then obtain conn rel where 1: "conn \<in> set (objects (field_values ''inverseRelations'' ms))"
    and 2: "rel \<in> set (objects (array_elements (field_values ''nodes'' conn)))"
    and 3: "r \<in> set (objects (field_values ''relatedIssue'' rel))"
    by (auto simp: related_members_def)
  obtain es where es: "CArr es \<in> set (field_values ''nodes'' conn)" "CObj rel \<in> set es"
    using array_elements_in [OF objects_size [OF 2]] by blast
  have "size (CObj r) < size (CObj rel)" by (rule field_size [OF objects_size [OF 3]])
  also have "size (CObj rel) < size (CArr es)"
    using es(2) by (induction es) (auto simp: less_Suc_eq_le)
  also have "size (CArr es) < size (CObj conn)" by (rule field_size [OF es(1)])
  also have "size (CObj conn) < size (CObj ms)" by (rule field_size [OF objects_size [OF 1]])
  finally show ?thesis .
qed

text \<open>Every issue in a document has the types of the struct, however deep it is nested.\<close>

function node_ok :: "members \<Rightarrow> bool" where
  "node_ok ms = (fields_into zero_node ms \<noteq> None \<and> (\<forall>r \<in> set (related_members ms). node_ok r))"
  by pat_completeness auto
termination
  by (relation "measure (\<lambda>ms. size (CObj ms))") (use related_size in auto)

declare node_ok.simps [simp del]

definition node_into :: "issue_node \<Rightarrow> members \<Rightarrow> issue_node option" where
  "node_into n ms = (if node_ok ms then fields_into n ms else None)"

section \<open>The answer\<close>

definition page_info_into :: "bool \<times> string option \<Rightarrow> members \<Rightarrow> (bool \<times> string option) option" where
  "page_info_into p ms = do {
     b \<leftarrow> bool_field (fst p) (field_values ''hasNextPage'' ms);
     c \<leftarrow> string_ptr (snd p) (field_values ''endCursor'' ms);
     Some (b, c) }"

definition page_into :: "issue_page \<Rightarrow> members \<Rightarrow> issue_page option" where
  "page_into p ms = do {
     ns \<leftarrow> slice_field node_into zero_node (pg_Nodes p) (field_values ''nodes'' ms);
     i \<leftarrow> struct_field page_info_into (pg_HasNextPage p, pg_EndCursor p) (field_values ''pageInfo'' ms);
     Some \<lparr>pg_Nodes = ns, pg_HasNextPage = fst i, pg_EndCursor = snd i\<rparr> }"

definition data_into :: "issue_page \<Rightarrow> members \<Rightarrow> issue_page option" where
  "data_into p ms = struct_field page_into p (field_values ''issues'' ms)"

definition message_into :: "string \<Rightarrow> members \<Rightarrow> string option" where
  "message_into m ms = string_field m (field_values ''message'' ms)"

definition zero_page :: issue_page where
  "zero_page = \<lparr>pg_Nodes = [], pg_HasNextPage = False, pg_EndCursor = None\<rparr>"

definition decode_response :: "string \<Rightarrow> gql_response option" where
  "decode_response body = do {
     c \<leftarrow> unmarshal body;
     ms \<leftarrow> struct_members c;
     d \<leftarrow> ptr_field data_into zero_page None (field_values ''data'' ms);
     es \<leftarrow> slice_field message_into [] [] (field_values ''errors'' ms);
     Some \<lparr>gr_Data = d, gr_Errors = es\<rparr> }"

text \<open>The client's environment with these codecs; \<open>err\<close> is the text of a decoding error.\<close>

definition wire_env :: "(nat \<Rightarrow> http_request \<Rightarrow> (string \<times> int) result) \<Rightarrow> (string \<Rightarrow> string) \<Rightarrow> tracker_env" where
  "wire_env http err =
     \<lparr>te_Marshal = marshal_any, te_HTTP = http,
      te_Decode = (\<lambda>body. case decode_response body of Some r \<Rightarrow> Inr r | None \<Rightarrow> Inl (PlainErr (err body)))\<rparr>"

section \<open>What a service writes is what the client reads\<close>

definition opt_doc :: "string option \<Rightarrow> json" where
  "opt_doc s = (case s of None \<Rightarrow> JNull | Some x \<Rightarrow> JStr x)"

definition named_doc :: "string option \<Rightarrow> json" where
  "named_doc s = (case s of None \<Rightarrow> JNull | Some x \<Rightarrow> JObj [(''name'', JStr x)])"

definition related_doc :: "(string \<times> string \<times> string option) option \<Rightarrow> json" where
  "related_doc r = (case r of None \<Rightarrow> JNull | Some (i, ident, st) \<Rightarrow>
     JObj [(''id'', JStr i), (''identifier'', JStr ident), (''state'', named_doc st)])"

definition relation_doc :: "relation_node \<Rightarrow> json" where
  "relation_doc r = JObj [(''type'', JStr (rn_Type r)), (''relatedIssue'', related_doc (rn_Related r))]"

definition list_doc :: "('a \<Rightarrow> json) \<Rightarrow> 'a list option \<Rightarrow> json" where
  "list_doc f xs = (case xs of None \<Rightarrow> JNull | Some ys \<Rightarrow> JObj [(''nodes'', JArr (map f ys))])"

text \<open>\<open>prio\<close> is the integer the service has, if any.\<close>

definition node_members :: "int option \<Rightarrow> issue_node \<Rightarrow> (string \<times> json) list" where
  "node_members prio n =
     [(''id'', JStr (n_ID n)), (''identifier'', JStr (n_Identifier n)), (''title'', JStr (n_Title n)),
      (''description'', opt_doc (n_Description n)), (''priority'', case prio of None \<Rightarrow> JNull | Some k \<Rightarrow> jint k),
      (''branchName'', opt_doc (n_BranchName n)), (''url'', opt_doc (n_URL n)), (''createdAt'', opt_doc (n_CreatedAt n)),
      (''updatedAt'', opt_doc (n_UpdatedAt n)), (''state'', named_doc (n_State n)), (''assignee'', named_doc (n_Assignee n)),
      (''labels'', list_doc (\<lambda>l. JObj [(''name'', JStr l)]) (n_Labels n)),
      (''inverseRelations'', list_doc relation_doc (n_Inverse n))]"

definition page_doc :: "(issue_node \<Rightarrow> int option) \<Rightarrow> issue_page \<Rightarrow> json" where
  "page_doc prio p = JObj [(''data'', JObj [(''issues'', JObj
     [(''nodes'', JArr (map (\<lambda>n. JObj (node_members (prio n) n)) (pg_Nodes p))),
      (''pageInfo'', JObj [(''hasNextPage'', JBool (pg_HasNextPage p)), (''endCursor'', opt_doc (pg_EndCursor p))])])])]"

lemma wire_keys [simp]:
  "key_fold ''id'' = [105, 100]"
  "key_fold ''identifier'' = [105, 100, 101, 110, 116, 105, 102, 105, 101, 114]"
  "key_fold ''title'' = [116, 105, 116, 108, 101]"
  "key_fold ''description'' = [100, 101, 115, 99, 114, 105, 112, 116, 105, 111, 110]"
  "key_fold ''priority'' = [112, 114, 105, 111, 114, 105, 116, 121]"
  "key_fold ''branchName'' = [98, 114, 97, 110, 99, 104, 110, 97, 109, 101]"
  "key_fold ''url'' = [117, 114, 108]"
  "key_fold ''createdAt'' = [99, 114, 101, 97, 116, 101, 100, 97, 116]"
  "key_fold ''updatedAt'' = [117, 112, 100, 97, 116, 101, 100, 97, 116]"
  "key_fold ''state'' = [115, 116, 97, 116, 101]"
  "key_fold ''assignee'' = [97, 115, 115, 105, 103, 110, 101, 101]"
  "key_fold ''labels'' = [108, 97, 98, 101, 108, 115]"
  "key_fold ''inverseRelations'' = [105, 110, 118, 101, 114, 115, 101, 114, 101, 108, 97, 116, 105, 111, 110, 115]"
  "key_fold ''name'' = [110, 97, 109, 101]"
  "key_fold ''type'' = [116, 121, 112, 101]"
  "key_fold ''nodes'' = [110, 111, 100, 101, 115]"
  "key_fold ''relatedIssue'' = [114, 101, 108, 97, 116, 101, 100, 105, 115, 115, 117, 101]"
  "key_fold ''data'' = [100, 97, 116, 97]"
  "key_fold ''errors'' = [101, 114, 114, 111, 114, 115]"
  "key_fold ''issues'' = [105, 115, 115, 117, 101, 115]"
  "key_fold ''pageInfo'' = [112, 97, 103, 101, 105, 110, 102, 111]"
  "key_fold ''hasNextPage'' = [104, 97, 115, 110, 101, 120, 116, 112, 97, 103, 101]"
  "key_fold ''endCursor'' = [101, 110, 100, 99, 117, 114, 115, 111, 114]"
  "key_fold ''message'' = [109, 101, 115, 115, 97, 103, 101]"
  "key_fold ''query'' = [113, 117, 101, 114, 121]"
  "key_fold ''variables'' = [118, 97, 114, 105, 97, 98, 108, 101, 115]"
  by (simp_all add: key_fold_eval fold_rune_def lower_rune_def fold_exceptions_def)

lemma wire_ascii [simp]:
  "is_ascii ''id''" "is_ascii ''identifier''" "is_ascii ''title''" "is_ascii ''description''" "is_ascii
  ''priority''" "is_ascii ''branchName''" "is_ascii ''url''" "is_ascii ''createdAt''" "is_ascii
  ''updatedAt''" "is_ascii ''state''" "is_ascii ''assignee''" "is_ascii ''labels''" "is_ascii
  ''inverseRelations''" "is_ascii ''name''" "is_ascii ''type''" "is_ascii ''nodes''" "is_ascii
  ''relatedIssue''" "is_ascii ''data''" "is_ascii ''errors''" "is_ascii ''issues''" "is_ascii ''pageInfo''"
  "is_ascii ''hasNextPage''" "is_ascii ''endCursor''" "is_ascii ''message''" "is_ascii ''query''" "is_ascii
  ''variables''"
  by (simp_all add: is_ascii_def)

lemmas wire_field [simp] = field_values_doc

text \<open>Strings that are valid UTF-8, as a service sends them.\<close>

definition clean :: "string \<Rightarrow> bool" where "clean s \<longleftrightarrow> valid_utf8 s = s"
definition clean_opt :: "string option \<Rightarrow> bool" where "clean_opt s = (case s of None \<Rightarrow> True | Some x \<Rightarrow> clean x)"

lemma string_doc [simp]: "clean s \<Longrightarrow> string_field x [cst_of (JStr s)] = Some s"
  by (simp add: string_round_trip clean_def)

lemma opt_doc_read [simp]: "clean_opt s \<Longrightarrow> string_ptr x [cst_of (opt_doc s)] = Some s"
  by (cases s) (simp_all add: opt_doc_def clean_opt_def string_round_trip clean_def)

lemma named_doc_state [simp]: "clean_opt s \<Longrightarrow> ptr_field state_into [] None [cst_of (named_doc s)] = Some s"
  by (cases s) (simp_all add: named_doc_def clean_opt_def state_into_def del: cst_of.simps(4))

lemma named_doc_name [simp]: "clean_opt s \<Longrightarrow> ptr_field name_into [] None [cst_of (named_doc s)] = Some s"
  by (cases s) (simp_all add: named_doc_def clean_opt_def name_into_def del: cst_of.simps(4))

lemma slice_docs:
  assumes "\<And>x. x \<in> set xs \<Longrightarrow> f z (doc_members (g x)) = Some x"
  shows "slice_field f z [] [CArr (map (\<lambda>x. CObj (doc_members (g x))) xs)] = Some xs"
proof -
  have "map (\<lambda>(i, e). element f z [] i e) (enumerate k (map (\<lambda>x. CObj (doc_members (g x))) xs)) = map Some xs" for k
    using assms by (induction xs arbitrary: k) (simp_all add: element_def)
  moreover have "all_some (map Some xs) = Some xs" by (simp add: all_some_Some)
  ultimately show ?thesis by simp
qed

lemma labels_read [simp]:
  assumes "case ls of None \<Rightarrow> True | Some xs \<Rightarrow> list_all clean xs"
  shows "ptr_field labels_into [] None [cst_of (list_doc (\<lambda>l. JObj [(''name'', JStr l)]) ls)] = Some ls"
proof (cases ls)
  case (Some xs)
  have "slice_field name_into [] [] [CArr (map (\<lambda>l. CObj (doc_members [(''name'', JStr l)])) xs)] = Some xs"
    using assms Some by (intro slice_docs) (simp add: name_into_def list_all_iff del: cst_of.simps(4))
  with Some show ?thesis by (simp add: list_doc_def labels_into_def comp_def)
qed (simp add: list_doc_def)

definition clean_related :: "(string \<times> string \<times> string option) option \<Rightarrow> bool" where
  "clean_related r = (case r of None \<Rightarrow> True | Some (i, ident, st) \<Rightarrow> clean i \<and> clean ident \<and> clean_opt st)"

lemma related_read [simp]:
  "clean_related r \<Longrightarrow> ptr_field related_into ([], [], None) None [cst_of (related_doc r)] = Some r"
  by (cases r) (auto simp: related_doc_def clean_related_def related_into_def simp del: cst_of.simps(4))

definition clean_relation :: "relation_node \<Rightarrow> bool" where
  "clean_relation r \<longleftrightarrow> clean (rn_Type r) \<and> clean_related (rn_Related r)"

lemma relations_read [simp]:
  assumes "case rs of None \<Rightarrow> True | Some xs \<Rightarrow> list_all clean_relation xs"
  shows "ptr_field relations_into [] None [cst_of (list_doc relation_doc rs)] = Some rs"
proof (cases rs)
  case (Some xs)
  have "slice_field relation_into zero_relation [] [CArr (map (\<lambda>r. CObj (doc_members
      [(''type'', JStr (rn_Type r)), (''relatedIssue'', related_doc (rn_Related r))])) xs)] = Some xs"
    using assms Some
    by (intro slice_docs)
      (simp add: relation_into_def zero_relation_def clean_relation_def list_all_iff del: cst_of.simps(4))
  with Some show ?thesis by (simp add: list_doc_def relations_into_def relation_doc_def comp_def)
qed (simp add: list_doc_def)

definition priority_value :: "int option \<Rightarrow> gvalue" where
  "priority_value k = (case k of None \<Rightarrow> VNil | Some n \<Rightarrow> VFloat (Fin (of_int n)))"

definition clean_node :: "int option \<Rightarrow> issue_node \<Rightarrow> bool" where
  "clean_node prio n \<longleftrightarrow> clean (n_ID n) \<and> clean (n_Identifier n) \<and> clean (n_Title n)
     \<and> clean_opt (n_Description n) \<and> clean_opt (n_BranchName n) \<and> clean_opt (n_URL n) \<and> clean_opt (n_CreatedAt n)
     \<and> clean_opt (n_UpdatedAt n) \<and> clean_opt (n_State n) \<and> clean_opt (n_Assignee n)
     \<and> (case n_Labels n of None \<Rightarrow> True | Some xs \<Rightarrow> list_all clean xs)
     \<and> (case n_Inverse n of None \<Rightarrow> True | Some xs \<Rightarrow> list_all clean_relation xs)
     \<and> n_Priority n = priority_value prio \<and> (case prio of None \<Rightarrow> True | Some k \<Rightarrow> \<bar>k\<bar> < 2 ^ 53)"

lemma priority_read:
  "case prio of None \<Rightarrow> True | Some k \<Rightarrow> \<bar>k\<bar> < 2 ^ 53 \<Longrightarrow>
     raw_value [cst_of (case prio of None \<Rightarrow> JNull | Some k \<Rightarrow> jint k)] = priority_value prio"
  by (cases prio) (simp_all add: raw_value_def priority_value_def any_of_jint)

lemma node_keys: "list_all (\<lambda>m. is_ascii (fst m)) (node_members prio n)"
  by (simp add: node_members_def)

lemma node_values:
  "doc_values ''id'' (node_members prio n) = [JStr (n_ID n)]"
  "doc_values ''identifier'' (node_members prio n) = [JStr (n_Identifier n)]"
  "doc_values ''title'' (node_members prio n) = [JStr (n_Title n)]"
  "doc_values ''description'' (node_members prio n) = [opt_doc (n_Description n)]"
  "doc_values ''priority'' (node_members prio n) = [case prio of None \<Rightarrow> JNull | Some k \<Rightarrow> jint k]"
  "doc_values ''branchName'' (node_members prio n) = [opt_doc (n_BranchName n)]"
  "doc_values ''url'' (node_members prio n) = [opt_doc (n_URL n)]"
  "doc_values ''createdAt'' (node_members prio n) = [opt_doc (n_CreatedAt n)]"
  "doc_values ''updatedAt'' (node_members prio n) = [opt_doc (n_UpdatedAt n)]"
  "doc_values ''state'' (node_members prio n) = [named_doc (n_State n)]"
  "doc_values ''assignee'' (node_members prio n) = [named_doc (n_Assignee n)]"
  "doc_values ''labels'' (node_members prio n) = [list_doc (\<lambda>l. JObj [(''name'', JStr l)]) (n_Labels n)]"
  "doc_values ''inverseRelations'' (node_members prio n) = [list_doc relation_doc (n_Inverse n)]"
  by (simp_all add: node_members_def)

lemma fields_intoI:
  assumes "string_field (n_ID n) (field_values ''id'' ms) = Some i"
    and "string_field (n_Identifier n) (field_values ''identifier'' ms) = Some ident"
    and "string_field (n_Title n) (field_values ''title'' ms) = Some title"
    and "string_ptr (n_Description n) (field_values ''description'' ms) = Some desc"
    and "string_ptr (n_BranchName n) (field_values ''branchName'' ms) = Some branch"
    and "string_ptr (n_URL n) (field_values ''url'' ms) = Some url"
    and "string_ptr (n_CreatedAt n) (field_values ''createdAt'' ms) = Some created"
    and "string_ptr (n_UpdatedAt n) (field_values ''updatedAt'' ms) = Some updated"
    and "ptr_field state_into [] (n_State n) (field_values ''state'' ms) = Some st"
    and "ptr_field name_into [] (n_Assignee n) (field_values ''assignee'' ms) = Some who"
    and "ptr_field labels_into [] (n_Labels n) (field_values ''labels'' ms) = Some ls"
    and "ptr_field relations_into [] (n_Inverse n) (field_values ''inverseRelations'' ms) = Some rels"
    and "(if field_values ''priority'' ms = [] then n_Priority n else raw_value (field_values ''priority'' ms)) = prio"
  shows "fields_into n ms = Some \<lparr>n_ID = i, n_Identifier = ident, n_Title = title, n_Description = desc,
       n_Priority = prio, n_BranchName = branch, n_URL = url, n_CreatedAt = created, n_UpdatedAt = updated,
       n_State = st, n_Assignee = who, n_Labels = ls, n_Inverse = rels\<rparr>"
  unfolding fields_into_def assms by simp

lemma fields_read:
  assumes "clean_node prio n"
  shows "fields_into zero_node (doc_members (node_members prio n)) = Some n"
proof -
  note c = assms [unfolded clean_node_def]
  have f: "field_values name (doc_members (node_members prio n)) = map cst_of (doc_values name (node_members prio n))"
    if "is_ascii name" for name using field_values_doc [OF node_keys that] .
  have zero: "n_State zero_node = None" "n_Assignee zero_node = None" "n_Labels zero_node = None" "n_Inverse zero_node = None"
    by (simp_all add: zero_node_def)
  have "fields_into zero_node (doc_members (node_members prio n)) = Some
      \<lparr>n_ID = n_ID n, n_Identifier = n_Identifier n, n_Title = n_Title n, n_Description = n_Description n,
       n_Priority = n_Priority n, n_BranchName = n_BranchName n, n_URL = n_URL n, n_CreatedAt = n_CreatedAt n,
       n_UpdatedAt = n_UpdatedAt n, n_State = n_State n, n_Assignee = n_Assignee n, n_Labels = n_Labels n,
       n_Inverse = n_Inverse n\<rparr>"
    by (rule fields_intoI; simp only: f wire_ascii node_values list.map zero)
      (use c priority_read [of prio] in \<open>simp_all only: string_doc opt_doc_read named_doc_state named_doc_name
         labels_read relations_read list.distinct if_False\<close>)
  then show ?thesis by simp
qed

lemma objects_docs: "objects (map (\<lambda>x. CObj (g x)) xs) = map g xs"
  by (induction xs) simp_all

lemma related_of_docs:
  "n_Inverse n = Some xs \<Longrightarrow> related_members (doc_members (node_members prio n))
     = concat (map (\<lambda>x. objects [cst_of (related_doc (rn_Related x))]) xs)"
  by (simp add: related_members_def field_values_doc [OF node_keys] node_values list_doc_def relation_doc_def
      comp_def objects_docs)

lemma related_of_none: "n_Inverse n = None \<Longrightarrow> related_members (doc_members (node_members prio n)) = []"
  by (simp add: related_members_def field_values_doc [OF node_keys] node_values list_doc_def)

lemma related_ok:
  assumes "related_doc r = JObj ms" and "clean_related r"
  shows "node_ok (doc_members ms)"
proof -
  obtain i ident st where ms: "ms = [(''id'', JStr i), (''identifier'', JStr ident), (''state'', named_doc st)]"
    and c: "clean i" "clean ident" "clean_opt st"
    using assms by (auto simp: related_doc_def clean_related_def split: option.splits)
  have f: "field_values name (doc_members ms) = map cst_of (doc_values name ms)" if "is_ascii name" for name
    using that by (intro field_values_doc) (simp_all add: ms)
  have vals: "doc_values ''id'' ms = [JStr i]" "doc_values ''identifier'' ms = [JStr ident]"
    "doc_values ''state'' ms = [named_doc st]"
    "doc_values ''title'' ms = []" "doc_values ''description'' ms = []" "doc_values ''priority'' ms = []"
    "doc_values ''branchName'' ms = []" "doc_values ''url'' ms = []" "doc_values ''createdAt'' ms = []"
    "doc_values ''updatedAt'' ms = []" "doc_values ''assignee'' ms = []" "doc_values ''labels'' ms = []"
    "doc_values ''inverseRelations'' ms = []"
    by (simp_all add: ms)
  have "fields_into zero_node (doc_members ms) = Some (zero_node\<lparr>n_ID := i, n_Identifier := ident, n_State := st\<rparr>)"
    unfolding zero_node_def issue_node.update_convs
    by (rule fields_intoI; simp only: f wire_ascii vals list.map issue_node.simps)
      (use c in \<open>simp_all only: string_doc named_doc_state string_field.simps string_ptr.simps ptr_field.simps if_True simp_thms\<close>)
  moreover have "related_members (doc_members ms) = []"
    by (simp only: related_members_def f wire_ascii vals list.map objects.simps concat.simps)
  ultimately show ?thesis by (simp add: node_ok.simps [of "doc_members ms"])
qed

lemma node_read:
  assumes "clean_node prio n"
  shows "node_into zero_node (doc_members (node_members prio n)) = Some n"
proof -
  have rels: "case n_Inverse n of None \<Rightarrow> True | Some xs \<Rightarrow> list_all clean_relation xs"
    using assms by (simp add: clean_node_def)
  have "node_ok r" if r: "r \<in> set (related_members (doc_members (node_members prio n)))" for r
  proof -
    obtain xs where xs: "n_Inverse n = Some xs"
      using r related_of_none [of n prio] by (cases "n_Inverse n") auto
    obtain x where x: "x \<in> set xs" "r \<in> set (objects [cst_of (related_doc (rn_Related x))])"
      using r by (auto simp: related_of_docs [OF xs])
    then obtain ms where "related_doc (rn_Related x) = JObj ms" "r = doc_members ms"
      by (cases "rn_Related x") (auto simp: related_doc_def)
    moreover have "clean_related (rn_Related x)"
      using rels x(1) by (simp add: xs list_all_iff clean_relation_def)
    ultimately show ?thesis using related_ok by blast
  qed
  then show ?thesis using fields_read [OF assms] by (simp add: node_into_def node_ok.simps [of "doc_members (node_members prio n)"])
qed

definition clean_page :: "(issue_node \<Rightarrow> int option) \<Rightarrow> issue_page \<Rightarrow> bool" where
  "clean_page prio p \<longleftrightarrow> (\<forall>n \<in> set (pg_Nodes p). clean_node (prio n) n) \<and> clean_opt (pg_EndCursor p)"

lemma bool_doc [simp]: "bool_field x [cst_of (JBool b)] = Some b"
  by simp

lemma page_read:
  assumes "clean_page prio p"
  shows "ptr_field data_into zero_page None [cst_of (JObj [(''issues'', JObj
     [(''nodes'', JArr (map (\<lambda>n. JObj (node_members (prio n) n)) (pg_Nodes p))),
      (''pageInfo'', JObj [(''hasNextPage'', JBool (pg_HasNextPage p)), (''endCursor'', opt_doc (pg_EndCursor p))])])])]
    = Some (Some p)"
proof -
  let ?nodes = "JArr (map (\<lambda>n. JObj (node_members (prio n) n)) (pg_Nodes p))"
  let ?info = "[(''hasNextPage'', JBool (pg_HasNextPage p)), (''endCursor'', opt_doc (pg_EndCursor p))]"
  have nodes: "slice_field node_into zero_node [] [cst_of ?nodes] = Some (pg_Nodes p)"
    using slice_docs [of "pg_Nodes p" node_into zero_node "\<lambda>n. node_members (prio n) n"] assms node_read
    by (simp add: clean_page_def comp_def)
  have info: "page_info_into x (doc_members ?info) = Some (pg_HasNextPage p, pg_EndCursor p)" for x
    using assms by (simp add: page_info_into_def clean_page_def del: cst_of.simps)
  have "page_into zero_page (doc_members [(''nodes'', ?nodes), (''pageInfo'', JObj ?info)]) = Some p"
    using nodes info by (simp add: page_into_def zero_page_def del: cst_of.simps)
  then show ?thesis by (simp add: data_into_def del: cst_of.simps)
qed

text \<open>The document is well formed, and not nested deeply.\<close>

lemma page_json_ok: "json_ok (page_doc prio p)"
proof -
  have opt: "json_ok (opt_doc s)" "json_ok (named_doc s)" for s
    by (cases s; simp add: opt_doc_def named_doc_def)+
  have "json_ok (related_doc r)" for r by (cases r) (auto simp: related_doc_def opt)
  then have "json_ok (relation_doc r)" for r by (simp add: relation_doc_def)
  then have "json_ok (list_doc relation_doc rs)" "json_ok (list_doc (\<lambda>l. JObj [(''name'', JStr l)]) ls)" for rs ls
    by (cases rs; cases ls; simp add: list_doc_def)+
  then have "json_ok (JObj (node_members pr n))" for pr n
    by (cases pr) (simp_all add: node_members_def opt jint_def itoa_number)
  then show ?thesis by (simp add: page_doc_def opt)
qed

lemma foldr_max_bound: "(\<And>x. x \<in> set xs \<Longrightarrow> x \<le> k) \<Longrightarrow> foldr max xs (0 :: nat) \<le> k"
  by (induction xs) auto

lemma page_depth: "doc_depth (page_doc prio p) \<le> max_nesting"
proof -
  have opt: "doc_depth (opt_doc s) = 0" "doc_depth (named_doc s) \<le> 1" for s
    by (cases s; simp add: opt_doc_def named_doc_def)+
  have "doc_depth (related_doc r) \<le> 2" for r using opt by (cases r) (auto simp: related_doc_def)
  then have rel: "doc_depth (relation_doc r) \<le> 3" for r by (simp add: relation_doc_def)
  have "doc_depth (JArr (map f xs)) \<le> Suc k" if "\<And>x. doc_depth (f x) \<le> k" for f :: "'c \<Rightarrow> json" and xs k
    using that by (auto intro!: foldr_max_bound)
  from this [of "\<lambda>l. JObj [(''name'', JStr l)]" 1] this [of relation_doc 3, OF rel]
  have ls: "doc_depth (list_doc (\<lambda>l. JObj [(''name'', JStr l)]) ls) \<le> 3" "doc_depth (list_doc relation_doc rs) \<le> 5" for ls rs
    by (cases ls; cases rs; simp add: list_doc_def)+
  have "doc_depth (JObj (node_members pr n)) \<le> 6" for pr n
    using ls(2) opt(1) opt(2) [THEN order_trans, of 5] ls(1) [THEN order_trans, of 5]
    by (cases pr) (simp_all add: node_members_def jint_def)
  then have "doc_depth (JArr (map (\<lambda>n. JObj (node_members (prio n) n)) (pg_Nodes p))) \<le> 7"
    by (auto intro!: foldr_max_bound simp del: doc_depth.simps(2))
  then show ?thesis by (simp add: page_doc_def opt max_nesting_def)
qed

lemma page_decoded:
  assumes "clean_page prio p"
  shows "decode_response (marshal (page_doc prio p)) = Some \<lparr>gr_Data = Some p, gr_Errors = []\<rparr>"
proof -
  let ?d = "JObj [(''issues'', JObj
     [(''nodes'', JArr (map (\<lambda>n. JObj (node_members (prio n) n)) (pg_Nodes p))),
      (''pageInfo'', JObj [(''hasNextPage'', JBool (pg_HasNextPage p)), (''endCursor'', opt_doc (pg_EndCursor p))])])]"
  have "unmarshal (marshal (page_doc prio p)) = Some (CObj (doc_members [(''data'', ?d)]))"
    using unmarshal_marshal [OF page_json_ok page_depth] by (simp add: page_doc_def)
  then show ?thesis
    using page_read [OF assms] by (simp add: decode_response_def struct_members_def del: cst_of.simps cst_of_JObj)
qed

section \<open>Over the wire\<close>

text \<open>The document of a request, with the keys of its maps in order.\<close>

definition request_any :: "gql_request \<Rightarrow> gvalue" where
  "request_any req = VMap [(''query'', VStr (gq_Query req)), (''variables'', VMap (gq_Vars req))]"

text \<open>A service that reads a request as JSON and answers with the page it has for the document.\<close>

definition json_service ::
  "(json \<Rightarrow> issue_page) \<Rightarrow> (issue_node \<Rightarrow> int option) \<Rightarrow> nat \<Rightarrow> http_request \<Rightarrow> (string \<times> int) result" where
  "json_service pages prio k rq =
     (case read_doc (hq_Body rq) of
        None \<Rightarrow> Inr ([], 400)
      | Some d \<Rightarrow> Inr (marshal (page_doc prio (pages d)), 200))"

lemma linear_do_wire:
  assumes "\<And>d. clean_page prio (pages d)" and "any_json (request_any req) = Some j"
  shows "linear_do (wire_env (json_service pages prio) err) c k req = Inr (pages (clean_doc j))"
proof -
  have "read_doc (marshal j) = Some (clean_doc j)"
    using marshal_reads_back [OF any_json_ok [OF assms(2)], of "[]"] by (simp add: ends_word_def)
  then show ?thesis
    using assms(2) page_decoded [OF assms(1)]
    by (simp add: linear_do_def wire_env_def request_any_def marshal_any_def json_service_def graphql_request_def
        del: any_json.simps)
qed

text \<open>The requests of a fetch can always be encoded.\<close>

definition fetch_filter :: "linear_client \<Rightarrow> string list \<Rightarrow> gvalue" where
  "fetch_filter c sts = VMap (project_filter c # (if sts = [] then [] else [state_filter sts]))"

definition filter_doc :: "linear_client \<Rightarrow> string list \<Rightarrow> json" where
  "filter_doc c sts = JObj ((''project'', JObj [(''slugId'', JObj [(''eq'', JStr (lc_projectSlug c))])])
     # (if sts = [] then [] else [(''state'', JObj [(''name'', JObj [(''in'', JArr (map JStr sts))])])]))"

lemma filter_any: "any_json (fetch_filter c sts) = Some (filter_doc c sts)"
proof -
  have "all_some (map (any_json \<circ> VStr) sts) = Some (map JStr sts)"
    by (simp add: all_some_Some comp_def)
  then show ?thesis by (simp add: fetch_filter_def filter_doc_def project_filter_def state_filter_def)
qed

text \<open>What the service reads for one page of the candidates.\<close>

definition candidates_doc :: "linear_client \<Rightarrow> string list \<Rightarrow> string option \<Rightarrow> json" where
  "candidates_doc c sts after = JObj
     [(''query'', JStr candidates_query),
      (''variables'', JObj ((case after of None \<Rightarrow> [] | Some a \<Rightarrow> [(''after'', JStr a)])
         @ [(''filter'', filter_doc c sts), (''first'', jint (lc_pageSize c))]))]"

lemma candidates_any:
  "any_json (request_any (page_request candidates_query
     [(''filter'', fetch_filter c sts), (''first'', VInt (lc_pageSize c))] after)) = Some (candidates_doc c sts after)"
  using filter_any [of c sts]
  by (cases after) (simp_all add: request_any_def page_request_def candidates_doc_def map_put_def)

section \<open>Property\<close>

text \<open>The pages a service gives one after the other: each request carries the cursor of the page before.\<close>

fun page_chain :: "(string option \<Rightarrow> issue_page) \<Rightarrow> nat \<Rightarrow> issue_page" where
  "page_chain f 0 = f None"
| "page_chain f (Suc i) = f (pg_EndCursor (page_chain f i))"

text \<open>
  C38: A fetch of the candidates, from the bytes of its requests to the bytes of the answers.
  Whatever the project slug, the states and the cursors contain, the service reads a document whose
  query is the constant text and in which they are string values; and when it answers with its
  pages as JSON, the client returns all their issues, field by field, in order.
\<close>

theorem candidates_over_wire:
  assumes "\<And>d. clean_page prio (pages d)"
    and "\<And>after. f after = pages (clean_doc (candidates_doc c (lc_activeStates c) after))"
    and "\<forall>i < n. announces (page_chain f i)" and "\<not> pg_HasNextPage (page_chain f n)"
  shows "FetchCandidateIssues (linear_do (wire_env (json_service pages prio) err) c) c
    = Some (Inr (concat (map (\<lambda>i. map normalizeIssue (pg_Nodes (page_chain f i))) [0..<Suc n])))"
proof -
  let ?ask = "linear_do (wire_env (json_service pages prio) err) c"
  let ?vars = "[(''filter'', fetch_filter c (lc_activeStates c)), (''first'', VInt (lc_pageSize c))]"
  have ask: "?ask k (page_request candidates_query ?vars after) = Inr (f after)" for k after
    using linear_do_wire [OF assms(1) candidates_any] by (simp add: assms(2))
  have cursor: "Inr (f (cursor_at (page_chain f) k)) = Inr (page_chain f k)" for k
    by (cases k) (simp_all add: cursor_at_def)
  have served: "served ?ask candidates_query ?vars (page_chain f) n"
    using assms(3) cursor by (simp add: served_def ask)
  have "?ask n (page_request candidates_query ?vars (cursor_at (page_chain f) n)) = Inr (page_chain f n)"
    using cursor by (simp add: ask)
  then have "paginateWith ?ask candidates_query ?vars 0 None []
      = Some (Inr (concat (map (\<lambda>i. map normalizeIssue (pg_Nodes (page_chain f i))) [0..<n])
          @ map normalizeIssue (pg_Nodes (page_chain f n))))"
    using pages_outcome [OF served] assms(4) by (simp add: final_def announces_def)
  then show ?thesis
    by (cases "lc_activeStates c = []") (simp_all add: FetchCandidateIssues_def paginateIssues_def fetch_filter_def)
qed

text \<open>A service with two pages; the second needs the cursor of the first.\<close>

definition ex_pages :: "json \<Rightarrow> issue_page" where
  "ex_pages d = (if member ''after'' (member ''variables'' d) = JStr ''c''
     then \<lparr>pg_Nodes = [ex_node ''b''], pg_HasNextPage = False, pg_EndCursor = None\<rparr>
     else \<lparr>pg_Nodes = [ex_node ''a''], pg_HasNextPage = True, pg_EndCursor = Some ''c''\<rparr>)"

theorem candidates_over_wire_witness:
  "FetchCandidateIssues (linear_do (wire_env (json_service ex_pages (\<lambda>n. None)) (\<lambda>s. ''bad'')) ex_client) ex_client
    = Some (Inr [normalizeIssue (ex_node ''a''), normalizeIssue (ex_node ''b'')])"
proof -
  let ?f = "\<lambda>after. ex_pages (clean_doc (candidates_doc ex_client (lc_activeStates ex_client) after))"
  have utf8: "valid_utf8 s = s" if "is_ascii s" for s using that by (simp add: valid_utf8_id utf8_ascii)
  have ascii: "is_ascii ''a''" "is_ascii ''b''" "is_ascii ''c''" "is_ascii ''t''" "is_ascii ''todo''" "is_ascii ''after''"
    "is_ascii ''filter''" "is_ascii ''first''" "is_ascii []"
    by (simp_all add: is_ascii_def)
  have node: "clean_node None (ex_node s)" if "is_ascii s" for s
    using that utf8 ascii by (simp add: clean_node_def ex_node_def clean_def clean_opt_def priority_value_def)
  have pages: "clean_page (\<lambda>n. None) (ex_pages d)" for d
    using node ascii utf8 by (simp add: ex_pages_def clean_page_def clean_opt_def clean_def)
  have after: "member ''after'' (member ''variables'' (clean_doc (candidates_doc ex_client [] a)))
      = (case a of None \<Rightarrow> JNull | Some s \<Rightarrow> JStr (valid_utf8 s))" for a
    by (cases a) (simp_all add: candidates_doc_def utf8 ascii)
  have first: "?f None = \<lparr>pg_Nodes = [ex_node ''a''], pg_HasNextPage = True, pg_EndCursor = Some ''c''\<rparr>"
    and second: "?f (Some ''c'') = \<lparr>pg_Nodes = [ex_node ''b''], pg_HasNextPage = False, pg_EndCursor = None\<rparr>"
    using after by (simp_all add: ex_pages_def ex_client_def utf8 ascii)
  have "FetchCandidateIssues (linear_do (wire_env (json_service ex_pages (\<lambda>n. None)) (\<lambda>s. ''bad'')) ex_client) ex_client
    = Some (Inr (concat (map (\<lambda>i. map normalizeIssue (pg_Nodes (page_chain ?f i))) [0..<Suc 1])))"
    by (rule candidates_over_wire [OF pages]) (use first second in \<open>simp_all add: announces_def\<close>)
  then show ?thesis using first second by simp
qed

end
