(* ===== verification/Regex.thy ===== *)
theory Regex
  imports GoStrings
begin

text \<open>
  The part of package \<^verbatim>\<open>regexp\<close> the prompt check uses: matching with priorities. A match of an
  expression at a position is what it consumes and what its group captured; \<open>ms\<close> lists the
  matches in the order the package prefers them (greedy, lazy and optional parts as written),
  so the match is the first of the list, and \<open>find_all\<close> scans for successive matches. The
  expressions of the program have one group at most, consume ASCII at their ends and never
  match the empty string, so bytes serve for characters.
\<close>

section \<open>Expressions\<close>

datatype re =
    Lit string
  | Cls "char \<Rightarrow> bool"
  | Opt re
  | Many "char \<Rightarrow> bool"
  | Lazy "char \<Rightarrow> bool"
  | Seq re re
  | Cap re
  | WordB

definition re_space :: "char \<Rightarrow> bool" where
  "re_space c \<longleftrightarrow> byte c \<in> {9, 10, 12, 13, 32}"

definition re_dot :: "char \<Rightarrow> bool" where
  "re_dot c \<longleftrightarrow> byte c \<noteq> 10"

definition id_start :: "char \<Rightarrow> bool" where
  "id_start c \<longleftrightarrow> (let b = byte c in 65 \<le> b \<and> b \<le> 90 \<or> 97 \<le> b \<and> b \<le> 122 \<or> b = 95)"

definition id_char :: "char \<Rightarrow> bool" where
  "id_char c \<longleftrightarrow> id_start c \<or> 48 \<le> byte c \<and> byte c \<le> 57"

definition word_at :: "char option \<Rightarrow> bool" where
  "word_at c = (case c of None \<Rightarrow> False | Some x \<Rightarrow> id_char x)"

definition first_char :: "string \<Rightarrow> char option" where
  "first_char s = (case s of [] \<Rightarrow> None | c # _ \<Rightarrow> Some c)"

definition last_char :: "char option \<Rightarrow> string \<Rightarrow> char option" where
  "last_char p x = (if x = [] then p else Some (last x))"

text \<open>\<open>p\<close> is the character before the position, for the word boundary.\<close>

fun ms :: "re \<Rightarrow> char option \<Rightarrow> string \<Rightarrow> (string \<times> string option) list" where
  "ms (Lit x) p s = (if has_prefix s x then [(x, None)] else [])"
| "ms (Cls f) p s = (case s of [] \<Rightarrow> [] | c # _ \<Rightarrow> if f c then [([c], None)] else [])"
| "ms (Opt r) p s = ms r p s @ [([], None)]"
| "ms (Many f) p s = map (\<lambda>n. (take n s, None)) (rev [0..<Suc (length (takeWhile f s))])"
| "ms (Lazy f) p s = map (\<lambda>n. (take n s, None)) [0..<Suc (length (takeWhile f s))]"
| "ms (Seq a b) p s = concat (map (\<lambda>(x, k). map (\<lambda>(y, k'). (x @ y, if k' = None then k else k'))
     (ms b (last_char p x) (drop (length x) s))) (ms a p s))"
| "ms (Cap r) p s = map (\<lambda>(x, k). (x, Some x)) (ms r p s)"
| "ms WordB p s = (if word_at p \<noteq> word_at (first_char s) then [([], None)] else [])"

fun seqs :: "re list \<Rightarrow> re" where
  "seqs [] = Lit []"
| "seqs [r] = r"
| "seqs (r # rs) = Seq r (seqs rs)"

text \<open>\<^verbatim>\<open>FindAll\<close>: position, text and group of each match; an empty match would advance by one.\<close>

function find_all :: "re \<Rightarrow> char option \<Rightarrow> nat \<Rightarrow> string \<Rightarrow> (nat \<times> string \<times> string option) list" where
  "find_all r p i s =
     (case ms r p s of
        [] \<Rightarrow> (case s of [] \<Rightarrow> [] | c # s' \<Rightarrow> find_all r (Some c) (Suc i) s')
      | (x, k) # _ \<Rightarrow>
          (i, x, k) # (if s = [] then []
             else if x = [] then find_all r (Some (hd s)) (Suc i) (tl s)
             else find_all r (Some (last x)) (i + length x) (drop (length x) s)))"
  by pat_completeness auto
termination
  by (relation "measure (\<lambda>(r, p, i, s). length s)") (auto simp: neq_Nil_conv)

declare find_all.simps [simp del]

definition groups :: "re \<Rightarrow> string \<Rightarrow> string list" where
  "groups r s = map (\<lambda>(i, x, k). case k of None \<Rightarrow> [] | Some g \<Rightarrow> g) (find_all r None 0 s)"

section \<open>Scanning\<close>

lemma find_all_Nil: "ms r p [] = [] \<Longrightarrow> find_all r p i [] = []"
  by (subst find_all.simps) simp

lemma find_all_skip: "ms r p (c # s) = [] \<Longrightarrow> find_all r p i (c # s) = find_all r (Some c) (Suc i) s"
  by (subst find_all.simps) simp

lemma find_all_match:
  "ms r p s = (x, k) # rest \<Longrightarrow> x \<noteq> [] \<Longrightarrow> s \<noteq> [] \<Longrightarrow>
     find_all r p i s = (i, x, k) # find_all r (Some (last x)) (i + length x) (drop (length x) s)"
  by (subst find_all.simps) simp

text \<open>The first success of a list of alternatives.\<close>

lemma concat_map_first:
  assumes "\<And>n. n < m \<Longrightarrow> f n = []" and "f m = y # ys" and "m < k"
  shows "\<exists>zs. concat (map f [0..<k]) = y # zs"
proof -
  have "[0..<k] = [0..<m] @ m # [Suc m..<k]" using assms(3) by (metis less_imp_le_nat upt_add_eq_append upt_conv_Cons zero_le le_add_diff_inverse)
  then have split: "concat (map f [0..<k]) = concat (map f [0..<m]) @ f m @ concat (map f [Suc m..<k])" by simp
  have nil: "concat (map f [0..<m]) = []" using assms(1) by simp
  show ?thesis unfolding split nil assms(2) by simp
qed

lemma ms_Seq_first:
  assumes "ms a p s = (x, k) # rest" and "ms b (last_char p x) (drop (length x) s) = (y, k') # rest'"
  shows "\<exists>zs. ms (Seq a b) p s = (x @ y, if k' = None then k else k') # zs"
  using assms by simp

lemma ms_Seq_none: "ms a p s = [] \<Longrightarrow> ms (Seq a b) p s = []"
  by simp

section \<open>Expressions that begin with a literal\<close>

text \<open>Where they match does not depend on what stands before, so groups can be computed piece by piece.\<close>

definition lit_re :: "char \<Rightarrow> string \<Rightarrow> re \<Rightarrow> re" where
  "lit_re a x q = Seq (Lit (a # x)) q"

lemma ms_lit_prev: "ms (lit_re a x q) p s = ms (lit_re a x q) p' s"
  by (simp add: lit_re_def last_char_def)

lemma ms_lit_none: "\<not> has_prefix s (a # x) \<Longrightarrow> ms (lit_re a x q) p s = []"
  by (simp add: lit_re_def)

lemma caps_prev:
  "map (\<lambda>(i, x, k). f k) (find_all (lit_re a x q) p i s) = map (\<lambda>(i, x, k). f k) (find_all (lit_re a x q) p' i' s)"
proof (induction s arbitrary: p p' i i' rule: length_induct)
  case (1 s)
  show ?case
  proof (cases "ms (lit_re a x q) p s")
    case Nil
    then have "ms (lit_re a x q) p' s = []" using ms_lit_prev by metis
    with Nil 1 show ?thesis
      by (cases s) (simp_all add: find_all_Nil find_all_skip)
  next
    case (Cons m rest)
    obtain y k where m: "m = (y, k)" by (cases m)
    have c: "ms (lit_re a x q) p s = (y, k) # rest" using Cons m by simp
    then have c': "ms (lit_re a x q) p' s = (y, k) # rest" using ms_lit_prev by metis
    have y: "y \<noteq> []" using c by (auto simp: lit_re_def split: if_splits)
    have s: "s \<noteq> []" using c by (auto simp: lit_re_def has_prefix_def split: if_splits)
    have "length (drop (length y) s) < length s" using y s by (cases y; cases s) simp_all
    with 1 show ?thesis
      by (simp add: find_all_match [OF c y s] find_all_match [OF c' y s])
  qed
qed

lemma groups_Nil: "groups (lit_re a x q) [] = []"
  by (simp add: groups_def find_all_Nil ms_lit_none has_prefix_def)

lemma groups_skip_char:
  "\<not> has_prefix (c # s) (a # x) \<Longrightarrow> groups (lit_re a x q) (c # s) = groups (lit_re a x q) s"
  unfolding groups_def
  using caps_prev [of "\<lambda>k. case k of None \<Rightarrow> [] | Some g \<Rightarrow> g" a x q "Some c" "Suc 0" s None 0]
  by (simp add: find_all_skip ms_lit_none)

lemma groups_skip: "a \<notin> set t \<Longrightarrow> groups (lit_re a x q) (t @ s) = groups (lit_re a x q) s"
  by (induction t) (auto simp: groups_skip_char has_prefix_def)

lemma groups_match:
  assumes "ms (lit_re a x q) None (y @ s) = (y, Some g) # rest" and "y \<noteq> []"
  shows "groups (lit_re a x q) (y @ s) = g # groups (lit_re a x q) s"
  unfolding groups_def
  using caps_prev [of "\<lambda>k. case k of None \<Rightarrow> [] | Some g \<Rightarrow> g" a x q "Some (last y)" "length y" s None 0] assms
  by (simp add: find_all_match)

end
