(* ===== verification/Prompt.thy ===== *)
theory Prompt
  imports Regex Domain
begin

text \<open>
  strict.go of package \<^verbatim>\<open>prompt\<close>: the check for unknown variables that runs before the template
  engine. What it computes on templates is proved in \<open>PromptCheck\<close> and \<open>PromptStrict\<close>;
  \<^verbatim>\<open>Render\<close>, which calls it, is in \<open>PromptRender\<close>.
\<close>

section \<open>strict.go: expressions\<close>

definition lbrace :: char where "lbrace = CHR 0x7B"
definition rbrace :: char where "rbrace = CHR 0x7D"
definition percent :: char where "percent = CHR 0x25"
definition pipe :: char where "pipe = CHR 0x7C"
definition colon :: char where "colon = CHR 0x3A"
definition equals :: char where "equals = CHR 0x3D"
definition dot :: char where "dot = CHR 0x2E"
definition dash :: char where "dash = CHR 0x2D"
definition squote :: char where "squote = CHR 0x27"
definition dquote :: char where "dquote = CHR 0x22"

definition ident_re :: re where
  "ident_re = Seq (Cls id_start) (Many id_char)"

definition spaces1 :: re where
  "spaces1 = Seq (Cls re_space) (Many re_space)"

text \<open>What the four expressions for local variables share: the opening, a keyword and a name.\<close>

definition local_re :: "string \<Rightarrow> re list \<Rightarrow> re" where
  "local_re kw after = seqs
     ([Lit [lbrace, percent], Opt (Lit [dash]), Many re_space, Lit kw, spaces1, Cap ident_re] @ after)"

definition forVarRe :: re where "forVarRe = local_re ''for'' [spaces1, Lit ''in'', WordB]"
definition assignVarRe :: re where "assignVarRe = local_re ''assign'' [Many re_space, Lit [equals]]"
definition captureVarRe :: re where
  "captureVarRe = local_re ''capture'' [Many re_space, Opt (Lit [dash]), Lit [percent, rbrace]]"
definition tablerowVarRe :: re where "tablerowVarRe = local_re ''tablerow'' [spaces1, Lit ''in'', WordB]"

definition outputRe :: re where
  "outputRe = seqs [Lit [lbrace, lbrace], Opt (Lit [dash]), Cap (Lazy re_dot), Opt (Lit [dash]), Lit [rbrace, rbrace]]"
definition tagRe :: re where
  "tagRe = seqs [Lit [lbrace, percent], Opt (Lit [dash]), Cap (Lazy re_dot), Opt (Lit [dash]), Lit [percent, rbrace]]"

definition in_word_re :: re where "in_word_re = seqs [WordB, Lit ''in'', WordB]"

section \<open>strict.go: functions\<close>

definition liquidKeywords :: "string list" where
  "liquidKeywords =
     [''if'', ''elsif'', ''else'', ''endif'', ''unless'', ''endunless'', ''for'', ''endfor'', ''in'', ''reversed'',
      ''limit'', ''offset'', ''range'', ''assign'', ''capture'', ''endcapture'', ''case'', ''when'', ''endcase'',
      ''tablerow'', ''endtablerow'', ''cols'', ''cycle'', ''increment'', ''decrement'', ''break'', ''continue'',
      ''comment'', ''endcomment'', ''raw'', ''endraw'', ''include'', ''render'', ''with'', ''as'', ''and'', ''or'',
      ''not'', ''contains'', ''true'', ''false'', ''nil'', ''null'', ''empty'', ''blank'', ''by'']"

definition non_expr_tags :: "string list" where
  "non_expr_tags = [''endif'', ''endfor'', ''endunless'', ''endcase'', ''endcapture'', ''endtablerow'', ''comment'',
     ''endcomment'', ''raw'', ''endraw'', ''else'', ''break'', ''continue'', ''increment'', ''decrement'']"

definition isNonExprTag :: "string \<Rightarrow> bool" where
  "isNonExprTag expr = (case str_fields expr of [] \<Rightarrow> True | f # _ \<Rightarrow> f \<in> set non_expr_tags)"

definition expressionBlocks :: "string \<Rightarrow> string list" where
  "expressionBlocks template =
     groups outputRe template
     @ filter (\<lambda>expr. \<not> isNonExprTag expr) (map trim_space (groups tagRe template))"

fun strip_loop :: "char option \<Rightarrow> string \<Rightarrow> string" where
  "strip_loop q [] = []"
| "strip_loop q (c # s) =
     (case q of
        Some qc \<Rightarrow> CHR '' '' # strip_loop (if c = qc then None else Some qc) s
      | None \<Rightarrow> if c = squote \<or> c = dquote then CHR '' '' # strip_loop (Some c) s else c # strip_loop None s)"

definition stripStringLiterals :: "string \<Rightarrow> string" where
  "stripStringLiterals s = strip_loop None s"

definition blank_char :: "char \<Rightarrow> bool" where
  "blank_char c \<longleftrightarrow> byte c \<in> {32, 9}"

definition firstNonSpace :: "string \<Rightarrow> char option" where
  "firstNonSpace s = first_char (dropWhile blank_char s)"

definition lastNonSpace :: "string \<Rightarrow> char option" where
  "lastNonSpace s = firstNonSpace (rev s)"

definition rootsInValue :: "string \<Rightarrow> string list" where
  "rootsInValue fragment =
     map (\<lambda>(i, x, k). x) (filter (\<lambda>(i, x, k). x \<notin> set liquidKeywords
         \<and> \<not> (0 < i \<and> lastNonSpace (take i fragment) = Some dot)
         \<and> firstNonSpace (drop (i + length x) fragment) \<noteq> Some colon)
       (find_all ident_re None 0 fragment))"

text \<open>What follows the first occurrence of a character, if there is one.\<close>

definition after_char :: "char \<Rightarrow> string \<Rightarrow> string option" where
  "after_char c s = (if c \<in> set s then Some (tl (dropWhile (\<lambda>x. x \<noteq> c) s)) else None)"

text \<open>The leading tag keyword with what belongs to it is dropped; a capture has no expression.\<close>

definition drop_keyword :: "string \<Rightarrow> string option" where
  "drop_keyword trimmed =
     (case str_fields trimmed of
        [] \<Rightarrow> Some trimmed
      | f # _ \<Rightarrow>
          if f \<notin> set liquidKeywords then Some trimmed
          else (let t1 = trim_space (trim_prefix trimmed f);
                    t2 = (if f = ''assign'' then (case after_char equals t1 of Some r \<Rightarrow> r | None \<Rightarrow> t1) else t1);
                    t3 = (if f = ''for'' \<or> f = ''tablerow''
                          then (case find_all in_word_re None 0 t2 of
                                  [] \<Rightarrow> t2 | (i, x, k) # _ \<Rightarrow> drop (i + length x) t2)
                          else t2)
                in if f = ''capture'' then None else Some t3))"

definition filter_roots :: "string \<Rightarrow> string list" where
  "filter_roots seg =
     (case after_char colon (trim_space seg) of None \<Rightarrow> [] | Some args \<Rightarrow> rootsInValue args)"

definition variableRoots :: "string \<Rightarrow> string list" where
  "variableRoots expr =
     (case drop_keyword (trim_space (stripStringLiterals expr)) of
        None \<Rightarrow> []
      | Some trimmed \<Rightarrow>
          (case split_char pipe trimmed of
             [] \<Rightarrow> []
           | value # filters \<Rightarrow> rootsInValue value @ concat (map filter_roots filters)))"

definition known_names :: "string \<Rightarrow> string list \<Rightarrow> string list" where
  "known_names template keys =
     [''forloop'', ''tablerowloop''] @ keys @ groups forVarRe template @ groups assignVarRe template
     @ groups captureVarRe template @ groups tablerowVarRe template"

definition checkUnknownVariables :: "string \<Rightarrow> string list \<Rightarrow> go_error option" where
  "checkUnknownVariables template keys =
     (case find (\<lambda>v. v \<notin> set (known_names template keys))
         (concat (map variableRoots (expressionBlocks template))) of
        None \<Rightarrow> None
      | Some v \<Rightarrow> Some (TypedErr ''template_render_error'' (''unknown variable: '' @ v)))"

end
