(* ===== verification/PromptCheck.thy ===== *)
theory PromptCheck
  imports Prompt
begin

text \<open>
  What the check for unknown variables does on templates of the common shape: text, outputs
  with filters, loops and conditions. It comes down to the roots of the paths and the names of
  the loops, computed on the structure of the template.
\<close>

section \<open>Characters\<close>

lemmas prompt_chars = lbrace_def rbrace_def percent_def pipe_def colon_def equals_def dot_def dash_def
  squote_def dquote_def

lemma chars_distinct [simp]:
  "lbrace \<noteq> percent" "percent \<noteq> lbrace" "percent \<noteq> dash" "rbrace \<noteq> dash" "dash \<noteq> rbrace" "dash \<noteq> percent"
  "lbrace \<noteq> dash" "dash \<noteq> lbrace" "lbrace \<noteq> rbrace" "rbrace \<noteq> lbrace" "percent \<noteq> rbrace" "rbrace \<noteq> percent"
  "CHR '' '' \<noteq> dash" "CHR '' '' \<noteq> lbrace" "CHR '' '' \<noteq> rbrace" "CHR '' '' \<noteq> percent" "CHR '' '' \<noteq> pipe"
  "CHR '' '' \<noteq> colon" "CHR '' '' \<noteq> squote" "CHR '' '' \<noteq> dquote" "CHR '' '' \<noteq> equals" "CHR '' '' \<noteq> dot"
  "dash \<noteq> CHR '' ''" "lbrace \<noteq> CHR '' ''" "rbrace \<noteq> CHR '' ''" "percent \<noteq> CHR '' ''" "pipe \<noteq> CHR '' ''"
  "colon \<noteq> CHR '' ''" "squote \<noteq> CHR '' ''" "dot \<noteq> CHR '' ''" "equals \<noteq> CHR '' ''"
  "dot \<noteq> colon" "dot \<noteq> pipe" "pipe \<noteq> dot" "colon \<noteq> pipe" "pipe \<noteq> colon" "equals \<noteq> colon" "equals \<noteq> dot"
  "equals \<noteq> pipe" "dot \<noteq> squote" "dot \<noteq> dquote" "pipe \<noteq> squote" "pipe \<noteq> dquote" "colon \<noteq> squote"
  "colon \<noteq> dquote" "equals \<noteq> squote" "equals \<noteq> dquote" "colon \<noteq> dot" "squote \<noteq> dot" "pipe \<noteq> lbrace"
  "colon \<noteq> lbrace" "dot \<noteq> lbrace" "equals \<noteq> lbrace" "squote \<noteq> lbrace" "pipe \<noteq> rbrace" "colon \<noteq> rbrace"
  "dot \<noteq> rbrace" "equals \<noteq> percent" "dot \<noteq> percent" "squote \<noteq> percent" "pipe \<noteq> equals"
  "dot \<noteq> dash" "squote \<noteq> dash" "rbrace \<noteq> colon" "rbrace \<noteq> dot"
  "dquote \<noteq> CHR '' ''"
  by (simp_all add: prompt_chars)

lemma id_char_not [simp]:
  "\<not> id_char lbrace" "\<not> id_char rbrace" "\<not> id_char percent" "\<not> id_char pipe" "\<not> id_char colon" "\<not> id_char equals"
  "\<not> id_char dot" "\<not> id_char dash" "\<not> id_char squote" "\<not> id_char dquote" "\<not> id_char (CHR '' '')"
  by (simp_all add: id_char_def id_start_def prompt_chars)

lemma id_start_not [simp]:
  "\<not> id_start lbrace" "\<not> id_start rbrace" "\<not> id_start percent" "\<not> id_start pipe" "\<not> id_start colon"
  "\<not> id_start equals" "\<not> id_start dot" "\<not> id_start dash" "\<not> id_start squote" "\<not> id_start (CHR '' '')"
  by (simp_all add: id_start_def prompt_chars)

lemma id_start_char: "id_start c \<Longrightarrow> id_char c"
  by (simp add: id_char_def)

lemma id_char_neq:
  assumes "id_char c"
  shows "c \<noteq> lbrace" "c \<noteq> rbrace" "c \<noteq> percent" "c \<noteq> pipe" "c \<noteq> colon" "c \<noteq> equals" "c \<noteq> dot" "c \<noteq> dash"
    "c \<noteq> squote" "c \<noteq> dquote" "c \<noteq> CHR '' ''"
  using assms by auto

lemma re_dot_chars [simp]:
  "re_dot lbrace" "re_dot rbrace" "re_dot percent" "re_dot pipe" "re_dot colon" "re_dot equals" "re_dot dot"
  "re_dot squote" "re_dot (CHR '' '')"
  by (simp_all add: re_dot_def prompt_chars)

lemma id_char_dot: "id_char c \<Longrightarrow> re_dot c"
  by (auto simp: id_char_def id_start_def re_dot_def Let_def)

lemma re_space_chars [simp]: "re_space (CHR '' '')" "\<not> re_space dot" "\<not> re_space rbrace" "\<not> re_space percent"
  by (simp_all add: re_space_def prompt_chars)

lemma id_char_space: "id_char c \<Longrightarrow> \<not> re_space c"
  by (auto simp: id_char_def id_start_def re_space_def Let_def)

lemma id_char_ascii: "id_char c \<Longrightarrow> byte c < 128"
  by (auto simp: id_char_def id_start_def Let_def)

section \<open>Outputs and tags\<close>

definition delim_re :: "char \<Rightarrow> char \<Rightarrow> char \<Rightarrow> re" where
  "delim_re b c1 c2 = lit_re lbrace [b]
     (Seq (Opt (Lit [dash])) (Seq (Cap (Lazy re_dot)) (Seq (Opt (Lit [dash])) (Lit [c1, c2]))))"

lemma outputRe_delim: "outputRe = delim_re lbrace rbrace rbrace"
  and tagRe_delim: "tagRe = delim_re percent percent rbrace"
  by (simp_all add: outputRe_def tagRe_def delim_re_def lit_re_def)

lemma ms_Cap_Lazy:
  "ms (Seq (Cap (Lazy f)) b) p s = concat (map (\<lambda>n. map (\<lambda>(y, k). (take n s @ y, if k = None then Some (take n s) else k))
     (ms b (last_char p (take n s)) (drop n s))) [0..<Suc (length (takeWhile f s))])"
proof -
  have "drop (min (length s) n) s = drop n s" for n by (simp add: min_def)
  then show ?thesis by (simp add: comp_def del: upt_Suc)
qed

lemma delim_tail:
  assumes "bs \<noteq> []" and "last bs \<noteq> dash" and "c1 \<notin> set bs" and "n < length bs" and "c1 \<noteq> dash"
  shows "ms (Seq (Opt (Lit [dash])) (Lit [c1, c2])) p (drop n (bs @ [c1, c2] @ s)) = []"
proof -
  obtain y zs where bs: "bs = take n bs @ y # zs" and y: "y = bs ! n"
    using assms(4) id_take_nth_drop by blast
  have "drop n (take n bs @ y # zs @ [c1, c2] @ s) = y # zs @ [c1, c2] @ s" using assms(4) by simp
  moreover have "bs @ [c1, c2] @ s = take n bs @ y # zs @ [c1, c2] @ s"
    using arg_cong [OF bs, of "\<lambda>x. x @ [c1, c2] @ s"] by simp
  ultimately have d: "drop n (bs @ [c1, c2] @ s) = y # zs @ [c1, c2] @ s" by (simp only:)
  have "y \<in> set bs" "set zs \<subseteq> set bs" "zs = [] \<Longrightarrow> last bs = y"
    using arg_cong [OF bs, of set] arg_cong [OF bs, of last] by auto
  then have "y \<noteq> c1" "c1 \<notin> set zs" "zs = [] \<Longrightarrow> y \<noteq> dash" using assms(2,3) by auto
  then show ?thesis unfolding d by (cases zs) (auto simp: has_prefix_def)
qed

declare ms.simps(6) [simp del]

lemma delim_match:
  assumes "bs \<noteq> []" and "hd bs \<noteq> dash" and "last bs \<noteq> dash" and "c1 \<notin> set bs" and "list_all re_dot bs" and "c1 \<noteq> dash"
  shows "\<exists>rest. ms (delim_re b c1 c2) None (([lbrace, b] @ bs @ [c1, c2]) @ s) = ([lbrace, b] @ bs @ [c1, c2], Some bs) # rest"
proof -
  let ?u = "bs @ [c1, c2] @ s"
  let ?T = "Seq (Opt (Lit [dash])) (Lit [c1, c2])"
  let ?f = "\<lambda>n. map (\<lambda>(y, k). (take n ?u @ y, if k = None then Some (take n ?u) else k))
     (ms ?T (last_char (Some b) (take n ?u)) (drop n ?u))"
  have none: "?f n = []" if "n < length bs" for n
    using delim_tail [OF assms(1,3,4) that assms(6)] by simp
  have some: "?f (length bs) = [(bs @ [c1, c2], Some bs)]"
    using assms(6) by (simp add: has_prefix_def ms.simps(6))
  have "length bs < Suc (length (takeWhile re_dot ?u))"
    using assms(5) by (simp add: takeWhile_append2 list_all_iff)
  from concat_map_first [of "length bs" ?f, OF none some this]
  obtain rest where cap: "ms (Seq (Cap (Lazy re_dot)) ?T) (Some b) ?u = (bs @ [c1, c2], Some bs) # rest"
    unfolding ms_Cap_Lazy by blast
  have "\<not> has_prefix ?u [dash]" using assms(1,2) by (cases bs) (simp_all add: has_prefix_def)
  then have opt: "ms (Opt (Lit [dash])) (Some b) ?u = [([], None)]" by simp
  have last_Nil: "last_char (Some b) [] = Some b" by (simp add: last_char_def)
  have cap': "ms (Seq (Cap (Lazy re_dot)) ?T) (last_char (Some b) []) (drop (length []) ?u) = (bs @ [c1, c2], Some bs) # rest"
    unfolding last_Nil list.size drop_0 by (rule cap)
  obtain rest' where rest: "ms (Seq (Opt (Lit [dash])) (Seq (Cap (Lazy re_dot)) ?T)) (Some b) ?u
      = (bs @ [c1, c2], Some bs) # rest'"
    using ms_Seq_first [OF opt cap'] by auto
  have lit: "ms (Lit [lbrace, b]) None (([lbrace, b] @ bs @ [c1, c2]) @ s) = [([lbrace, b], None)]"
    by (simp add: has_prefix_def)
  have drop_lit: "drop (length [lbrace, b]) (([lbrace, b] @ bs @ [c1, c2]) @ s) = ?u"
    and last_lit: "last_char None [lbrace, b] = Some b" by (simp_all add: last_char_def)
  have rest': "ms (Seq (Opt (Lit [dash])) (Seq (Cap (Lazy re_dot)) ?T)) (last_char None [lbrace, b])
      (drop (length [lbrace, b]) (([lbrace, b] @ bs @ [c1, c2]) @ s)) = (bs @ [c1, c2], Some bs) # rest'"
    unfolding last_lit drop_lit by (rule rest)
  show ?thesis
    unfolding delim_re_def lit_re_def using ms_Seq_first [OF lit rest'] by simp
qed

lemma groups_delim:
  assumes "bs \<noteq> []" and "hd bs \<noteq> dash" and "last bs \<noteq> dash" and "c1 \<notin> set bs" and "list_all re_dot bs" and "c1 \<noteq> dash"
  shows "groups (delim_re b c1 c2) ([lbrace, b] @ bs @ [c1, c2] @ s) = bs # groups (delim_re b c1 c2) s"
proof -
  obtain rest where "ms (delim_re b c1 c2) None (([lbrace, b] @ bs @ [c1, c2]) @ s) =
      ([lbrace, b] @ bs @ [c1, c2], Some bs) # rest"
    using delim_match [OF assms] by blast
  then have "groups (delim_re b c1 c2) (([lbrace, b] @ bs @ [c1, c2]) @ s) = bs # groups (delim_re b c1 c2) s"
    unfolding delim_re_def by (rule groups_match) simp
  then show ?thesis by simp
qed

section \<open>Names of loops\<close>

definition is_ident :: "string \<Rightarrow> bool" where
  "is_ident w \<longleftrightarrow> w \<noteq> [] \<and> id_start (hd w) \<and> list_all id_char (tl w)"

lemma is_ident_chars: "is_ident w \<Longrightarrow> list_all id_char w"
  by (cases w) (auto simp: is_ident_def id_start_char)

lemma local_re_lit: "local_re kw after = lit_re lbrace [percent]
    (seqs ([Opt (Lit [dash]), Many re_space, Lit kw, spaces1, Cap ident_re] @ after))"
  by (simp add: local_re_def lit_re_def)

text \<open>A tag that does not begin with the keyword is not the tag of the expression.\<close>

lemma local_re_other:
  assumes "\<not> has_prefix t kw" and "kw \<noteq> []" and "id_char (hd kw)" and "t \<noteq> []" and "id_char (hd t)"
  shows "ms (local_re kw after) p ([lbrace, percent] @ CHR '' '' # t) = []"
proof -
  have "takeWhile re_space (CHR '' '' # t) = [CHR '' '']" using assms(4,5) id_char_space by (cases t) auto
  moreover have "\<not> has_prefix (CHR '' '' # t) kw" using assms(2,3) by (cases kw) (auto simp: has_prefix_def)
  ultimately show ?thesis
    using assms(1) by (simp add: local_re_def ms.simps(6) has_prefix_def last_char_def)
qed

lemma groups_other:
  assumes "\<not> has_prefix (t @ s) kw" and "kw \<noteq> []" and "id_char (hd kw)" and "t \<noteq> []" and "id_char (hd t)"
    and "lbrace \<notin> set t"
  shows "groups (local_re kw after) ([lbrace, percent] @ CHR '' '' # t @ s) = groups (local_re kw after) s"
proof -
  have "ms (local_re kw after) None ([lbrace, percent] @ CHR '' '' # t @ s) = []"
    using assms(4,5) by (intro local_re_other [OF assms(1-3)]) auto
  then have "groups (local_re kw after) ([lbrace, percent] @ CHR '' '' # t @ s)
      = groups (local_re kw after) ([percent, CHR '' ''] @ t @ s)"
    unfolding groups_def local_re_lit
    using caps_prev [of "\<lambda>k. case k of None \<Rightarrow> [] | Some g \<Rightarrow> g" lbrace "[percent]" _ "Some lbrace" "Suc 0"
        "[percent, CHR '' ''] @ t @ s" None 0]
    by (simp add: find_all_skip)
  then show ?thesis
    using groups_skip [of lbrace "[percent, CHR '' ''] @ t" "[percent]" _ s] assms(6)
    by (simp add: local_re_lit)
qed

text \<open>The tag of a loop gives its variable.\<close>

definition matches :: "re \<Rightarrow> char option \<Rightarrow> string \<Rightarrow> string \<Rightarrow> string option \<Rightarrow> bool" where
  "matches r p s x k \<longleftrightarrow> (\<exists>rest. ms r p s = (x, k) # rest)"

lemma matches_Lit: "matches (Lit x) p (x @ s) x None"
  by (simp add: matches_def)

lemma matches_Opt: "ms r p s = [] \<Longrightarrow> matches (Opt r) p s [] None"
  by (simp add: matches_def)

lemma matches_Cap: "matches r p s x k \<Longrightarrow> matches (Cap r) p s x (Some x)"
  by (auto simp: matches_def)

lemma matches_Many: "list_all f x \<Longrightarrow> s = [] \<or> \<not> f (hd s) \<Longrightarrow> matches (Many f) p (x @ s) x None"
proof -
  assume "list_all f x" and "s = [] \<or> \<not> f (hd s)"
  then have "takeWhile f (x @ s) = x" by (cases s) (auto simp: list_all_iff takeWhile_append2)
  then show ?thesis by (simp add: matches_def)
qed

lemma matches_Seq:
  assumes "matches a p (x @ y @ s) x k" and "matches b (last_char p x) (y @ s) y k'"
  shows "matches (Seq a b) p (x @ y @ s) (x @ y) (if k' = None then k else k')"
  using assms ms_Seq_first [of a p "x @ y @ s" x k _ b y k'] by (fastforce simp: matches_def)

lemma matches_WordB: "word_at p \<noteq> word_at (first_char s) \<Longrightarrow> matches WordB p s [] None"
  by (simp add: matches_def)

lemma matches_ident:
  assumes "is_ident w" and "s = [] \<or> \<not> id_char (hd s)"
  shows "matches ident_re p (w @ s) w None"
proof -
  obtain c v where w: "w = [c] @ v" "id_start c" "list_all id_char v"
    using assms(1) by (cases w) (auto simp: is_ident_def)
  have "matches (Cls id_start) p ([c] @ v @ s) [c] None" using w(2) by (simp add: matches_def)
  from matches_Seq [OF this matches_Many [OF w(3) assms(2)]] show ?thesis
    by (simp add: ident_re_def w(1))
qed

lemma matches_spaces1: "s = [] \<or> \<not> re_space (hd s) \<Longrightarrow> matches spaces1 p ('' '' @ s) '' '' None"
  by (cases s) (simp_all add: spaces1_def ms.simps(6) matches_def)

lemma local_match:
  assumes x: "is_ident x" and kw: "kw \<noteq> []" "id_char (hd kw)" and after: "after \<noteq> []"
    and t: "\<And>p. matches (seqs after) p (t @ s) t None" and stop: "t @ s = [] \<or> \<not> id_char (hd (t @ s))"
  shows "matches (local_re kw after) None (([lbrace, percent] @ '' '' @ kw @ '' '' @ x @ t) @ s)
    ([lbrace, percent] @ '' '' @ kw @ '' '' @ x @ t) (Some x)"
proof -
  have x': "x \<noteq> []" "\<not> re_space (hd x)" and kw': "\<not> re_space (hd kw)"
    using x kw(2) id_char_space id_start_char by (auto simp: is_ident_def)
  let ?r3 = "seqs after"
  let ?r4 = "Seq (Cap ident_re) ?r3"
  let ?r5 = "Seq spaces1 ?r4"
  let ?r6 = "Seq (Lit kw) ?r5"
  let ?r7 = "Seq (Many re_space) ?r6"
  let ?r8 = "Seq (Opt (Lit [dash])) ?r7"
  have t4: "matches ?r4 p ((x @ t) @ s) (x @ t) (Some x)" for p
    using matches_Seq [OF matches_Cap [OF matches_ident [OF x stop]] t, of p] by simp
  have t5: "matches ?r5 p (('' '' @ x @ t) @ s) ('' '' @ x @ t) (Some x)" for p
    using matches_Seq [OF matches_spaces1 t4, of p] x' by simp
  have t6: "matches ?r6 p ((kw @ '' '' @ x @ t) @ s) (kw @ '' '' @ x @ t) (Some x)" for p
    using matches_Seq [OF matches_Lit t5, of kw p] by simp
  have t7: "matches ?r7 p (('' '' @ kw @ '' '' @ x @ t) @ s) ('' '' @ kw @ '' '' @ x @ t) (Some x)" for p
    using matches_Seq [OF matches_Many [of re_space "'' ''"] t6, of p] kw' kw(1) by simp
  have t8: "matches ?r8 p (('' '' @ kw @ '' '' @ x @ t) @ s) ('' '' @ kw @ '' '' @ x @ t) (Some x)" for p
    using matches_Seq [OF matches_Opt [of "Lit [dash]" p] , of "'' '' @ kw @ '' '' @ x @ t" s ?r7] t7
    by (simp add: has_prefix_def last_char_def)
  obtain a as where "after = a # as" using after by (cases after) auto
  then show ?thesis
    using matches_Seq [OF matches_Lit t8, of "[lbrace, percent]" None]
    by (simp add: local_re_def)
qed

lemma for_match:
  assumes "is_ident x"
  shows "matches forVarRe None (([lbrace, percent] @ '' '' @ ''for'' @ '' '' @ x @ '' in'') @ CHR '' '' # s)
    ([lbrace, percent] @ '' '' @ ''for'' @ '' '' @ x @ '' in'') (Some x)"
proof -
  let ?s = "CHR '' '' # s"
  have wb: "matches WordB (last_char p ''in'') ([] @ ?s) [] None" for p
    by (simp add: matches_def word_at_def first_char_def last_char_def) (simp add: id_char_def id_start_def)
  have t2: "matches (Seq (Lit ''in'') WordB) p (''in'' @ ?s) ''in'' None" for p
    using matches_Seq [OF matches_Lit wb] by simp
  have "matches (Seq spaces1 (Seq (Lit ''in'') WordB)) p ('' in'' @ ?s) '' in'' None" for p
    using matches_Seq [OF matches_spaces1 t2, of p] by (simp add: re_space_def)
  then show ?thesis
    unfolding forVarRe_def using assms by (intro local_match) (simp_all add: id_char_def id_start_def)
qed

lemma assign_match:
  assumes "is_ident x"
  shows "matches assignVarRe None (([lbrace, percent] @ '' '' @ ''assign'' @ '' '' @ x @ '' '' @ [equals]) @ s)
    ([lbrace, percent] @ '' '' @ ''assign'' @ '' '' @ x @ '' '' @ [equals]) (Some x)"
proof -
  have "\<not> re_space equals" by (simp add: re_space_def prompt_chars)
  then have "matches (Many re_space) p ('' '' @ [equals] @ s) '' '' None" for p
    using matches_Many [of re_space "'' ''" "[equals] @ s" p] by simp
  from matches_Seq [OF this matches_Lit]
  have "matches (Seq (Many re_space) (Lit [equals])) p (('' '' @ [equals]) @ s) ('' '' @ [equals]) None" for p by simp
  then show ?thesis
    unfolding assignVarRe_def using assms by (intro local_match) (simp_all add: id_char_def id_start_def)
qed

lemma groups_for:
  assumes "is_ident x"
  shows "groups forVarRe ([lbrace, percent] @ '' for '' @ x @ '' in '' @ s) = x # groups forVarRe s"
proof -
  let ?y = "[lbrace, percent] @ '' '' @ ''for'' @ '' '' @ x @ '' in''"
  obtain rest where "ms forVarRe None (?y @ CHR '' '' # s) = (?y, Some x) # rest"
    using for_match [OF assms, of s] unfolding matches_def by blast
  then have "groups forVarRe (?y @ CHR '' '' # s) = x # groups forVarRe (CHR '' '' # s)"
    unfolding forVarRe_def local_re_lit by (rule groups_match) simp
  moreover have "groups forVarRe (CHR '' '' # s) = groups forVarRe s"
    using groups_skip [of lbrace "'' ''" "[percent]" _ s] by (simp add: forVarRe_def local_re_lit)
  ultimately show ?thesis by simp
qed

lemma groups_assign:
  assumes "is_ident x"
  shows "groups assignVarRe ([lbrace, percent] @ '' assign '' @ x @ '' '' @ [equals] @ s) = x # groups assignVarRe s"
proof -
  let ?y = "[lbrace, percent] @ '' '' @ ''assign'' @ '' '' @ x @ '' '' @ [equals]"
  obtain rest where "ms assignVarRe None (?y @ s) = (?y, Some x) # rest"
    using assign_match [OF assms, of s] unfolding matches_def by blast
  then have "groups assignVarRe (?y @ s) = x # groups assignVarRe s"
    unfolding assignVarRe_def local_re_lit by (rule groups_match) simp
  then show ?thesis by simp
qed

section \<open>Templates\<close>

text \<open>
  A filter's argument is a number or a path; a condition (\<open>if\<close>, \<open>elsif\<close> or \<open>unless\<close>) may compare
  with a quoted text; an assignment has filters like an output. \<open>TEnd\<close> is a tag without expression.
\<close>

datatype arg = ANum string | APath "string list"

datatype tok =
    TText string
  | TOut "string list" "(string \<times> arg option) list"
  | TFor string "string list"
  | TAssign string "string list" "(string \<times> arg option) list"
  | TIf string "string list" "string option"
  | TEnd string

definition path :: "string list \<Rightarrow> string" where
  "path p = join_str [dot] p"

fun render_arg :: "arg \<Rightarrow> string" where
  "render_arg (ANum n) = n"
| "render_arg (APath p) = path p"

fun render_filter :: "string \<times> arg option \<Rightarrow> string" where
  "render_filter (n, None) = n"
| "render_filter (n, Some a) = n @ [colon, CHR '' ''] @ render_arg a"

definition render_filters :: "(string \<times> arg option) list \<Rightarrow> string" where
  "render_filters fs = concat (map (\<lambda>f. [CHR '' '', pipe, CHR '' ''] @ render_filter f) fs)"

definition out_expr :: "string list \<Rightarrow> (string \<times> arg option) list \<Rightarrow> string" where
  "out_expr p fs = path p @ render_filters fs"

fun tag_expr :: "tok \<Rightarrow> string" where
  "tag_expr (TFor x p) = ''for '' @ x @ '' in '' @ path p"
| "tag_expr (TAssign x p fs) = ''assign '' @ x @ '' '' @ [equals] @ '' '' @ out_expr p fs"
| "tag_expr (TIf kw p None) = kw @ '' '' @ path p"
| "tag_expr (TIf kw p (Some l)) = kw @ '' '' @ path p @ [CHR '' '', equals, equals, CHR '' ''] @ [squote] @ l @ [squote]"
| "tag_expr (TEnd e) = e"
| "tag_expr _ = []"

fun render_tok :: "tok \<Rightarrow> string" where
  "render_tok (TText t) = t"
| "render_tok (TOut p fs) = [lbrace, lbrace] @ '' '' @ out_expr p fs @ '' '' @ [rbrace, rbrace]"
| "render_tok k = [lbrace, percent] @ '' '' @ tag_expr k @ '' '' @ [percent, rbrace]"

definition render :: "tok list \<Rightarrow> string" where
  "render ts = concat (map render_tok ts)"

definition path_ok :: "string list \<Rightarrow> bool" where
  "path_ok p \<longleftrightarrow> p \<noteq> [] \<and> list_all is_ident p \<and> hd p \<notin> set liquidKeywords"

fun arg_ok :: "arg \<Rightarrow> bool" where
  "arg_ok (ANum n) = (n \<noteq> [] \<and> list_all is_digit n)"
| "arg_ok (APath p) = path_ok p"

fun filter_ok :: "string \<times> arg option \<Rightarrow> bool" where
  "filter_ok (n, None) = is_ident n"
| "filter_ok (n, Some a) = (is_ident n \<and> arg_ok a)"

definition literal_char :: "char \<Rightarrow> bool" where
  "literal_char c \<longleftrightarrow> byte c < 128 \<and> re_dot c \<and> c \<notin> {squote, lbrace, percent, rbrace}"

fun tok_ok :: "tok \<Rightarrow> bool" where
  "tok_ok (TText t) = (lbrace \<notin> set t)"
| "tok_ok (TOut p fs) = (path_ok p \<and> list_all filter_ok fs)"
| "tok_ok (TFor x p) = (is_ident x \<and> x \<notin> set liquidKeywords \<and> path_ok p)"
| "tok_ok (TAssign x p fs) = (is_ident x \<and> path_ok p \<and> list_all filter_ok fs)"
| "tok_ok (TIf kw p l) = (kw \<in> {''if'', ''elsif'', ''unless''} \<and> path_ok p
     \<and> (case l of None \<Rightarrow> True | Some t \<Rightarrow> list_all literal_char t))"
| "tok_ok (TEnd e) = (e \<in> {''endfor'', ''endif'', ''else'', ''endunless'', ''raw'', ''endraw''})"

text \<open>What the check should look at: the roots used, outputs before tags, and the names of loops and assignments.\<close>

fun arg_roots :: "string \<times> arg option \<Rightarrow> string list" where
  "arg_roots (n, Some (APath p)) = [hd p]"
| "arg_roots _ = []"

fun out_roots :: "tok \<Rightarrow> string list" where
  "out_roots (TOut p fs) = hd p # concat (map arg_roots fs)"
| "out_roots _ = []"

fun tag_roots :: "tok \<Rightarrow> string list" where
  "tag_roots (TFor x p) = [hd p]"
| "tag_roots (TAssign x p fs) = hd p # concat (map arg_roots fs)"
| "tag_roots (TIf kw p l) = [hd p]"
| "tag_roots _ = []"

fun loop_names :: "tok \<Rightarrow> string list" where
  "loop_names (TFor x p) = [x]"
| "loop_names _ = []"

fun assign_names :: "tok \<Rightarrow> string list" where
  "assign_names (TAssign x p fs) = [x]"
| "assign_names _ = []"

section \<open>Blocks of a template\<close>

lemma has_prefix_Cons: "has_prefix (c # s) (d # t) \<longleftrightarrow> c = d \<and> has_prefix s t"
  by (simp add: has_prefix_def)

lemma path_simps [simp]: "path [] = []" "path [w] = w" "path (w # v # p) = w @ dot # path (v # p)"
  by (simp_all add: path_def)

lemma path_all:
  assumes "list_all is_ident p" and "\<And>c. id_char c \<Longrightarrow> P c" and "P dot"
  shows "list_all P (path p)"
proof -
  have "list_all P w" if "is_ident w" for w using is_ident_chars [OF that] assms(2) by (auto simp: list_all_iff)
  then show ?thesis using assms(1,3)
  proof (induction p)
    case (Cons w p)
    then show ?case by (cases p) simp_all
  qed simp
qed

definition clean :: "char \<Rightarrow> bool" where
  "clean c \<longleftrightarrow> re_dot c \<and> c \<notin> {lbrace, rbrace, percent}"

lemma clean_chars [simp]: "clean dot" "clean pipe" "clean colon" "clean equals" "clean squote" "clean (CHR '' '')"
  by (simp_all add: clean_def) (simp_all add: prompt_chars)

lemma id_char_clean: "id_char c \<Longrightarrow> clean c"
  using id_char_neq id_char_dot by (auto simp: clean_def)

lemma digit_id_char: "is_digit c \<Longrightarrow> id_char c"
  by (auto simp: is_digit_def id_char_def)

lemma path_ok_all: "path_ok p \<Longrightarrow> (\<And>c. id_char c \<Longrightarrow> P c) \<Longrightarrow> P dot \<Longrightarrow> list_all P (path p)"
  by (simp add: path_ok_def path_all)

lemma ident_all: "is_ident w \<Longrightarrow> (\<And>c. id_char c \<Longrightarrow> P c) \<Longrightarrow> list_all P w"
  using is_ident_chars by (auto simp: list_all_iff)

lemma render_filter_all:
  assumes "filter_ok f" and "\<And>c. id_char c \<Longrightarrow> P c" and "P dot" "P colon" "P (CHR '' '')"
  shows "list_all P (render_filter f)"
proof -
  have "list_all P (render_arg a)" if "arg_ok a" for a
  proof (cases a)
    case (APath p)
    have "list_all P (path p)" using that assms(2,3) APath by (intro path_ok_all) simp_all
    then show ?thesis using APath by simp
  qed (use that assms(2) digit_id_char in \<open>simp add: list_all_iff\<close>)
  then show ?thesis
    using assms(1,4,5) ident_all [OF _ assms(2)] by (cases f rule: render_filter.cases) simp_all
qed

lemma render_filters_all:
  assumes "list_all filter_ok fs" and "\<And>c. id_char c \<Longrightarrow> P c" and "P dot" "P pipe" "P colon" "P (CHR '' '')"
  shows "list_all P (render_filters fs)"
  using assms(1)
proof (induction fs)
  case (Cons f fs)
  then have "list_all P (render_filter f)" using assms(2,3,5,6) by (intro render_filter_all) simp_all
  with Cons assms(4,6) show ?case by (simp add: render_filters_def)
qed (simp add: render_filters_def)

lemma out_expr_clean: "tok_ok (TOut p fs) \<Longrightarrow> list_all clean (out_expr p fs)"
  by (simp add: out_expr_def path_ok_all id_char_clean render_filters_all)

lemma tag_expr_clean: "tok_ok k \<Longrightarrow> list_all clean (tag_expr k)"
proof (cases k rule: tag_expr.cases)
  case (2 x p fs)
  assume "tok_ok k"
  then show ?thesis
    using 2 out_expr_clean [of p fs] ident_all [of x clean] id_char_clean
    by simp (simp add: clean_def re_dot_def prompt_chars)
next
  case (3 kw p)
  assume "tok_ok k"
  then show ?thesis
    using 3 path_ok_all [of p clean] id_char_clean by auto (simp_all add: clean_def re_dot_def prompt_chars)
next
  case (4 kw p l)
  assume "tok_ok k"
  with 4 have "list_all literal_char l" "path_ok p" "kw \<in> {''if'', ''elsif'', ''unless''}" by simp_all
  moreover have "literal_char c \<Longrightarrow> clean c" for c by (simp add: literal_char_def clean_def)
  ultimately show ?thesis
    using 4 path_ok_all [of p clean] id_char_clean
    by (auto simp: list_all_iff ball_Un) (simp_all add: clean_def re_dot_def prompt_chars)
next
  case (5 e)
  assume "tok_ok k"
  with 5 show ?thesis by (auto simp: clean_def re_dot_def prompt_chars)
qed (simp_all add: path_ok_all id_char_clean ident_all, (simp_all add: clean_def re_dot_def prompt_chars)?)

lemma clean_not: "list_all clean t \<Longrightarrow> lbrace \<notin> set t" "list_all clean t \<Longrightarrow> percent \<notin> set t"
  "list_all clean t \<Longrightarrow> rbrace \<notin> set t" "list_all clean t \<Longrightarrow> list_all re_dot t"
  by (auto simp: list_all_iff clean_def)

text \<open>A delimited piece that is not the one looked for is skipped.\<close>

lemma groups_skip_delim:
  assumes "c \<noteq> d" and "c \<in> {lbrace, percent}" and "list_all clean t" and "close \<in> {rbrace, percent}"
  shows "groups (lit_re lbrace [c] q) ([lbrace, d, CHR '' ''] @ t @ [CHR '' '', close, rbrace] @ s) = groups (lit_re lbrace [c] q) s"
proof -
  let ?t = "CHR '' '' # t @ [CHR '' '', close, rbrace]"
  have "\<not> has_prefix (lbrace # d # ?t @ s) [lbrace, c]" using assms(1) by (simp add: has_prefix_def)
  moreover have "\<not> has_prefix (d # ?t @ s) [lbrace, c]" using assms(2) by (auto simp: has_prefix_def)
  moreover have "lbrace \<notin> set ?t" using clean_not(1) [OF assms(3)] assms(4) by auto
  ultimately show ?thesis
    using groups_skip [of lbrace ?t "[c]" q s] by (simp add: groups_skip_char)
qed

lemma groups_this_delim:
  assumes "list_all clean t" and "c1 \<in> {rbrace, percent}"
  shows "groups (delim_re b c1 rbrace) ([lbrace, b, CHR '' ''] @ t @ [CHR '' '', c1, rbrace] @ s)
    = ('' '' @ t @ '' '') # groups (delim_re b c1 rbrace) s"
  using groups_delim [of "'' '' @ t @ '' ''" c1 b rbrace s] clean_not [OF assms(1)] assms(2) by auto

definition is_out :: "tok \<Rightarrow> bool" where "is_out k = (case k of TOut p fs \<Rightarrow> True | _ \<Rightarrow> False)"
definition is_tag :: "tok \<Rightarrow> bool" where
  "is_tag k = (case k of TOut p fs \<Rightarrow> False | TText t \<Rightarrow> False | _ \<Rightarrow> True)"

lemma render_tag: "is_tag k \<Longrightarrow> render_tok k @ s = [lbrace, percent, CHR '' ''] @ tag_expr k @ [CHR '' '', percent, rbrace] @ s"
  by (cases k) (simp_all add: is_tag_def)

lemma render_out: "render_tok (TOut p fs) @ s = [lbrace, lbrace, CHR '' ''] @ out_expr p fs @ [CHR '' '', rbrace, rbrace] @ s"
  by simp

lemma tok_cases:
  obtains (plain) t where "k = TText t" | (out) p fs where "k = TOut p fs" | (tag) "is_tag k"
  by (cases k) (auto simp: is_tag_def)

lemma delim_re_lit: "delim_re b c1 c2 = lit_re lbrace [b]
     (Seq (Opt (Lit [dash])) (Seq (Cap (Lazy re_dot)) (Seq (Opt (Lit [dash])) (Lit [c1, c2]))))"
  by (simp add: delim_re_def)

definition out_block :: "tok \<Rightarrow> string list" where
  "out_block k = (case k of TOut p fs \<Rightarrow> ['' '' @ out_expr p fs @ '' ''] | _ \<Rightarrow> [])"

definition tag_block :: "tok \<Rightarrow> string list" where
  "tag_block k = (if is_tag k then ['' '' @ tag_expr k @ '' ''] else [])"

lemma groups_out_tok: "tok_ok k \<Longrightarrow> groups outputRe (render_tok k @ s) = out_block k @ groups outputRe s"
proof (cases k rule: tok_cases)
  case (plain t)
  assume "tok_ok k"
  with plain show ?thesis by (simp add: out_block_def outputRe_delim delim_re_lit groups_skip)
next
  case (out p fs)
  assume "tok_ok k"
  with out groups_this_delim [OF out_expr_clean, of p fs rbrace lbrace s] show ?thesis
    by (simp add: outputRe_delim out_block_def)
next
  case tag
  assume "tok_ok k"
  from groups_skip_delim [OF _ _ tag_expr_clean [OF this], of lbrace percent percent] tag show ?thesis
    unfolding render_tag [OF tag] outputRe_delim delim_re_lit
    by (simp add: out_block_def is_tag_def split: tok.splits)
qed

lemma groups_tag_tok: "tok_ok k \<Longrightarrow> groups tagRe (render_tok k @ s) = tag_block k @ groups tagRe s"
proof (cases k rule: tok_cases)
  case (plain t)
  assume "tok_ok k"
  with plain show ?thesis by (simp add: tag_block_def is_tag_def tagRe_delim delim_re_lit groups_skip)
next
  case (out p fs)
  assume "tok_ok k"
  with out groups_skip_delim [OF _ _ out_expr_clean, of percent lbrace p fs rbrace] show ?thesis
    unfolding out render_out tagRe_delim delim_re_lit by (simp add: tag_block_def is_tag_def)
next
  case tag
  assume "tok_ok k"
  with tag groups_this_delim [OF tag_expr_clean, of k percent percent s] show ?thesis
    unfolding render_tag [OF tag] by (simp add: tagRe_delim tag_block_def)
qed

lemma tag_expr_head: "tok_ok k \<Longrightarrow> is_tag k \<Longrightarrow> tag_expr k \<noteq> [] \<and> hd (tag_expr k) \<in> {CHR ''f'', CHR ''i'', CHR ''e'', CHR ''r'', CHR ''a'', CHR ''u''}"
  by (cases k rule: tag_expr.cases) (auto simp: is_tag_def)

text \<open>Captures and table rows do not occur; a loop and an assignment give their names.\<close>

lemma groups_local_plain: "lbrace \<notin> set t \<Longrightarrow> groups (local_re kw after) (t @ s) = groups (local_re kw after) s"
  by (simp add: local_re_lit groups_skip)

lemma groups_local_out:
  "tok_ok (TOut p fs) \<Longrightarrow> groups (local_re kw after) (render_tok (TOut p fs) @ s) = groups (local_re kw after) s"
  using groups_skip_delim [OF _ _ out_expr_clean, of percent lbrace p fs rbrace]
  unfolding render_out local_re_lit by simp

lemma groups_local_tag:
  assumes "tok_ok k" and "is_tag k" and "\<not> has_prefix (tag_expr k @ [CHR '' '', percent, rbrace] @ s) kw"
    and "kw \<noteq> []" and "id_char (hd kw)"
  shows "groups (local_re kw after) (render_tok k @ s) = groups (local_re kw after) s"
proof -
  have "id_char (hd (tag_expr k))" using tag_expr_head [OF assms(1,2)] by (auto simp: id_char_def id_start_def)
  then show ?thesis
    using groups_other [of "tag_expr k @ [CHR '' '', percent, rbrace]" s kw after] assms(3-5)
      tag_expr_head [OF assms(1,2)] clean_not(1) [OF tag_expr_clean [OF assms(1)]]
    by (simp add: render_tag [OF assms(2)])
qed

lemma groups_local_none:
  assumes "tok_ok k" and "kw \<noteq> []" and "hd kw \<in> {CHR ''c'', CHR ''t''}"
  shows "groups (local_re kw after) (render_tok k @ s) = groups (local_re kw after) s"
proof (cases k rule: tok_cases)
  case (plain t)
  with assms(1) show ?thesis by (simp add: groups_local_plain)
next
  case (out p fs)
  with assms(1) show ?thesis by (simp only: groups_local_out)
next
  case tag
  have "\<not> has_prefix (tag_expr k @ r) kw" for r
    using tag_expr_head [OF assms(1) tag] assms(2,3) by (cases "tag_expr k"; cases kw) (auto simp: has_prefix_Cons)
  moreover have "id_char (hd kw)" using assms(3) by (auto simp: id_char_def id_start_def)
  ultimately show ?thesis by (intro groups_local_tag [OF assms(1) tag _ assms(2)])
qed

lemma groups_assign_tok: "tok_ok k \<Longrightarrow> groups assignVarRe (render_tok k @ s) = assign_names k @ groups assignVarRe s"
proof (cases k rule: tok_cases)
  case (plain t)
  assume "tok_ok k"
  with plain show ?thesis by (simp add: assignVarRe_def groups_local_plain)
next
  case (out p fs)
  assume "tok_ok k"
  with out show ?thesis by (simp only: assignVarRe_def groups_local_out) simp
next
  case tag
  assume ok: "tok_ok k"
  show ?thesis
  proof (cases "\<exists>x p fs. k = TAssign x p fs")
    case True
    then obtain x p fs where k: "k = TAssign x p fs" by blast
    have "lbrace \<notin> set (CHR '' '' # out_expr p fs @ [CHR '' '', percent, rbrace])"
      using ok k clean_not(1) [OF tag_expr_clean [OF ok]] by simp
    then have "groups assignVarRe ((CHR '' '' # out_expr p fs @ [CHR '' '', percent, rbrace]) @ s) = groups assignVarRe s"
      unfolding assignVarRe_def by (rule groups_local_plain)
    with groups_assign [of x "CHR '' '' # out_expr p fs @ [CHR '' '', percent, rbrace] @ s"] ok
    show ?thesis by (simp add: k)
  next
    case False
    with tag ok have "\<not> has_prefix (tag_expr k @ [CHR '' '', percent, rbrace] @ s) ''assign''"
      by (cases k rule: tag_expr.cases) (auto simp: has_prefix_Cons is_tag_def)
    then have "groups assignVarRe (render_tok k @ s) = groups assignVarRe s"
      unfolding assignVarRe_def by (intro groups_local_tag [OF ok tag]) (simp_all add: id_char_def id_start_def)
    moreover have "assign_names k = []" using False by (cases k) auto
    ultimately show ?thesis by simp
  qed
qed

lemma groups_for_tok: "tok_ok k \<Longrightarrow> groups forVarRe (render_tok k @ s) = loop_names k @ groups forVarRe s"
proof (cases k rule: tok_cases)
  case (plain t)
  assume "tok_ok k"
  with plain show ?thesis by (simp add: forVarRe_def groups_local_plain)
next
  case (out p fs)
  assume "tok_ok k"
  with out show ?thesis by (simp only: forVarRe_def groups_local_out) simp
next
  case tag
  assume ok: "tok_ok k"
  show ?thesis
  proof (cases "\<exists>x p. k = TFor x p")
    case True
    then obtain x p where k: "k = TFor x p" by blast
    have "lbrace \<notin> set (path p @ [CHR '' '', percent, rbrace])"
      using ok k clean_not(1) [OF tag_expr_clean [OF ok]] by simp
    then have "groups forVarRe ((path p @ [CHR '' '', percent, rbrace]) @ s) = groups forVarRe s"
      unfolding forVarRe_def by (rule groups_local_plain)
    with groups_for [of x "path p @ [CHR '' '', percent, rbrace] @ s"] ok show ?thesis by (simp add: k)
  next
    case False
    with tag ok have "\<not> has_prefix (tag_expr k @ [CHR '' '', percent, rbrace] @ s) ''for''"
      by (cases k rule: tag_expr.cases) (auto simp: has_prefix_Cons is_tag_def)
    then have "groups forVarRe (render_tok k @ s) = groups forVarRe s"
      unfolding forVarRe_def by (intro groups_local_tag [OF ok tag]) (simp_all add: id_char_def id_start_def)
    moreover have "loop_names k = []" using False by (cases k) auto
    ultimately show ?thesis by simp
  qed
qed

lemma groups_empty [simp]:
  "groups outputRe [] = []" "groups tagRe [] = []" "groups (local_re kw after) [] = []" "groups forVarRe [] = []"
  by (simp_all add: outputRe_delim tagRe_delim delim_re_lit forVarRe_def local_re_lit groups_Nil)

text \<open>Each expression is a scanner of templates, token by token.\<close>

interpretation outputs: piecewise "groups outputRe" render_tok out_block tok_ok
  by unfold_locales (rule groups_out_tok)

interpretation tags: piecewise "groups tagRe" render_tok tag_block tok_ok
  by unfold_locales (rule groups_tag_tok)

interpretation loops: piecewise "groups forVarRe" render_tok loop_names tok_ok
  by unfold_locales (rule groups_for_tok)

interpretation assigns: piecewise "groups assignVarRe" render_tok assign_names tok_ok
  by unfold_locales (rule groups_assign_tok)

interpretation captures: piecewise "groups captureVarRe" render_tok "\<lambda>_. []" tok_ok
  by unfold_locales (simp add: captureVarRe_def groups_local_none)

interpretation tablerows: piecewise "groups tablerowVarRe" render_tok "\<lambda>_. []" tok_ok
  by unfold_locales (simp add: tablerowVarRe_def groups_local_none)

lemma groups_render:
  assumes "list_all tok_ok ts"
  shows "groups outputRe (render ts) = concat (map out_block ts)"
    and "groups tagRe (render ts) = concat (map tag_block ts)"
    and "groups forVarRe (render ts) = concat (map loop_names ts)"
    and "groups assignVarRe (render ts) = concat (map assign_names ts)" and "groups captureVarRe (render ts) = []"
    and "groups tablerowVarRe (render ts) = []"
  unfolding render_def
  using outputs.all_pieces [OF assms] tags.all_pieces [OF assms] loops.all_pieces [OF assms]
    assigns.all_pieces [OF assms] captures.all_pieces [OF assms] tablerows.all_pieces [OF assms]
  by (simp_all add: assignVarRe_def captureVarRe_def tablerowVarRe_def)

lemma known_names_render:
  assumes "list_all tok_ok ts"
  shows "set (known_names (render ts) keys) = {''forloop'', ''tablerowloop''} \<union> set keys \<union> set (concat (map loop_names ts))
    \<union> set (concat (map assign_names ts))"
  unfolding known_names_def by (simp add: groups_render [OF assms] Un_assoc)

section \<open>Roots of an expression\<close>

lemma ms_ident_none: "s = [] \<or> \<not> id_start (hd s) \<Longrightarrow> ms ident_re p s = []"
  by (cases s) (simp_all add: ident_re_def ms.simps(6))

lemma idents_skip:
  "list_all (\<lambda>c. \<not> id_start c) x \<Longrightarrow> \<exists>q. find_all ident_re p i (x @ s) = find_all ident_re q (i + length x) s"
proof (induction x arbitrary: p i)
  case (Cons c x)
  then have "find_all ident_re p i (c # x @ s) = find_all ident_re (Some c) (Suc i) (x @ s)"
    by (intro find_all_skip ms_ident_none) simp
  moreover obtain q where "find_all ident_re (Some c) (Suc i) (x @ s) = find_all ident_re q (Suc i + length x) s"
    using Cons by fastforce
  ultimately show ?case by (intro exI [of _ q]) simp
qed auto

lemma idents_none: "list_all (\<lambda>c. \<not> id_start c) x \<Longrightarrow> find_all ident_re p i x = []"
  by (induction x arbitrary: p i) (simp_all add: find_all_Nil find_all_skip ms_ident_none)

lemma idents_ident:
  assumes "is_ident w" and "s = [] \<or> \<not> id_char (hd s)"
  shows "find_all ident_re p i (w @ s) = (i, w, None) # find_all ident_re (Some (last w)) (i + length w) s"
proof -
  have "w \<noteq> []" using assms(1) by (simp add: is_ident_def)
  moreover obtain rest where "ms ident_re p (w @ s) = (w, None) # rest"
    using matches_ident [OF assms] by (auto simp: matches_def)
  ultimately show ?thesis using find_all_match [of ident_re p "w @ s" w None rest i] by simp
qed

text \<open>The names of a path, each with its position.\<close>

fun idents_at :: "nat \<Rightarrow> string list \<Rightarrow> (nat \<times> string \<times> string option) list" where
  "idents_at i [] = []"
| "idents_at i (w # p) = (i, w, None) # idents_at (i + length w + 1) p"

lemma find_path:
  assumes "list_all is_ident p" and "list_all (\<lambda>c. \<not> id_start c) t" and "t = [] \<or> \<not> id_char (hd t)"
  shows "find_all ident_re q i (path p @ t) = idents_at i p"
  using assms(1)
proof (induction p arbitrary: q i)
  case (Cons w p)
  show ?case
  proof (cases p)
    case Nil
    with Cons.prems assms(2,3) show ?thesis by (simp add: idents_ident idents_none)
  next
    case p: (Cons v p')
    have "find_all ident_re r j (dot # path p @ t) = find_all ident_re (Some dot) (Suc j) (path p @ t)" for r j
      by (intro find_all_skip ms_ident_none) simp
    moreover have "list_all is_ident p" using Cons.prems by simp
    ultimately show ?thesis
      using p Cons.prems Cons.IH by (simp add: idents_ident)
  qed
qed (use idents_none [OF assms(2)] in simp)

lemma last_dot: "0 < j \<Longrightarrow> j \<le> length s \<Longrightarrow> s ! (j - 1) = dot \<Longrightarrow> lastNonSpace (take j s) = Some dot"
proof -
  assume j: "0 < j" "j \<le> length s" "s ! (j - 1) = dot"
  then have "take j s = take (j - 1) s @ [dot]" using take_Suc_conv_app_nth [of "j - 1" s] by simp
  then show ?thesis by (simp add: lastNonSpace_def firstNonSpace_def first_char_def blank_char_def) (simp add: dot_def)
qed

lemma idents_at_dot:
  "(j, x, k) \<in> set (idents_at (length pre + 1) p) \<Longrightarrow> f = pre @ dot # path p @ t \<Longrightarrow> p \<noteq> [] \<Longrightarrow>
     0 < j \<and> lastNonSpace (take j f) = Some dot"
proof (induction p arbitrary: pre)
  case (Cons w p)
  show ?case
  proof (cases "(j, x, k) = (length pre + 1, w, None)")
    case True
    then show ?thesis using Cons.prems(2) by (intro conjI last_dot) (simp_all add: nth_append)
  next
    case False
    with Cons.prems(1) have "p \<noteq> []" by (cases p) auto
    moreover have "(j, x, k) \<in> set (idents_at (length (pre @ dot # w) + 1) p)" using False Cons.prems(1) by auto
    moreover have "f = (pre @ dot # w) @ dot # path p @ t"
      using Cons.prems(2) \<open>p \<noteq> []\<close> by (cases p) simp_all
    ultimately show ?thesis by (intro Cons.IH)
  qed
qed simp

text \<open>A path between blanks, or before an operator, has one root.\<close>

lemma roots_path:
  assumes "path_ok p" and "list_all blank_char b" and "list_all (\<lambda>c. \<not> id_start c) t" and "t = [] \<or> \<not> id_char (hd t)"
    and "firstNonSpace t \<noteq> Some colon"
  shows "rootsInValue (b @ path p @ t) = [hd p]"
proof -
  let ?f = "b @ path p @ t"
  obtain w q where p: "p = w # q" "is_ident w" "list_all is_ident q" "w \<notin> set liquidKeywords"
    using assms(1) by (cases p) (auto simp: path_ok_def)
  have "\<not> id_start c" if "blank_char c" for c using that by (auto simp: blank_char_def id_start_def Let_def)
  then have "list_all (\<lambda>c. \<not> id_start c) b" using assms(2) by (auto simp: list_all_iff)
  then have find: "find_all ident_re None 0 ?f = (length b, w, None) # idents_at (length b + length w + 1) q"
    using idents_skip [of b None 0 "path p @ t"] find_path [OF _ assms(3,4), of p] p(1-3) by auto
  have "dropWhile blank_char (rev b) = []" using assms(2) by (simp add: list_all_iff)
  then have "lastNonSpace b = None" unfolding lastNonSpace_def firstNonSpace_def by (simp only:) (simp add: first_char_def)
  then have "lastNonSpace (take (length b) ?f) = None" by simp
  moreover have "firstNonSpace (drop (length b + length w) ?f) \<noteq> Some colon"
    using assms(5) by (cases q)
      (simp_all add: p(1) firstNonSpace_def first_char_def blank_char_def, simp add: prompt_chars)
  moreover have "0 < j \<and> lastNonSpace (take j ?f) = Some dot" if "(j, x, k) \<in> set (idents_at (length b + length w + 1) q)" for j x k
    using that idents_at_dot [of j x k "b @ w" q ?f t] by (cases q) (auto simp: p(1))
  ultimately show ?thesis
    unfolding rootsInValue_def find using p(1,4) by (auto simp: filter_empty_conv)
qed

section \<open>Expressions\<close>

lemma strip_unquoted: "squote \<notin> set x \<Longrightarrow> dquote \<notin> set x \<Longrightarrow> strip_loop None (x @ s) = x @ strip_loop None s"
  by (induction x) auto

lemma strip_quoted: "q \<notin> set l \<Longrightarrow> strip_loop (Some q) (l @ q # s) = replicate (length l + 1) (CHR '' '') @ strip_loop None s"
  by (induction l) auto

lemma blanks_space: "list_all space_char (replicate n (CHR '' ''))"
  by (simp add: list_all_iff space_char_def space_rune_def)

lemma trim_blanks:
  assumes "is_ascii x" and "x \<noteq> []" and "\<not> space_char (hd x)" and "\<not> space_char (last x)"
    and "list_all space_char b" and "list_all space_char b'" and "is_ascii b" and "is_ascii b'"
  shows "trim_space (b @ x @ b') = x"
proof -
  have "is_ascii (b @ x @ b')" using assms(1,7,8) by (simp add: is_ascii_def)
  moreover have "dropWhile space_char (b @ x @ b') = x @ b'"
    using assms(2,3,5) by (cases x) (simp_all add: list_all_iff)
  moreover have "dropWhile space_char (rev b' @ rev x) = rev x"
  proof -
    have "dropWhile space_char (rev b' @ rev x) = dropWhile space_char (rev x)"
      using assms(6) by (intro dropWhile_append2) (simp add: list_all_iff)
    then show ?thesis using assms(2,4) by (cases x rule: rev_cases) simp_all
  qed
  ultimately show ?thesis by (simp add: trim_space_ascii)
qed

lemma field_ascii:
  assumes "is_ascii w" and "list_all (\<lambda>c. \<not> space_char c) w" and "w \<noteq> []" and "is_ascii s"
    and "s = [] \<or> space_char (hd s)"
  shows "\<exists>rest. str_fields (w @ s) = w # rest"
proof -
  have "field_segs acc (map (\<lambda>c. (byte c, [c])) (w @ s)) = field_segs (acc @ w) (map (\<lambda>c. (byte c, [c])) s)" for acc
    using assms(2) by (induction w arbitrary: acc) (simp_all add: space_char_def)
  moreover have "\<exists>rest. field_segs w (map (\<lambda>c. (byte c, [c])) s) = w # rest"
    using assms(3,5) by (cases s) (simp_all add: space_char_def)
  ultimately show ?thesis
    using assms(1,4) by (simp add: str_fields_def segs_ascii is_ascii_def)
qed

lemma space_char_chars [simp]: "space_char (CHR '' '')" "\<not> space_char dot" "\<not> space_char equals" "\<not> space_char colon"
  by (simp_all add: space_char_def space_rune_def prompt_chars)

lemma id_char_no_space: "id_char c \<Longrightarrow> \<not> space_char c"
  by (auto simp: id_char_def id_start_def space_char_def space_rune_def Let_def)

text \<open>Outputs: the value up to the first pipe, then one segment for each filter.\<close>

definition pad :: "'a list \<Rightarrow> string" where
  "pad fs = (if fs = [] then [] else '' '')"

fun segments :: "(string \<times> arg option) list \<Rightarrow> string list" where
  "segments [] = []"
| "segments (f # fs) = ('' '' @ render_filter f @ pad fs) # segments fs"

lemma split_filters:
  "list_all filter_ok fs \<Longrightarrow> pipe \<notin> set x \<Longrightarrow>
     split_char pipe (x @ render_filters fs) = (x @ pad fs) # segments fs"
proof (induction fs arbitrary: x)
  case Nil
  then show ?case by (simp add: render_filters_def pad_def split_char_no_sep)
next
  case (Cons f fs)
  have "list_all (\<lambda>c. c \<noteq> pipe) (render_filter f)"
    using Cons.prems id_char_neq by (intro render_filter_all) auto
  then have "pipe \<notin> set ('' '' @ render_filter f)" by (auto simp: list_all_iff)
  then have IH: "split_char pipe (('' '' @ render_filter f) @ render_filters fs) = ('' '' @ render_filter f @ pad fs) # segments fs"
    using Cons by simp
  have "x @ render_filters (f # fs) = (x @ '' '') @ pipe # ('' '' @ render_filter f) @ render_filters fs"
    by (simp add: render_filters_def)
  then have "split_char pipe (x @ render_filters (f # fs)) =
      split_char pipe (x @ '' '') @ split_char pipe (('' '' @ render_filter f) @ render_filters fs)"
    by (simp only: split_char_append)
  moreover have "split_char pipe (x @ '' '') = [x @ '' '']" using Cons.prems(2) by (intro split_char_no_sep) simp
  ultimately show ?case unfolding IH by (simp add: pad_def)
qed

definition word_ends :: "string \<Rightarrow> bool" where
  "word_ends s \<longleftrightarrow> s \<noteq> [] \<and> id_char (hd s) \<and> id_char (last s) \<and> is_ascii s"

lemma word_ends_ident: "is_ident w \<Longrightarrow> word_ends w"
  using is_ident_chars [of w] id_char_ascii
  by (auto simp: word_ends_def is_ident_def list_all_iff is_ascii_def)

lemma word_ends_path: "path_ok p \<Longrightarrow> word_ends (path p)"
proof -
  assume ok: "path_ok p"
  have "is_ascii (path p)"
    unfolding is_ascii_def using ok by (intro path_ok_all) (simp_all add: id_char_ascii, simp add: prompt_chars)
  moreover have "list_all is_ident p \<Longrightarrow> p \<noteq> [] \<Longrightarrow> path p \<noteq> [] \<and> id_char (hd (path p)) \<and> id_char (last (path p))"
  proof (induction p)
    case (Cons w p)
    then have "word_ends w" by (simp add: word_ends_ident)
    with Cons show ?case by (cases p) (simp_all add: word_ends_def)
  qed simp
  ultimately show ?thesis using ok by (simp add: word_ends_def path_ok_def)
qed

lemma word_ends_digits: "n \<noteq> [] \<Longrightarrow> list_all is_digit n \<Longrightarrow> word_ends n"
  using digit_id_char id_char_ascii by (auto simp: word_ends_def list_all_iff is_ascii_def)

lemma word_ends_filter: "filter_ok f \<Longrightarrow> word_ends (render_filter f)"
proof (cases f rule: render_filter.cases)
  case (2 n a)
  assume "filter_ok f"
  then have "word_ends n" "word_ends (render_arg a)"
    using 2 word_ends_ident word_ends_path word_ends_digits by (cases a; simp)+
  then show ?thesis using 2 by (auto simp: word_ends_def is_ascii_def list_all_iff) (simp add: prompt_chars)
qed (simp add: word_ends_ident)

lemma word_ends_out: "tok_ok (TOut p fs) \<Longrightarrow> word_ends (out_expr p fs)"
proof -
  assume ok: "tok_ok (TOut p fs)"
  have "is_ascii (out_expr p fs)"
    unfolding is_ascii_def out_expr_def list_all_append
    using ok path_ok_all [of p "\<lambda>c. byte c < 128"] render_filters_all [of fs "\<lambda>c. byte c < 128"] id_char_ascii
    by (simp add: prompt_chars)
  moreover have "id_char (last (x @ render_filters fs))" if "word_ends x" "list_all filter_ok fs" for x
    using that
  proof (induction fs arbitrary: x)
    case (Cons f fs)
    then have "word_ends (render_filter f)" by (simp add: word_ends_filter)
    with Cons.IH [of "render_filter f"] Cons.prems(2) show ?case
      by (simp add: render_filters_def word_ends_def)
  qed (simp add: render_filters_def word_ends_def)
  ultimately show ?thesis
    using ok word_ends_path [of p] by (simp add: word_ends_def out_expr_def)
qed

lemma trim_word:
  assumes "word_ends s" and "list_all (\<lambda>c. c = CHR '' '') b" and "list_all (\<lambda>c. c = CHR '' '') b'"
  shows "trim_space (b @ s @ b') = s"
proof (rule trim_blanks)
  show "\<not> space_char (hd s)" "\<not> space_char (last s)" "is_ascii s" "s \<noteq> []"
    using assms(1) id_char_no_space by (simp_all add: word_ends_def)
  have "list_all space_char x \<and> is_ascii x" if "list_all (\<lambda>c. c = CHR '' '') x" for x
  proof -
    have "x = replicate (length x) (CHR '' '')" using that by (intro replicate_eqI) (simp_all add: list_all_iff)
    moreover have "is_ascii (replicate n (CHR '' ''))" for n by (simp add: is_ascii_def list_all_iff)
    ultimately show ?thesis using blanks_space by metis
  qed
  then show "list_all space_char b" "list_all space_char b'" "is_ascii b" "is_ascii b'" using assms(2,3) by simp_all
qed

lemma blank_space [simp]: "blank_char (CHR '' '')"
  by (simp add: blank_char_def)

lemma roots_no_ident: "list_all (\<lambda>c. \<not> id_start c) x \<Longrightarrow> rootsInValue x = []"
  by (simp add: rootsInValue_def idents_none)

lemma after_char_first: "c \<notin> set x \<Longrightarrow> after_char c (x @ c # s) = Some s"
proof -
  assume "c \<notin> set x"
  then have "dropWhile (\<lambda>d. d \<noteq> c) (x @ c # s) = c # s" by (subst dropWhile_append2) auto
  then show ?thesis by (simp add: after_char_def)
qed

lemma filter_roots_segment:
  assumes "filter_ok f"
  shows "filter_roots ('' '' @ render_filter f @ pad fs) = arg_roots f"
proof -
  have trim: "trim_space ('' '' @ render_filter f @ pad fs) = render_filter f"
    by (rule trim_word [OF word_ends_filter [OF assms]]) (simp_all add: pad_def)
  show ?thesis
  proof (cases f rule: render_filter.cases)
    case (1 n)
    then have "colon \<notin> set n"
      using assms ident_all [of n "\<lambda>c. c \<noteq> colon"] id_char_neq(5) by (auto simp: list_all_iff)
    then show ?thesis unfolding filter_roots_def trim by (simp add: 1 after_char_def)
  next
    case (2 n a)
    then have "colon \<notin> set n"
      using assms ident_all [of n "\<lambda>c. c \<noteq> colon"] id_char_neq(5) by (auto simp: list_all_iff)
    then have args: "after_char colon (render_filter f) = Some ('' '' @ render_arg a)"
      by (simp add: 2 after_char_first)
    have "rootsInValue ('' '' @ render_arg a) = arg_roots f"
    proof (cases a)
      case (ANum m)
      then have "list_all (\<lambda>c. \<not> id_start c) m"
        using assms 2 by (auto simp: list_all_iff is_digit_def id_start_def Let_def)
      then show ?thesis using ANum 2 by (simp add: roots_no_ident)
    next
      case (APath p)
      then show ?thesis
        using assms 2 roots_path [of p "'' ''" "[]"] by (simp add: firstNonSpace_def first_char_def)
    qed
    then show ?thesis unfolding filter_roots_def trim by (simp add: args)
  qed
qed

lemma filter_roots_segments:
  "list_all filter_ok fs \<Longrightarrow> concat (map filter_roots (segments fs)) = concat (map arg_roots fs)"
  by (induction fs) (simp_all add: filter_roots_segment del: append.simps)

lemma keywords_plain: "k \<in> set liquidKeywords \<Longrightarrow> dot \<notin> set k"
  by (auto simp: liquidKeywords_def dot_def)

lemma path_no_keyword: "path_ok p \<Longrightarrow> path p \<notin> set liquidKeywords"
proof (cases p rule: remdups_adj.cases)
  case (3 w v q)
  then have "dot \<in> set (path p)" by simp
  then show ?thesis using keywords_plain by blast
qed (simp_all add: path_ok_def)

lemma path_no_space: "path_ok p \<Longrightarrow> list_all (\<lambda>c. \<not> space_char c) (path p)"
  by (intro path_ok_all) (simp_all add: id_char_no_space)

lemma render_filters_head: "render_filters fs = [] \<or> space_char (hd (render_filters fs))"
  by (cases fs) (simp_all add: render_filters_def)

lemma roots_out:
  assumes "tok_ok (TOut p fs)"
  shows "variableRoots ('' '' @ out_expr p fs @ '' '') = hd p # concat (map arg_roots fs)"
proof -
  have ok: "path_ok p" "list_all filter_ok fs" using assms by simp_all
  have q: "list_all (\<lambda>c. c \<noteq> squote \<and> c \<noteq> dquote) (path p)" "list_all (\<lambda>c. c \<noteq> squote \<and> c \<noteq> dquote) (render_filters fs)"
    using ok id_char_neq by (auto intro!: path_ok_all render_filters_all)
  then have "squote \<notin> set ('' '' @ out_expr p fs @ '' '')" "dquote \<notin> set ('' '' @ out_expr p fs @ '' '')"
    by (auto simp: out_expr_def list_all_iff)
  from strip_unquoted [OF this, of "[]"] have "stripStringLiterals ('' '' @ out_expr p fs @ '' '') = '' '' @ out_expr p fs @ '' ''"
    by (simp add: stripStringLiterals_def)
  moreover have "trim_space ('' '' @ out_expr p fs @ '' '') = out_expr p fs"
    by (rule trim_word [OF word_ends_out [OF assms]]) simp_all
  moreover have "drop_keyword (out_expr p fs) = Some (out_expr p fs)"
  proof -
    have "is_ascii (path p)" "path p \<noteq> []" using word_ends_path [OF ok(1)] by (simp_all add: word_ends_def)
    moreover have "is_ascii (render_filters fs)"
      unfolding is_ascii_def using ok(2)
      by (intro render_filters_all) (simp_all add: id_char_ascii, simp_all add: prompt_chars)
    ultimately obtain rest where "str_fields (out_expr p fs) = path p # rest"
      using field_ascii [OF _ path_no_space [OF ok(1)] _ _ render_filters_head] by (auto simp: out_expr_def)
    then show ?thesis using path_no_keyword [OF ok(1)] by (simp add: drop_keyword_def)
  qed
  moreover have "pipe \<notin> set (path p)"
    using path_ok_all [OF ok(1), of "\<lambda>c. c \<noteq> pipe"] id_char_neq(4) by (auto simp: list_all_iff)
  then have "split_char pipe (out_expr p fs) = (path p @ pad fs) # segments fs"
    unfolding out_expr_def by (rule split_filters [OF ok(2)])
  moreover have "rootsInValue (path p @ pad fs) = [hd p]"
    using roots_path [OF ok(1), of "[]" "pad fs"]
    by (simp add: pad_def firstNonSpace_def first_char_def blank_char_def split: if_splits)
  ultimately show ?thesis
    unfolding variableRoots_def by (simp only: option.case list.case filter_roots_segments [OF ok(2)]) simp
qed

end
