(* ===== verification/PromptStrict.thy ===== *)
theory PromptStrict
  imports PromptCheck
begin

text \<open>
  The check for unknown variables on whole templates: the tags of loops and conditions, and the
  result of \<open>checkUnknownVariables\<close> on templates made of the pieces of \<open>tok\<close>.
\<close>

section \<open>The expression of a tag\<close>

lemma word_ends_cond: "kw \<in> {''if'', ''elsif'', ''unless''} \<Longrightarrow> word_ends kw"
  by (auto simp: word_ends_def is_ascii_def id_char_def id_start_def)

lemma tag_expr_ascii: "tok_ok k \<Longrightarrow> is_ascii (tag_expr k)"
proof (cases k rule: tag_expr.cases)
  case (2 x p fs)
  assume "tok_ok k"
  with 2 have "word_ends x" "word_ends (out_expr p fs)" using word_ends_ident word_ends_out [of p fs] by simp_all
  then show ?thesis using 2 by (simp add: is_ascii_def word_ends_def) (simp add: prompt_chars)
next
  case (3 kw p)
  assume "tok_ok k"
  with 3 have "word_ends kw" "word_ends (path p)" using word_ends_cond word_ends_path by simp_all
  then show ?thesis using 3 by (simp add: is_ascii_def word_ends_def)
next
  case (4 kw p l)
  assume "tok_ok k"
  with 4 have l: "list_all literal_char l" and p: "path_ok p" and kw: "word_ends kw" using word_ends_cond by simp_all
  have "is_ascii (path p)" using word_ends_path [OF p] by (simp add: word_ends_def)
  moreover have "is_ascii l" using l by (simp add: is_ascii_def literal_char_def list_all_iff)
  ultimately show ?thesis using 4 kw by (simp add: is_ascii_def word_ends_def) (simp add: prompt_chars)
next
  case (5 e)
  assume "tok_ok k"
  with 5 show ?thesis by (auto simp: is_ascii_def)
qed (use word_ends_path word_ends_ident in \<open>simp_all add: is_ascii_def word_ends_def\<close>)

lemma tag_expr_ends:
  assumes "tok_ok k" and "is_tag k"
  shows "tag_expr k \<noteq> [] \<and> \<not> space_char (hd (tag_expr k)) \<and> \<not> space_char (last (tag_expr k))"
proof -
  have path: "\<not> space_char (last (x @ path p))" if "path_ok p" for x p
    using word_ends_path [OF that] id_char_no_space by (simp add: word_ends_def)
  have "\<not> space_char (last (tag_expr k))"
  proof (cases k rule: tag_expr.cases)
    case (1 x p)
    then show ?thesis using assms(1) path [of p "''for '' @ x @ '' in ''"] by simp
  next
    case (2 x p fs)
    then have "word_ends (out_expr p fs)" using assms(1) word_ends_out [of p fs] by simp
    then show ?thesis using 2 id_char_no_space by (simp add: word_ends_def)
  next
    case (3 kw p)
    then show ?thesis using assms(1) path [of p "kw @ '' ''"] by simp
  next
    case (4 kw p l)
    then show ?thesis by simp (simp add: space_char_def space_rune_def prompt_chars)
  next
    case (5 e)
    then show ?thesis using assms(1) by (auto simp: space_char_def space_rune_def)
  qed (use assms(2) in \<open>simp_all add: is_tag_def\<close>)
  moreover have "\<not> space_char (hd (tag_expr k))" using tag_expr_head [OF assms] by (auto simp: space_char_def space_rune_def)
  ultimately show ?thesis using tag_expr_head [OF assms] by simp
qed

lemma trim_tag: "tok_ok k \<Longrightarrow> is_tag k \<Longrightarrow> trim_space ('' '' @ tag_expr k @ '' '') = tag_expr k"
  using tag_expr_ends by (intro trim_blanks tag_expr_ascii) (simp_all add: is_ascii_def)

lemma first_word:
  assumes "word_ends w" and "list_all (\<lambda>c. \<not> space_char c) w" and "is_ascii s"
  shows "\<exists>rest. str_fields (w @ '' '' @ s) = w # rest"
  using assms field_ascii [of w "'' '' @ s"] by (simp add: word_ends_def is_ascii_def)

lemma tag_words:
  assumes "w \<in> {''for'', ''assign'', ''if'', ''elsif'', ''unless''}"
  shows "word_ends w" "list_all (\<lambda>c. \<not> space_char c) w" "w \<in> set liquidKeywords" "w \<notin> set non_expr_tags"
    "squote \<notin> set w" "dquote \<notin> set w"
  using assms
  by (auto simp: word_ends_def is_ascii_def id_char_def id_start_def space_char_def space_rune_def
      liquidKeywords_def non_expr_tags_def prompt_chars)

lemma in_keyword: "''in'' \<in> set liquidKeywords"
  by (simp add: liquidKeywords_def)

section \<open>Loops\<close>

text \<open>The first \<open>in\<close> that is a word on its own is the one after the name of the loop.\<close>

lemma ms_in_inside: "id_char c \<Longrightarrow> id_char d \<Longrightarrow> ms in_word_re (Some c) (d # s) = []"
  by (simp add: in_word_re_def word_at_def first_char_def ms.simps(6))

lemma ms_in_other: "\<not> has_prefix s ''in'' \<Longrightarrow> ms in_word_re p s = []"
  by (simp add: in_word_re_def ms.simps(6))

lemma ms_in_here: "ms in_word_re (Some (CHR '' '')) (''in '' @ s) = [(''in'', None)]"
  by (simp add: in_word_re_def ms.simps(6) word_at_def first_char_def last_char_def has_prefix_def)
    (simp add: id_char_def id_start_def)

lemma in_after_name:
  assumes "list_all id_char x" and "id_char c"
  shows "\<exists>rest. find_all in_word_re (Some c) i (x @ '' in '' @ s) = (i + length x + 1, ''in'', None) # rest"
  using assms
proof (induction x arbitrary: c i)
  case Nil
  have "find_all in_word_re (Some c) i (CHR '' '' # ''in '' @ s) = find_all in_word_re (Some (CHR '' '')) (Suc i) (''in '' @ s)"
    by (intro find_all_skip ms_in_other) (simp add: has_prefix_def)
  also have "\<dots> = (Suc i, ''in'', None) # find_all in_word_re (Some (last ''in'')) (Suc i + length ''in'') (drop (length ''in'') (''in '' @ s))"
    by (rule find_all_match [OF ms_in_here]) simp_all
  finally show ?case by simp
next
  case (Cons d x)
  then have "find_all in_word_re (Some c) i (d # x @ '' in '' @ s) = find_all in_word_re (Some d) (Suc i) (x @ '' in '' @ s)"
    by (intro find_all_skip ms_in_inside) simp_all
  with Cons.IH [of d "Suc i"] Cons.prems show ?case by simp
qed

lemma ms_in_start:
  assumes "is_ident x" and "x \<noteq> ''in''"
  shows "ms in_word_re None (x @ CHR '' '' # s) = []"
proof (cases "has_prefix (x @ CHR '' '' # s) ''in''")
  case True
  have "x \<noteq> []" using assms(1) by (simp add: is_ident_def)
  with True assms(2) obtain d v where x: "x = CHR ''i'' # CHR ''n'' # d # v"
    by (cases x rule: remdups_adj.cases; cases "tl (tl x)") (auto simp: has_prefix_def)
  then have "id_char d" using is_ident_chars [OF assms(1)] by simp
  then show ?thesis
    by (simp add: x in_word_re_def ms.simps(6) word_at_def first_char_def last_char_def has_prefix_def)
      (simp add: id_char_def id_start_def)
qed (rule ms_in_other)

lemma find_in:
  assumes "is_ident x" and "x \<noteq> ''in''"
  shows "\<exists>rest. find_all in_word_re None 0 (x @ '' in '' @ s) = (length x + 1, ''in'', None) # rest"
proof -
  obtain d v where x: "x = d # v" using assms(1) by (cases x) (auto simp: is_ident_def)
  have "ms in_word_re None (d # v @ '' in '' @ s) = []" using ms_in_start [OF assms, of "''in '' @ s"] x by simp
  then have "find_all in_word_re None 0 (d # v @ '' in '' @ s) = find_all in_word_re (Some d) 1 (v @ '' in '' @ s)"
    using find_all_skip by simp
  moreover have "list_all id_char v" "id_char d" using is_ident_chars [OF assms(1)] x by simp_all
  ultimately show ?thesis using in_after_name [of v d 1 s] x by simp
qed

section \<open>The roots of a tag\<close>

lemma path_word: "path_ok p \<Longrightarrow> trim_space ('' '' @ path p) = path p"
  using trim_word [OF word_ends_path, of p "'' ''" "[]"] by simp

lemma split_no_pipe: "pipe \<notin> set s \<Longrightarrow> split_char pipe s = [s]"
  by (rule split_char_no_sep)

lemma path_no_char: "path_ok p \<Longrightarrow> \<not> id_char c \<Longrightarrow> c \<noteq> dot \<Longrightarrow> c \<notin> set (path p)"
  using path_ok_all [of p "\<lambda>d. d \<noteq> c"] by (auto simp: list_all_iff)

lemma ident_no_char: "is_ident w \<Longrightarrow> \<not> id_char c \<Longrightarrow> c \<notin> set w"
  using is_ident_chars [of w] by (auto simp: list_all_iff)

lemma drop_keyword_cond:
  "str_fields s = w # rest \<Longrightarrow> w \<in> {''if'', ''elsif'', ''unless''} \<Longrightarrow> trim_prefix s w = r \<Longrightarrow>
     drop_keyword s = Some (trim_space r)"
  using tag_words(3) [of w] by (auto simp: drop_keyword_def)

lemma drop_keyword_assign:
  "str_fields s = ''assign'' # rest \<Longrightarrow> trim_prefix s ''assign'' = r \<Longrightarrow> after_char equals (trim_space r) = Some t \<Longrightarrow>
     drop_keyword s = Some t"
  using tag_words(3) [of "''assign''"] by (simp add: drop_keyword_def)

lemma drop_keyword_for:
  "str_fields s = ''for'' # rest \<Longrightarrow> trim_prefix s ''for'' = r \<Longrightarrow>
     find_all in_word_re None 0 (trim_space r) = (i, x, k) # rest' \<Longrightarrow>
     drop_keyword s = Some (drop (i + length x) (trim_space r))"
  using tag_words(3) [of "''for''"] by (simp add: drop_keyword_def)

lemma strip_same: "squote \<notin> set s \<Longrightarrow> dquote \<notin> set s \<Longrightarrow> stripStringLiterals s = s"
  using strip_unquoted [of s "[]"] by (simp add: stripStringLiterals_def)

lemma trim_word_ends: "is_ascii x \<Longrightarrow> x \<noteq> [] \<Longrightarrow> \<not> space_char (hd x) \<Longrightarrow> \<not> space_char (last x) \<Longrightarrow> trim_space x = x"
  using trim_blanks [of x "[]" "[]"] by (simp add: is_ascii_def)

lemma tag_fields:
  assumes "w \<in> {''for'', ''assign'', ''if'', ''elsif'', ''unless''}" and "is_ascii s"
  shows "\<exists>rest. str_fields (w @ '' '' @ s) = w # rest" and "trim_prefix (w @ '' '' @ s) w = '' '' @ s"
  using first_word [OF tag_words(1,2) [OF assms(1)] assms(2)] by (simp_all add: trim_prefix_def has_prefix_def)

lemma roots_for:
  assumes "tok_ok (TFor x p)"
  shows "variableRoots (tag_expr (TFor x p)) = [hd p]"
proof -
  let ?t = "x @ '' in '' @ path p"
  let ?e = "''for'' @ '' '' @ ?t"
  have x: "is_ident x" "x \<noteq> ''in''" and p: "path_ok p" using assms in_keyword by auto
  have ends: "word_ends ?t" using word_ends_ident [OF x(1)] word_ends_path [OF p] by (simp add: word_ends_def is_ascii_def)
  have "squote \<notin> set ?e" "dquote \<notin> set ?e"
    using ident_no_char [OF x(1)] path_no_char [OF p] by (auto simp: prompt_chars id_char_def id_start_def)
  then have strip: "stripStringLiterals ?e = ?e" by (rule strip_same)
  have trim: "trim_space ?e = ?e"
    using trim_word_ends [OF tag_expr_ascii [OF assms]] tag_expr_ends [OF assms] by (simp add: is_tag_def)
  have asc: "is_ascii ?t" using ends by (simp add: word_ends_def)
  obtain rest where fields: "str_fields ?e = ''for'' # rest" using tag_fields(1) [OF _ asc, of "''for''"] by auto
  have t1: "trim_space ('' '' @ ?t) = ?t" using trim_word [OF ends, of "'' ''" "[]"] by simp
  obtain rest' where "find_all in_word_re None 0 ?t = (length x + 1, ''in'', None) # rest'"
    using find_in [OF x] by blast
  then have "drop_keyword ?e = Some (drop (length x + 1 + length ''in'') ?t)"
    using drop_keyword_for [OF fields tag_fields(2) [OF _ asc]] t1 by (metis insertI1)
  then have drop: "drop_keyword ?e = Some ('' '' @ path p)" by simp
  have "pipe \<notin> set ('' '' @ path p)" using path_no_char [OF p, of pipe] by simp
  then have split: "split_char pipe ('' '' @ path p) = ['' '' @ path p]" by (rule split_no_pipe)
  have roots: "rootsInValue ('' '' @ path p) = [hd p]"
    using roots_path [OF p, of "'' ''" "[]"] by (simp add: firstNonSpace_def first_char_def)
  have e: "tag_expr (TFor x p) = ?e" by simp
  show ?thesis
    unfolding variableRoots_def e strip trim drop by (simp only: option.case split list.case roots) simp
qed

lemma roots_assign:
  assumes "tok_ok (TAssign x p fs)"
  shows "variableRoots (tag_expr (TAssign x p fs)) = hd p # concat (map arg_roots fs)"
proof -
  let ?t = "x @ '' '' @ [equals] @ '' '' @ out_expr p fs"
  let ?e = "''assign'' @ '' '' @ ?t"
  have x: "is_ident x" and p: "path_ok p" and fs: "list_all filter_ok fs" using assms by auto
  have o: "word_ends (out_expr p fs)" using word_ends_out [of p fs] p fs by simp
  have ends: "word_ends ?t" using word_ends_ident [OF x] o by (simp add: word_ends_def is_ascii_def) (simp add: prompt_chars)
  have "squote \<notin> set (out_expr p fs)" "dquote \<notin> set (out_expr p fs)"
    using p fs id_char_neq path_ok_all [of p "\<lambda>c. c \<noteq> squote \<and> c \<noteq> dquote"]
      render_filters_all [of fs "\<lambda>c. c \<noteq> squote \<and> c \<noteq> dquote"]
    by (auto simp: out_expr_def list_all_iff)
  then have "squote \<notin> set ?e" "dquote \<notin> set ?e"
    using ident_no_char [OF x] by (auto simp: prompt_chars id_char_def id_start_def)
  then have strip: "stripStringLiterals ?e = ?e" by (rule strip_same)
  have e: "tag_expr (TAssign x p fs) = ?e" by simp
  have trim: "trim_space ?e = ?e"
    using trim_word_ends [OF tag_expr_ascii [OF assms]] tag_expr_ends [OF assms] unfolding e by (simp add: is_tag_def)
  have asc: "is_ascii ?t" using ends by (simp add: word_ends_def)
  obtain rest where fields: "str_fields ?e = ''assign'' # rest" using tag_fields(1) [OF _ asc, of "''assign''"] by auto
  have t1: "trim_space ('' '' @ ?t) = ?t" using trim_word [OF ends, of "'' ''" "[]"] by simp
  have "equals \<notin> set (x @ '' '')" using ident_no_char [OF x, of equals] by simp
  from after_char_first [OF this, of "'' '' @ out_expr p fs"]
  have "after_char equals (trim_space ('' '' @ ?t)) = Some ('' '' @ out_expr p fs)" unfolding t1 by simp
  from drop_keyword_assign [OF fields tag_fields(2) [OF _ asc] this]
  have drop: "drop_keyword ?e = Some ('' '' @ out_expr p fs)" by simp
  have "pipe \<notin> set ('' '' @ path p)" using path_no_char [OF p, of pipe] by simp
  from split_filters [OF fs this]
  have split: "split_char pipe ('' '' @ out_expr p fs) = ('' '' @ path p @ pad fs) # segments fs" by (simp add: out_expr_def)
  have roots: "rootsInValue ('' '' @ path p @ pad fs) = [hd p]"
    using roots_path [OF p, of "'' ''" "pad fs"]
    by (simp add: pad_def firstNonSpace_def first_char_def blank_char_def split: if_splits)
  show ?thesis
    unfolding variableRoots_def e strip trim drop
    by (simp only: option.case split list.case roots filter_roots_segments [OF fs]) simp
qed

lemma roots_if_value:
  assumes "path_ok p" and "t \<in> {[], '' '' @ [equals, equals]}"
  shows "trim_space ('' '' @ path p @ t) = path p @ t" and "pipe \<notin> set (path p @ t)"
    and "rootsInValue (path p @ t) = [hd p]" and "is_ascii (path p @ t)"
proof -
  have e: "\<not> space_char (last (path p @ t))" "is_ascii t"
    using assms(2) word_ends_path [OF assms(1)] id_char_no_space
    by (auto simp: word_ends_def is_ascii_def, simp_all add: prompt_chars space_char_def space_rune_def)
  show asc: "is_ascii (path p @ t)" using e(2) word_ends_path [OF assms(1)] by (simp add: word_ends_def is_ascii_def)
  show "trim_space ('' '' @ path p @ t) = path p @ t"
    using trim_blanks [OF asc _ _ e(1), of "'' ''" "[]"] word_ends_path [OF assms(1)] id_char_no_space
    by (simp add: word_ends_def is_ascii_def)
  show "pipe \<notin> set (path p @ t)" using assms(2) path_no_char [OF assms(1), of pipe] by auto
  show "rootsInValue (path p @ t) = [hd p]"
    using roots_path [OF assms(1), of "[]" t] assms(2) by (auto simp: firstNonSpace_def first_char_def)
qed

text \<open>The text of a condition without its literal, as it stands after the literals are stripped and trimmed.\<close>

lemma roots_if_core:
  assumes "kw \<in> {''if'', ''elsif'', ''unless''}" and "path_ok p" and "t \<in> {[], '' '' @ [equals, equals]}"
    and "trim_space (stripStringLiterals e) = kw @ '' '' @ path p @ t"
  shows "variableRoots e = [hd p]"
proof -
  note v = roots_if_value [OF assms(2,3)]
  have kw: "kw \<in> {''for'', ''assign'', ''if'', ''elsif'', ''unless''}" using assms(1) by blast
  obtain rest where fields: "str_fields (kw @ '' '' @ path p @ t) = kw # rest" using tag_fields(1) [OF kw v(4)] by blast
  from drop_keyword_cond [OF fields assms(1) tag_fields(2) [OF kw v(4)]]
  have drop: "drop_keyword (kw @ '' '' @ path p @ t) = Some (path p @ t)" unfolding v(1) .
  show ?thesis
    unfolding variableRoots_def assms(4) drop by (simp only: option.case split_no_pipe [OF v(2)] list.case) (simp add: v(3))
qed

lemma roots_if:
  assumes "tok_ok (TIf kw p l)"
  shows "variableRoots (tag_expr (TIf kw p l)) = [hd p]"
proof -
  have p: "path_ok p" and kw: "kw \<in> {''if'', ''elsif'', ''unless''}" using assms by simp_all
  have kw': "kw \<in> {''for'', ''assign'', ''if'', ''elsif'', ''unless''}" using kw by blast
  have q: "squote \<notin> set (kw @ '' '' @ path p)" "dquote \<notin> set (kw @ '' '' @ path p)"
    using path_no_char [OF p] tag_words(5,6) [OF kw'] by (auto simp: prompt_chars id_char_def id_start_def)
  have trim: "trim_space ((kw @ '' '' @ path p @ t) @ replicate n (CHR '' '')) = kw @ '' '' @ path p @ t"
    if "t \<in> {[], '' '' @ [equals, equals]}" for t n
  proof -
    have "is_ascii (kw @ '' '' @ path p @ t)"
      using roots_if_value(4) [OF p that] word_ends_cond [OF kw] by (simp add: is_ascii_def word_ends_def)
    moreover have "\<not> space_char (last (kw @ '' '' @ path p @ t))"
    proof (cases "t = []")
      case True
      then show ?thesis using word_ends_path [OF p] id_char_no_space by (simp add: word_ends_def)
    next
      case False
      then show ?thesis using that by simp
    qed
    moreover have "kw \<noteq> []" "\<not> space_char (hd kw)" using word_ends_cond [OF kw] id_char_no_space by (auto simp: word_ends_def)
    ultimately show ?thesis
      using trim_blanks [of "kw @ '' '' @ path p @ t" "[]" "replicate n (CHR '' '')"] blanks_space [of n]
      by (simp add: is_ascii_def list_all_iff)
  qed
  show ?thesis
  proof (cases l)
    case None
    have "stripStringLiterals (kw @ '' '' @ path p) = kw @ '' '' @ path p" by (rule strip_same [OF q])
    then show ?thesis using trim [of "[]" 0] None by (intro roots_if_core [OF kw p]) simp_all
  next
    case (Some m)
    let ?pre = "kw @ '' '' @ path p @ '' '' @ [equals, equals] @ '' ''"
    have m: "squote \<notin> set m" using assms Some by (auto simp: literal_char_def list_all_iff)
    have "squote \<notin> set ?pre" "dquote \<notin> set ?pre" using q by (auto simp: prompt_chars)
    from strip_unquoted [OF this, of "squote # m @ [squote]"]
    have "stripStringLiterals (tag_expr (TIf kw p l)) = (kw @ '' '' @ path p @ '' '' @ [equals, equals]) @ replicate (length m + 3) (CHR '' '')"
      using strip_quoted [OF m, of "[]"] Some by (simp add: stripStringLiterals_def numeral_3_eq_3)
    then show ?thesis
      using trim [of "'' '' @ [equals, equals]" "length m + 3"]
      by (intro roots_if_core [OF kw p, of "'' '' @ [equals, equals]"]) (simp_all only: append.simps append_assoc insert_iff simp_thms)
  qed
qed

section \<open>Whole templates\<close>

lemma end_tags: "e \<in> {''endfor'', ''endif'', ''else'', ''endunless'', ''raw'', ''endraw''} \<Longrightarrow> isNonExprTag e"
proof -
  assume e: "e \<in> {''endfor'', ''endif'', ''else'', ''endunless'', ''raw'', ''endraw''}"
  then have "is_ascii e" "list_all (\<lambda>c. \<not> space_char c) e" "e \<noteq> []"
    by (auto simp: is_ascii_def space_char_def space_rune_def)
  then obtain rest where "str_fields (e @ []) = e # rest" using field_ascii [of e "[]"] by (auto simp: is_ascii_def)
  then have "str_fields e = e # rest" by simp
  moreover have "e \<in> set non_expr_tags" using e by (auto simp: non_expr_tags_def)
  ultimately show ?thesis by (simp add: isNonExprTag_def)
qed

lemma expr_tags:
  assumes "tok_ok k" and "tag_expr k = w @ '' '' @ s" and "w \<in> {''for'', ''assign'', ''if'', ''elsif'', ''unless''}"
  shows "\<not> isNonExprTag (tag_expr k)"
proof -
  have "is_ascii s" using tag_expr_ascii [OF assms(1)] assms(2) by (simp add: is_ascii_def)
  then obtain rest where "str_fields (w @ '' '' @ s) = w # rest" using tag_fields(1) [OF assms(3)] by blast
  then show ?thesis unfolding assms(2) isNonExprTag_def using tag_words(4) [OF assms(3)] by simp
qed

lemma tag_tok_roots:
  assumes "tok_ok k"
  shows "concat (map variableRoots (filter (\<lambda>e. \<not> isNonExprTag e) (map trim_space (tag_block k)))) = tag_roots k"
proof (cases "is_tag k")
  case True
  have block: "map trim_space (tag_block k) = [tag_expr k]"
    using trim_tag [OF assms True] True by (simp add: tag_block_def)
  show ?thesis
  proof (cases k)
    case (TFor x p)
    then have "\<not> isNonExprTag (tag_expr k)" using expr_tags [OF assms, of "''for''"] by simp
    moreover have "variableRoots (tag_expr k) = tag_roots k" using roots_for [of x p] assms TFor by (simp only: tag_roots.simps)
    ultimately show ?thesis by (simp add: block)
  next
    case (TAssign x p fs)
    then have "\<not> isNonExprTag (tag_expr k)" using expr_tags [OF assms, of "''assign''"] by simp
    moreover have "variableRoots (tag_expr k) = tag_roots k"
      using roots_assign [of x p fs] assms TAssign by (simp only: tag_roots.simps)
    ultimately show ?thesis by (simp add: block)
  next
    case (TIf kw p l)
    obtain r where "tag_expr k = kw @ '' '' @ r" using TIf by (cases l) simp_all
    moreover have "kw \<in> {''for'', ''assign'', ''if'', ''elsif'', ''unless''}" using assms TIf by simp
    ultimately have "\<not> isNonExprTag (tag_expr k)" by (rule expr_tags [OF assms])
    moreover have "variableRoots (tag_expr k) = tag_roots k" using roots_if [of kw p l] assms TIf by (simp only: tag_roots.simps)
    ultimately show ?thesis by (simp add: block)
  next
    case (TEnd e)
    then have "isNonExprTag (tag_expr k)" using end_tags [of e] assms by simp
    moreover have "tag_roots k = []" using TEnd by simp
    ultimately show ?thesis by (simp add: block)
  qed (use True in \<open>simp_all add: is_tag_def\<close>)
next
  case False
  then show ?thesis by (cases k) (simp_all add: tag_block_def is_tag_def)
qed

lemma out_tok_roots: "tok_ok k \<Longrightarrow> concat (map variableRoots (out_block k)) = out_roots k"
  using roots_out by (cases k) (simp_all add: out_block_def)

text \<open>The roots the check sees, in its order: those of all outputs, then those of all tags.\<close>

definition used_roots :: "tok list \<Rightarrow> string list" where
  "used_roots ts = concat (map out_roots ts) @ concat (map tag_roots ts)"

lemma expression_roots:
  assumes "list_all tok_ok ts"
  shows "concat (map variableRoots (expressionBlocks (render ts))) = used_roots ts"
proof -
  have "concat (map variableRoots (concat (map out_block ts))) = concat (map out_roots ts)"
    using assms by (induction ts) (simp_all add: out_tok_roots)
  moreover have "concat (map variableRoots (filter (\<lambda>e. \<not> isNonExprTag e) (map trim_space (concat (map tag_block ts)))))
      = concat (map tag_roots ts)"
    using assms by (induction ts) (simp_all add: tag_tok_roots)
  ultimately show ?thesis
    unfolding expressionBlocks_def used_roots_def groups_render [OF assms] by simp
qed

definition ok_names :: "tok list \<Rightarrow> string list \<Rightarrow> string list" where
  "ok_names ts keys = [''forloop'', ''tablerowloop''] @ keys @ concat (map loop_names ts) @ concat (map assign_names ts)"

lemma check_render:
  assumes "list_all tok_ok ts"
  shows "checkUnknownVariables (render ts) keys =
    (case find (\<lambda>v. v \<notin> set (ok_names ts keys)) (used_roots ts) of
       None \<Rightarrow> None
     | Some v \<Rightarrow> Some (TypedErr ''template_render_error'' (''unknown variable: '' @ v)))"
proof -
  have "set (known_names (render ts) keys) = set (ok_names ts keys)"
    unfolding known_names_render [OF assms] ok_names_def by auto
  then show ?thesis unfolding checkUnknownVariables_def expression_roots [OF assms] by simp
qed

end
