(* ===== verification/PromptRender.thy ===== *)
theory PromptRender
  imports PromptStrict Calendar Runner
begin

text \<open>
  prompt.go: the values a template sees and \<^verbatim>\<open>Render\<close>. The Liquid engine is a parameter:
  \<open>parse\<close> turns a text into a template or an error text, \<open>run\<close> renders a template.
\<close>

definition DefaultPrompt :: string where
  "DefaultPrompt = ''You are working on an issue from Linear.''"

definition CodeTemplateParseError :: string where "CodeTemplateParseError = ''template_parse_error''"
definition CodeTemplateRenderError :: string where "CodeTemplateRenderError = ''template_render_error''"

definition derefString :: "string option \<Rightarrow> gvalue" where
  "derefString s = (case s of None \<Rightarrow> VNil | Some x \<Rightarrow> VStr x)"

definition derefInt :: "int option \<Rightarrow> gvalue" where
  "derefInt i = (case i of None \<Rightarrow> VNil | Some x \<Rightarrow> VInt x)"

definition time_binding :: "int option \<Rightarrow> gvalue" where
  "time_binding t = (case t of None \<Rightarrow> VNil | Some ns \<Rightarrow> VStr (format_time ns))"

definition blocker_binding :: "blocker_ref \<Rightarrow> gvalue" where
  "blocker_binding b = VMap [(''id'', derefString (br_ID b)), (''identifier'', derefString (br_Identifier b)),
     (''state'', derefString (br_State b))]"

definition issue_binding :: "issue \<Rightarrow> (string \<times> gvalue) list" where
  "issue_binding i =
     [(''id'', VStr (i_ID i)), (''identifier'', VStr (i_Identifier i)), (''title'', VStr (i_Title i)),
      (''description'', derefString (i_Description i)), (''priority'', derefInt (i_Priority i)),
      (''state'', VStr (i_State i)), (''branch_name'', derefString (i_BranchName i)), (''url'', derefString (i_URL i)),
      (''labels'', VList (map VStr (i_Labels i))), (''blocked_by'', VList (map blocker_binding (i_BlockedBy i))),
      (''assignee'', derefString (i_Assignee i)),
      (''created_at'', time_binding (i_CreatedAt i)), (''updated_at'', time_binding (i_UpdatedAt i))]"

definition buildBindings :: "issue \<Rightarrow> int option \<Rightarrow> (string \<times> gvalue) list" where
  "buildBindings i attempt = [(''issue'', VMap (issue_binding i)), (''attempt'', derefInt attempt)]"

definition Render ::
  "(string \<Rightarrow> string + 't) \<Rightarrow> ('t \<Rightarrow> (string \<times> gvalue) list \<Rightarrow> string + string)
   \<Rightarrow> string \<Rightarrow> issue \<Rightarrow> int option \<Rightarrow> go_error + string" where
  "Render parse run template i attempt =
     (let body = (if trim_space template = [] then DefaultPrompt else template);
          bindings = buildBindings i attempt
      in case checkUnknownVariables body (map fst bindings) of
           Some e \<Rightarrow> Inl e
         | None \<Rightarrow>
             (case parse body of
                Inl e \<Rightarrow> Inl (TypedErr CodeTemplateParseError e)
              | Inr t \<Rightarrow>
                  (case run t bindings of
                     Inl e \<Rightarrow> Inl (TypedErr CodeTemplateRenderError e)
                   | Inr out \<Rightarrow> Inr out)))"

lemma binding_keys: "map fst (buildBindings i attempt) = [''issue'', ''attempt'']"
  by (simp add: buildBindings_def)

section \<open>What the check lets through, and what it refuses\<close>

text \<open>
  An output that is one of the words the check skips is accepted whatever the bindings are: a
  template that uses a variable called \<^verbatim>\<open>limit\<close> or \<^verbatim>\<open>range\<close> renders it as empty.
\<close>

lemma keyword_word: "k \<in> set liquidKeywords \<Longrightarrow> word_ends k \<and> list_all (\<lambda>c. \<not> space_char c) k \<and> list_all id_char k"
proof -
  have "list_all (list_all (\<lambda>c. 97 \<le> byte c \<and> byte c \<le> 122)) liquidKeywords"
    by (simp add: liquidKeywords_def)
  moreover have "[] \<notin> set liquidKeywords" by (simp add: liquidKeywords_def)
  moreover have "id_char c" if "97 \<le> byte c \<and> byte c \<le> 122" for c
    using that by (simp add: id_char_def id_start_def Let_def)
  moreover assume "k \<in> set liquidKeywords"
  ultimately have k: "k \<noteq> []" "list_all id_char k" by (auto simp: list_all_iff)
  then show ?thesis
    using id_char_no_space id_char_ascii by (auto simp: word_ends_def list_all_iff is_ascii_def)
qed

lemma keyword_roots:
  assumes "k \<in> set liquidKeywords"
  shows "variableRoots ('' '' @ k @ '' '') = []"
proof -
  have k: "word_ends k" "list_all (\<lambda>c. \<not> space_char c) k" "list_all id_char k"
    using keyword_word [OF assms] by simp_all
  have "squote \<notin> set k" "dquote \<notin> set k" using k(3) id_char_neq by (auto simp: list_all_iff)
  then have "squote \<notin> set ('' '' @ k @ '' '')" "dquote \<notin> set ('' '' @ k @ '' '')" by simp_all
  from strip_unquoted [OF this, of "[]"] have strip: "stripStringLiterals ('' '' @ k @ '' '') = '' '' @ k @ '' ''"
    by (simp add: stripStringLiterals_def)
  have trim: "trim_space ('' '' @ k @ '' '') = k" by (rule trim_word [OF k(1)]) simp_all
  have nil: "trim_space [] = []" "find_all in_word_re None 0 [] = []" "rootsInValue [] = []"
    using trim_space_ascii [of "[]"] ms_in_other [of "[]" None] roots_no_ident [of "[]"]
    by (simp_all add: is_ascii_def find_all_Nil has_prefix_def)
  obtain rest where "str_fields (k @ []) = k # rest"
    using field_ascii [of k "[]"] k by (auto simp: word_ends_def is_ascii_def)
  then have "drop_keyword k = None \<or> drop_keyword k = Some []"
    using assms prefix_simps(2) [of k "[]"] nil by (simp add: drop_keyword_def Let_def after_char_def)
  then show ?thesis unfolding variableRoots_def strip trim by (auto simp: split_char_no_sep nil)
qed

lemma keyword_passes:
  assumes "k \<in> set liquidKeywords"
  shows "checkUnknownVariables ([lbrace, lbrace, CHR '' ''] @ k @ [CHR '' '', rbrace, rbrace]) keys = None"
proof -
  have clean: "list_all clean k" using keyword_word [OF assms] id_char_clean by (auto simp: list_all_iff)
  have "groups outputRe ([lbrace, lbrace, CHR '' ''] @ k @ [CHR '' '', rbrace, rbrace] @ []) = ['' '' @ k @ '' '']"
    unfolding outputRe_delim using groups_this_delim [OF clean, of rbrace lbrace "[]"] groups_empty(1)
    by (simp add: outputRe_delim)
  moreover have "groups tagRe ([lbrace, lbrace, CHR '' ''] @ k @ [CHR '' '', rbrace, rbrace] @ []) = []"
    using groups_skip_delim [of percent lbrace k rbrace _ "[]"] clean groups_Nil
    by (simp add: tagRe_delim delim_re_lit)
  ultimately have "concat (map variableRoots (expressionBlocks ([lbrace, lbrace, CHR '' ''] @ k @ [CHR '' '', rbrace, rbrace]))) = []"
    using keyword_roots [OF assms] by (simp add: expressionBlocks_def)
  then show ?thesis unfolding checkUnknownVariables_def by (simp only: find.simps option.case)
qed

text \<open>The engine prints what stands in a \<^verbatim>\<open>raw\<close> block as it is; the check refuses it all the same.\<close>

lemma raw_block_checked:
  assumes "is_ident x" and "x \<notin> set liquidKeywords" and "x \<notin> set ([''forloop'', ''tablerowloop''] @ keys)"
  shows "checkUnknownVariables (render [TEnd ''raw'', TOut [x] [], TEnd ''endraw'']) keys
    = Some (TypedErr ''template_render_error'' (''unknown variable: '' @ x))"
  using assms by (subst check_render) (simp_all add: used_roots_def ok_names_def path_ok_def)

section \<open>Rendering\<close>

lemma Render_render:
  assumes "list_all tok_ok ts" and "trim_space (render ts) \<noteq> []"
  shows "Render parse run (render ts) i attempt =
    (case find (\<lambda>v. v \<notin> set (ok_names ts [''issue'', ''attempt''])) (used_roots ts) of
       Some v \<Rightarrow> Inl (TypedErr ''template_render_error'' (''unknown variable: '' @ v))
     | None \<Rightarrow>
         (case parse (render ts) of
            Inl e \<Rightarrow> Inl (TypedErr ''template_parse_error'' e)
          | Inr t \<Rightarrow> map_sum (TypedErr ''template_render_error'') (\<lambda>out. out) (run t (buildBindings i attempt))))"
  unfolding Render_def Let_def binding_keys if_not_P [OF assms(2)] check_render [OF assms(1)]
  by (cases "find (\<lambda>v. v \<notin> set (ok_names ts [''issue'', ''attempt''])) (used_roots ts)")
    (simp_all add: CodeTemplateParseError_def CodeTemplateRenderError_def split: sum.split)

lemma prompt_error_no_turn:
  assumes "we_Render we (rn_template r) i attempt = Inl e"
  shows "turns_of (fst (run_worker we r i attempt)) = []"
proof -
  have "buildTurnPrompt we r i attempt 1 = Inl e" using assms by (simp add: buildTurnPrompt_def)
  then have "turn_loop we r d path attempt i 1 = (finish path, Some (PlainErr (''prompt error: '' @ error_string e)))" for d path
    by (simp add: turn_loop.simps [of we r d path attempt i 1])
  then show ?thesis by (simp add: run_worker_def Let_def split: sum.split option.split)
qed

text \<open>
  C28: On templates of text, outputs with filters, assignments, loops and conditions, Render fails
  on the first root (outputs before tags) that is neither an input, a loop or assigned variable nor
  one of Liquid's own, and names it; otherwise the result is the engine's, its errors under the two
  template codes. Property accesses, filter names, numbers and quoted texts are never taken for
  variables. When an unknown variable is found, the worker ends without a single agent turn.
\<close>

theorem Render_strict:
  assumes "list_all tok_ok ts" and "trim_space (render ts) \<noteq> []"
  shows "Render parse run (render ts) i attempt =
      (case find (\<lambda>v. v \<notin> set (ok_names ts [''issue'', ''attempt''])) (used_roots ts) of
         Some v \<Rightarrow> Inl (TypedErr ''template_render_error'' (''unknown variable: '' @ v))
       | None \<Rightarrow>
           (case parse (render ts) of
              Inl e \<Rightarrow> Inl (TypedErr ''template_parse_error'' e)
            | Inr t \<Rightarrow> map_sum (TypedErr ''template_render_error'') (\<lambda>out. out) (run t (buildBindings i attempt))))
    \<and> (find (\<lambda>v. v \<notin> set (ok_names ts [''issue'', ''attempt''])) (used_roots ts) \<noteq> None \<longrightarrow>
       rn_template r = render ts \<longrightarrow> we_Render we = Render parse run \<longrightarrow>
       turns_of (fst (run_worker we r i attempt)) = [])"
proof (intro conjI impI)
  note eq = Render_render [OF assms, of parse run i attempt]
  show "Render parse run (render ts) i attempt =
      (case find (\<lambda>v. v \<notin> set (ok_names ts [''issue'', ''attempt''])) (used_roots ts) of
         Some v \<Rightarrow> Inl (TypedErr ''template_render_error'' (''unknown variable: '' @ v))
       | None \<Rightarrow>
           (case parse (render ts) of
              Inl e \<Rightarrow> Inl (TypedErr ''template_parse_error'' e)
            | Inr t \<Rightarrow> map_sum (TypedErr ''template_render_error'') (\<lambda>out. out) (run t (buildBindings i attempt))))"
    by (rule eq)
  assume "find (\<lambda>v. v \<notin> set (ok_names ts [''issue'', ''attempt''])) (used_roots ts) \<noteq> None"
    and r: "rn_template r = render ts" "we_Render we = Render parse run"
  then obtain e where "Render parse run (render ts) i attempt = Inl e"
    unfolding eq by (auto simp only: not_None_eq option.case)
  then show "turns_of (fst (run_worker we r i attempt)) = []"
    unfolding r [symmetric] by (rule prompt_error_no_turn)
qed

definition ex_ts :: "tok list" where
  "ex_ts = [TText ''Fix '', TOut [''issue'', ''title''] [(''truncate'', Some (ANum ''20''))],
     TFor ''l'' [''issue'', ''labels''], TOut [''l''] [], TEnd ''endfor'', TAssign ''st'' [''issue'', ''state''] [],
     TIf ''if'' [''st''] (Some ''Todo''), TOut [''user'', ''name''] [], TEnd ''endif'']"

lemma ex_ok: "list_all tok_ok ex_ts" "trim_space (render ex_ts) \<noteq> []"
proof -
  show ok: "list_all tok_ok ex_ts"
    by (simp add: ex_ts_def path_ok_def is_ident_def id_char_def id_start_def liquidKeywords_def is_digit_def literal_char_def re_dot_def prompt_chars)
  obtain r where r: "render ex_ts = CHR ''F'' # r" by (simp add: ex_ts_def render_def)
  have "segs (CHR ''F'' # r) = (70, ''F'') # segs r" by (simp add: segs.simps decode_rune_ascii)
  then show "trim_space (render ex_ts) \<noteq> []" unfolding r trim_space_Nil_iff by (simp add: space_rune_def)
qed

definition ex_render_env :: worker_env where
  "ex_render_env = \<lparr>we_Create = (\<lambda>_. Inr \<lparr>w_Path = ''/w/a'', w_Key = ''a'', w_CreatedNow = True\<rparr>),
     we_RunHook = (\<lambda>_ _. None), we_AssertCWD = (\<lambda>_ _. None), we_Render = Render (\<lambda>s. Inr s) (\<lambda>t b. Inr t),
     we_RunTurn = (\<lambda>_ _. ([], Inr None)), we_Refresh = (\<lambda>_ _. Inr [])\<rparr>"

definition ex_render_runner :: runner where
  "ex_render_runner = \<lparr>rn_template = render ex_ts, rn_promptOverride = False, rn_activeStates = [], rn_maxTurns = 3\<rparr>"

theorem Render_strict_witness:
  "Render (\<lambda>s. Inr s) (\<lambda>t b. Inr t) (render ex_ts) zero_issue None
     = (Inl (TypedErr ''template_render_error'' ''unknown variable: user'') :: go_error + string)
   \<and> turns_of (fst (run_worker ex_render_env ex_render_runner zero_issue None)) = []"
proof -
  have unknown: "find (\<lambda>v. v \<notin> set (ok_names ex_ts [''issue'', ''attempt''])) (used_roots ex_ts) = Some ''user''"
    by (simp add: used_roots_def ok_names_def ex_ts_def)
  have "rn_template ex_render_runner = render ex_ts" "we_Render ex_render_env = Render (\<lambda>s. Inr s) (\<lambda>t b. Inr t)"
    by (simp_all add: ex_render_runner_def ex_render_env_def)
  with Render_strict [OF ex_ok, of "\<lambda>s. Inr s" "\<lambda>t b. Inr t" zero_issue None ex_render_runner ex_render_env]
  show ?thesis by (simp add: unknown)
qed

end
