(* ===== verification/ErrorCodes.thy ===== *)
theory ErrorCodes
  imports LinearAPI ClaudeStream PromptRender Workflow
begin

text \<open>
  The stable error codes of the packages (the constant blocks of config.go, workflow/errors.go,
  prompt.go, tracker.go, claude/errors.go), and that every error a package returns carries one of
  the codes it declares: an operator who reads the text of an error finds a code in front.
\<close>

section \<open>The codes\<close>

definition config_codes :: "string list" where
  "config_codes = [''unsupported_tracker_kind'', ''missing_tracker_api_key'', ''missing_tracker_project_slug'',
     ''missing_claude_command'', ''invalid_config_value'', ''missing_prompt_file'']"

definition workflow_codes :: "string list" where
  "workflow_codes = [''missing_workflow_file'', ''workflow_parse_error'', ''workflow_front_matter_not_a_map'',
     ''template_parse_error'', ''template_render_error'']"

definition prompt_codes :: "string list" where
  "prompt_codes = [CodeTemplateParseError, CodeTemplateRenderError]"

definition tracker_codes :: "string list" where
  "tracker_codes = [''unsupported_tracker_kind'', ''missing_tracker_api_key'', ''missing_tracker_project_slug'',
     ''linear_api_request'', ''linear_api_status'', ''linear_graphql_errors'', ''linear_unknown_payload'',
     ''linear_missing_end_cursor'']"

definition claude_codes :: "string list" where
  "claude_codes = [''claude_not_found'', ''invalid_workspace_cwd'', ''response_timeout'', ''turn_timeout'', ''port_exit'',
     ''response_error'', ''turn_failed'', ''turn_cancelled'', ''turn_input_required'', ''stream_corruption'']"

definition coded :: "string list \<Rightarrow> go_error \<Rightarrow> bool" where
  "coded codes e = (case e of TypedErr c msg \<Rightarrow> c \<in> set codes | PlainErr msg \<Rightarrow> False)"

lemma coded_TypedErr [simp]: "coded codes (TypedErr c msg) \<longleftrightarrow> c \<in> set codes"
  by (simp add: coded_def)

lemma coded_mono: "coded cs e \<Longrightarrow> set cs \<subseteq> set ds \<Longrightarrow> coded ds e"
  by (auto simp: coded_def split: go_error.splits)

text \<open>The text of such an error starts with its code.\<close>

lemma coded_text: "coded codes e \<Longrightarrow> \<exists>c \<in> set codes. has_prefix (error_string e) c"
  by (cases e) (auto simp: coded_def has_prefix_iff)

section \<open>Configuration, workflow file and prompt\<close>

definition sections_codes :: "string list" where "sections_codes = [''invalid_config_value'', ''missing_prompt_file'']"

lemma parse_overrides_coded:
  "parse_overrides env dir m out = Inl e \<Longrightarrow> coded sections_codes e"
proof (induction env dir m out rule: parse_overrides.induct)
  case (2 env dir k sm m out)
  show ?case
  proof (cases "parse_override env dir sm")
    case (Inl e')
    with 2(2) have "parse_override env dir sm = Inl e" by simp
    then show ?thesis
      by (auto simp: parse_override_def validateEffort_def readPromptFile_def sections_codes_def Let_def
          split: option.splits sum.splits if_splits)
  next
    case (Inr ov)
    with 2 show ?thesis by simp
  qed
qed simp_all

lemma config_New_coded: "config_New env raw dir = Inl e \<Longrightarrow> coded sections_codes e"
  by (auto simp: config_New_def new_hooks_def new_agent_def new_claude_def validateEffort_def parseStateOverrides_def
      sections_codes_def Let_def dest!: parse_overrides_coded split: sum.splits option.splits if_splits gvalue.splits)

lemma ValidateDispatch_coded: "ValidateDispatch cfg = Some e \<Longrightarrow> coded config_codes e"
  by (auto simp: ValidateDispatch_def config_codes_def Let_def split: if_splits)

lemma workflow_Load_coded: "workflow_Load rf yaml p = Inl e \<Longrightarrow> coded workflow_codes e"
  by (auto simp: workflow_Load_def workflow_Parse_def workflow_codes_def Let_def
      split: sum.splits prod.splits option.splits if_splits)

lemma Render_coded: "Render parse run template i attempt = Inl e \<Longrightarrow> coded prompt_codes e"
  by (auto simp: Render_def prompt_codes_def CodeTemplateParseError_def CodeTemplateRenderError_def
      checkUnknownVariables_def Let_def split: option.splits sum.splits)

section \<open>The tracker\<close>

definition fetch_codes :: "string list" where
  "fetch_codes = [''linear_api_request'', ''linear_api_status'', ''linear_graphql_errors'', ''linear_unknown_payload'',
     ''linear_missing_end_cursor'']"

lemma linear_New_coded: "linear_New ep key slug sts n = Inl e \<Longrightarrow> coded tracker_codes e"
  by (auto simp: linear_New_def tracker_codes_def split: if_splits)

lemma linear_do_coded: "linear_do te c k req = Inl e \<Longrightarrow> coded fetch_codes e"
  by (auto simp: linear_do_def fetch_codes_def split: sum.splits prod.splits option.splits if_splits)

lemma paginateWith_coded:
  "paginateWith ask query vars k after all = Some r \<Longrightarrow>
     (\<And>k req e. ask k req = Inl e \<Longrightarrow> coded fetch_codes e) \<Longrightarrow> r = Inl e \<Longrightarrow> coded fetch_codes e"
proof (induction rule: paginateWith.raw_induct [rotated, consumes 1, case_names step])
  case (step loop ask query vars k after all r)
  from step(2-4) step(1) show ?case
    by (auto simp: fetch_codes_def Let_def split: sum.splits option.splits if_splits)
qed

text \<open>Every error of a fetch, of any of the three operations, has a code of the tracker.\<close>

theorem fetch_coded:
  assumes "r = FetchCandidateIssues (linear_do te c) c \<or> r = FetchIssuesByStates (linear_do te c) c sts
    \<or> r = FetchIssueStatesByIDs (linear_do te c) c ids" and "r = Some (Inl e)"
  shows "coded fetch_codes e" and "coded tracker_codes e"
proof -
  have "coded fetch_codes e" if "paginateWith (linear_do te c) query vars k after all = Some (Inl e)"
    for query vars k after all
    using paginateWith_coded [OF that] linear_do_coded by blast
  with assms show "coded fetch_codes e"
    by (auto simp: FetchCandidateIssues_def FetchIssuesByStates_def FetchIssueStatesByIDs_def paginateIssues_def
        split: if_splits)
  then show "coded tracker_codes e" by (rule coded_mono) (auto simp: fetch_codes_def tracker_codes_def)
qed

section \<open>The agent\<close>

text \<open>
  The codes a turn can end with. The others of the package are declared and never used: no turn
  reports an invalid working directory, an early exit of the process as such, or a request for
  input.
\<close>

definition turn_codes :: "string list" where
  "turn_codes = [''claude_not_found'', ''response_timeout'', ''turn_timeout'', ''response_error'', ''turn_failed'',
     ''turn_cancelled'', ''stream_corruption'']"

lemma handleEvent_coded: "hd_Outcome (handleEvent enc now pid turn sid started evt) = Some (Inl e) \<Longrightarrow> coded turn_codes e"
  by (auto simp: handleEvent_def turn_codes_def Let_def split: if_splits)

lemma consume_coded:
  "cs_Outcome (consume parse enc c pid turn sid started malformed saw xs) = Some (Inl e) \<Longrightarrow> coded turn_codes e"
proof (induction parse enc c pid turn sid started malformed saw xs rule: consume.induct)
  case (2 parse enc c pid turn sid started malformed saw now x xs)
  have codes: "coded turn_codes (TypedErr k m)" if "k \<in> set turn_codes" for k m using that by simp
  show ?case
  proof (cases x)
    case (SLine line)
    with 2 show ?thesis
      by (auto simp: stop_with_def turn_codes_def Let_def handleEvent_coded [unfolded turn_codes_def]
          split: if_splits sum.splits option.splits)
  qed (use 2 in \<open>auto simp: stop_with_def turn_codes_def Let_def split: if_splits\<close>)
qed simp

theorem turn_coded:
  "tu_Outcome (RunTurn spawn parse enc c s prompt) = Some (Inl e) \<Longrightarrow> coded turn_codes e"
  by (auto simp: RunTurn_def with_tail_def launch_failure_def Let_def turn_codes_def dest!: consume_coded
      split: sum.splits option.splits go_error.splits launch_error.splits)

lemma unused_codes:
  "set claude_codes - set turn_codes = {''invalid_workspace_cwd'', ''port_exit'', ''turn_input_required''}"
  "set turn_codes \<subseteq> set claude_codes"
  by (simp_all add: claude_codes_def turn_codes_def insert_Diff_if)

end
