(* ===== verification/Fetches.thy ===== *)
theory Fetches
  imports System TrackerClient
begin

text \<open>
  Which tracker calls a handler waits for. An \<^verbatim>\<open>env\<close> stands for the answers of the calls that have
  returned; the calls themselves are the fetches of package \<^verbatim>\<open>linear\<close>, which follow the
  tracker's pages without a bound and need not return. A handler that waits for such a call
  holds the loop: no turn of the loop takes place.
\<close>

section \<open>The calls\<close>

datatype fetch = FCandidates | FByStates "string list" | FByIDs "string list"

text \<open>What a call to the Linear client returns, if it does, and what the handlers take as its answer.\<close>

definition te_fetch :: "tracker_env \<Rightarrow> linear_client \<Rightarrow> fetch \<Rightarrow> issue list result option" where
  "te_fetch te c f = (case f of
     FCandidates \<Rightarrow> FetchCandidateIssues (linear_do te c) c
   | FByStates states \<Rightarrow> FetchIssuesByStates (linear_do te c) c states
   | FByIDs ids \<Rightarrow> FetchIssueStatesByIDs (linear_do te c) c ids)"

definition env_answer :: "env \<Rightarrow> linear_client \<Rightarrow> fetch \<Rightarrow> issue list result" where
  "env_answer env c f = (case f of
     FCandidates \<Rightarrow> e_candidates env c
   | FByStates states \<Rightarrow> e_by_states env c states
   | FByIDs ids \<Rightarrow> e_by_ids env c ids)"

text \<open>
  The calls of a handler: a tick refreshes the running issues (after stall detection) and, when
  the configuration is valid, asks for the candidates; a retry timer of a queued issue asks
  for the candidates. No other event calls the tracker.
\<close>

definition fetches :: "env \<Rightarrow> event \<Rightarrow> orch \<Rightarrow> fetch list" where
  "fetches env e ob = (case e of
     TickEvent \<Rightarrow>
       (let ids = map fst (filter (\<lambda>p. \<not> re_Terminating (snd p)) (running (stall_detection env ob)))
        in (if ids = [] then [] else [FByIDs ids])
           @ (if ValidateDispatch (o_cfg ob) = None then [FCandidates] else []))
   | RetryTimerFired iid \<Rightarrow> if map_has (retries ob) iid then [FCandidates] else []
   | _ \<Rightarrow> [])"

definition handler_returns :: "tracker_env \<Rightarrow> env \<Rightarrow> event \<Rightarrow> orch \<Rightarrow> bool" where
  "handler_returns te env e ob \<longleftrightarrow>
     (\<forall>f \<in> set (fetches env e ob). te_fetch te (o_tracker ob) f = Some (env_answer env (o_tracker ob) f))"

section \<open>The handlers ask nothing else\<close>

text \<open>Two environments that differ in the answers of the tracker only.\<close>

definition same_beside :: "env \<Rightarrow> env \<Rightarrow> bool" where
  "same_beside env env' \<longleftrightarrow> e_now env' = e_now env \<and> e_notifier env' = e_notifier env"

lemma same_frame:
  assumes "same_beside env env'"
  shows "notify env' ob = notify env ob" "dispatchIssue env' i att ob = dispatchIssue env i att ob"
    "scheduleRetry env' iid a ident url msg c ob = scheduleRetry env iid a ident url msg c ob"
    "stall_detection env' ob = stall_detection env ob" "release_claim env' iid ob = release_claim env iid ob"
    "buildSnapshot (e_now env') s = buildSnapshot (e_now env) s"
    "end_session env' iid e s = end_session env iid e s"
  using assms
  by (simp_all add: same_beside_def notify_def dispatchIssue_def new_entry_def scheduleRetry_def stall_detection_def
      stalled_def release_claim_def end_session_def retry_record_def cong: if_cong)

lemma same_dispatch_loop: "same_beside env env' \<Longrightarrow> dispatch_loop env' is ob = dispatch_loop env is ob"
  by (induction "is" arbitrary: ob) (simp_all add: same_frame)

lemma same_state_refresh:
  assumes "map fst (filter (\<lambda>p. \<not> re_Terminating (snd p)) (running ob)) \<noteq> [] \<longrightarrow>
    e_by_ids env' (o_tracker ob) (map fst (filter (\<lambda>p. \<not> re_Terminating (snd p)) (running ob)))
    = e_by_ids env (o_tracker ob) (map fst (filter (\<lambda>p. \<not> re_Terminating (snd p)) (running ob)))"
  shows "state_refresh env' ob = state_refresh env ob"
  using assms by (simp add: state_refresh_def Let_def split: sum.split)

lemma handle_asks_only_fetches:
  assumes "same_beside env env'"
    and "\<forall>f \<in> set (fetches env e ob). env_answer env' (o_tracker ob) f = env_answer env (o_tracker ob) f"
  shows "handle env' e ob = handle env e ob"
proof (cases e)
  case TickEvent
  note same = same_frame [OF assms(1)] same_dispatch_loop [OF assms(1)]
  have "o_tracker (stall_detection env ob) = o_tracker ob" by (simp add: stall_detection_def Let_def)
  then have "state_refresh env' (stall_detection env ob) = state_refresh env (stall_detection env ob)"
    using assms(2) TickEvent by (intro same_state_refresh) (auto simp: fetches_def Let_def env_answer_def)
  then have r: "reconcile env' ob = reconcile env ob" by (simp add: reconcile_def same)
  have "e_candidates env' (o_tracker ob) = e_candidates env (o_tracker ob)" if "ValidateDispatch (o_cfg ob) = None"
    using assms(2) TickEvent that by (simp add: fetches_def Let_def env_answer_def)
  then show ?thesis
    using TickEvent by (simp add: onTick_def Let_def r same split: option.split sum.split)
next
  case (RetryTimerFired iid)
  note same = same_frame [OF assms(1)]
  have "e_candidates env' (o_tracker ob) = e_candidates env (o_tracker ob)" if "map_get (retries ob) iid = Some r" for r
    using assms(2) RetryTimerFired gm.get_SomeD [OF that] by (simp add: fetches_def env_answer_def)
  then show ?thesis
    using RetryTimerFired by (simp add: onRetryTimer_def Let_def same split: option.split sum.split)
qed (use assms(1) in \<open>simp_all add: same_frame onWorkerExit_def Let_def cong: if_cong split: option.split\<close>)

section \<open>A tracker whose calls return\<close>

text \<open>The answers of one tracker whose calls all return, as an environment.\<close>

definition answers_of :: "tracker_env \<Rightarrow> env \<Rightarrow> env" where
  "answers_of te env = env\<lparr>
     e_candidates := \<lambda>c. the (te_fetch te c FCandidates),
     e_by_states := \<lambda>c states. the (te_fetch te c (FByStates states)),
     e_by_ids := \<lambda>c ids. the (te_fetch te c (FByIDs ids))\<rparr>"

text \<open>Whatever the tracker may answer (\<open>W\<close>), some answer comes, and every call returns.\<close>

definition answering :: "(tracker_env \<Rightarrow> bool) \<Rightarrow> bool" where
  "answering W \<longleftrightarrow> (\<exists>te. W te) \<and> (\<forall>te c f. W te \<longrightarrow> te_fetch te c f \<noteq> None)"

lemma answering_returns:
  assumes "answering W"
  obtains te env where "W te" "\<And>e ob. handler_returns te env e ob"
proof -
  fix env :: env
  from assms obtain te where te: "W te" "\<And>c f. te_fetch te c f \<noteq> None" by (auto simp: answering_def)
  have "te_fetch te c f = Some (env_answer (answers_of te env) c f)" for c f
    using te(2) [of c f] by (cases f) (auto simp: answers_of_def env_answer_def)
  then have "handler_returns te (answers_of te env) e ob" for e ob by (simp add: handler_returns_def)
  with te(1) show thesis by (rule that)
qed

text \<open>A tracker that never finishes the list of candidates: a tick of a valid configuration does not return.\<close>

definition never_lists :: "(tracker_env \<Rightarrow> bool) \<Rightarrow> linear_client \<Rightarrow> bool" where
  "never_lists W c \<longleftrightarrow> (\<forall>te. W te \<longrightarrow> FetchCandidateIssues (linear_do te c) c = None)"

lemma tick_held:
  "never_lists W (o_tracker ob) \<Longrightarrow> ValidateDispatch (o_cfg ob) = None \<Longrightarrow> W te \<Longrightarrow>
     \<not> handler_returns te env TickEvent ob"
  by (auto simp: handler_returns_def fetches_def never_lists_def te_fetch_def Let_def)

end
