(* ===== verification/Polling.thy ===== *)
theory Polling
  imports Fetches
begin

text \<open>
  The poll timer beside the loop: \<^verbatim>\<open>scheduleTick\<close> replaces the armed timer; a timer that fired
  has a goroutine that sends a tick when the channel has room. Whatever the handlers do, the
  next tick is always on its way, and the timer waits for the interval in force. A turn of the
  loop takes place when the tracker calls of its handler have returned; the possible behaviours
  of the tracker (\<open>W\<close>) are a parameter.
\<close>

section \<open>What a handler does to the timer\<close>

text \<open>The last timer armed by a list of effects; each one stops its predecessor.\<close>

fun last_arm :: "effect list \<Rightarrow> int option" where
  "last_arm [] = None"
| "last_arm (EArmTick d # out) = (case last_arm out of None \<Rightarrow> Some d | Some d' \<Rightarrow> Some d')"
| "last_arm (_ # out) = last_arm out"

lemma last_arm_append: "last_arm (xs @ ys) = (case last_arm ys of None \<Rightarrow> last_arm xs | Some d \<Rightarrow> Some d)"
  by (induction xs rule: last_arm.induct) (auto split: option.splits)

lemma last_arm_cancels [simp]: "last_arm (map (\<lambda>p. ECancel (f p)) xs) = None"
  by (induction xs) simp_all

text \<open>The part of the orchestrator the timer depends on. Most operations leave it as it is.\<close>

definition tick_view :: "orch \<Rightarrow> int option \<times> int" where
  "tick_view ob = (last_arm (o_out ob), rs_PollIntervalMs (o_state ob))"

lemma view_notify [simp]: "tick_view (notify env ob) = tick_view ob"
  by (simp add: notify_def tick_view_def last_arm_append)

lemma view_removeRetryTimer [simp]: "tick_view (removeRetryTimer iid ob) = tick_view ob"
  by (simp add: removeRetryTimer_def tick_view_def last_arm_append)

lemma view_dispatchIssue [simp]: "tick_view (dispatchIssue env issue att ob) = tick_view ob"
  using view_removeRetryTimer
  by (simp add: dispatchIssue_def Let_def tick_view_def last_arm_append removeRetryTimer_def)

lemma view_scheduleRetry [simp]: "tick_view (scheduleRetry env iid a ident url msg c ob) = tick_view ob"
  using view_removeRetryTimer [of iid ob]
  by (simp add: scheduleRetry_def Let_def tick_view_def last_arm_append)

lemma view_terminateRunning [simp]: "tick_view (terminateRunning iid c r ob) = tick_view ob"
  by (simp add: terminateRunning_def tick_view_def last_arm_append split: option.split)

lemma view_refresh_issue [simp]: "tick_view (refresh_issue issue ob) = tick_view ob"
  using view_terminateRunning
  by (simp add: refresh_issue_def split: option.split) (simp add: tick_view_def)

lemma view_refresh_all [simp]: "tick_view (fold refresh_issue issues ob) = tick_view ob"
  by (induction issues arbitrary: ob) simp_all

lemma view_reconcile [simp]: "tick_view (reconcile env ob) = tick_view ob"
proof -
  have "tick_view (stall_detection env ob) = tick_view ob" for ob
    by (simp add: stall_detection_def tick_view_def last_arm_append Let_def)
  moreover have "tick_view (state_refresh env ob) = tick_view ob" for ob
    by (simp add: state_refresh_def Let_def split: sum.split)
  ultimately show ?thesis by (simp add: reconcile_def)
qed

lemma view_dispatch_loop [simp]: "tick_view (dispatch_loop env issues ob) = tick_view ob"
  by (induction issues arbitrary: ob) simp_all

lemma view_scheduleTick [simp]: "tick_view (scheduleTick d ob) = (Some d, snd (tick_view ob))"
  by (simp add: scheduleTick_def tick_view_def last_arm_append)

lemma poll_interval_view: "poll_interval ob = duration_ms (snd (tick_view ob))"
  by (simp add: poll_interval_def tick_view_def)

lemma view_onTick: "tick_view (onTick env ob) = (Some (duration_ms (snd (tick_view ob))), snd (tick_view ob))"
  by (simp add: onTick_def Let_def poll_interval_view split: option.split sum.split)

lemma view_onAgentUpdate: "tick_view (onAgentUpdate iid m ob) = tick_view ob"
  by (simp add: onAgentUpdate_def tick_view_def split: option.split)

lemma view_on_state: "rs_PollIntervalMs (f (o_state ob)) = rs_PollIntervalMs (o_state ob) \<Longrightarrow> tick_view (on_state f ob) = tick_view ob"
  by (simp add: tick_view_def)

lemma view_emit: "last_arm [x] = None \<Longrightarrow> tick_view (emit x ob) = tick_view ob"
  by (simp add: tick_view_def last_arm_append)

lemma view_onWorkerExit: "tick_view (onWorkerExit env iid reason err ob) = tick_view ob"
  by (simp add: onWorkerExit_def Let_def split: option.split)
    (simp add: tick_view_def end_session_def last_arm_append)

lemma view_onRetryTimer: "tick_view (onRetryTimer env iid ob) = tick_view ob"
  by (simp add: onRetryTimer_def release_claim_def Let_def split: option.split sum.split)
    (simp add: tick_view_def)

text \<open>Only a tick, a refresh and an accepted reload arm the timer.\<close>

lemma view_handle:
  "tick_view (handle env e ob) =
    (case e of
       TickEvent \<Rightarrow> (Some (duration_ms (snd (tick_view ob))), snd (tick_view ob))
     | RefreshRequest \<Rightarrow> (Some 0, snd (tick_view ob))
     | ReloadConfig cfg tmpl \<Rightarrow>
         (case tracker_factory cfg of
            Inl _ \<Rightarrow> tick_view ob
          | Inr _ \<Rightarrow> (Some (duration_ms (c_PollingIntervalMs cfg)), c_PollingIntervalMs cfg))
     | _ \<Rightarrow> tick_view ob)"
proof (cases e)
  case (ReloadConfig cfg tmpl)
  then show ?thesis
    by (simp add: onReload_def Let_def poll_interval_view split: sum.split) (simp add: tick_view_def)
qed (simp_all add: view_onTick view_onAgentUpdate view_onWorkerExit view_onRetryTimer view_emit)

section \<open>The timer beside the system\<close>

text \<open>
  \<^verbatim>\<open>tickTimer\<close> is armed or not; the goroutines of timers that fired and have not sent their
  tick yet are counted. A turn of the loop replaces the timer when the handler arms it.
\<close>

record poller =
  pl_sys :: sys
  pl_armed :: "int option"
  pl_firing :: nat

definition rearm :: "int option \<Rightarrow> int option \<Rightarrow> int option" where
  "rearm old new = (case new of None \<Rightarrow> old | Some d \<Rightarrow> Some d)"

definition poll_turn :: "env \<Rightarrow> event \<Rightarrow> event list \<Rightarrow> poller \<Rightarrow> poller" where
  "poll_turn env e q p =
     (let s = process env e q (pl_sys p)
      in p\<lparr>pl_sys := s, pl_armed := rearm (pl_armed p) (last_arm (o_out (y_orch s)))\<rparr>)"

abbreviation events :: "poller \<Rightarrow> event list" where
  "events p \<equiv> y_queue (pl_sys p)"

inductive poll_step :: "(tracker_env \<Rightarrow> bool) \<Rightarrow> poller \<Rightarrow> poller \<Rightarrow> bool" for W where
  turn: "events p = e # q \<Longrightarrow> W te \<Longrightarrow> handler_returns te env e (y_orch (pl_sys p)) \<Longrightarrow>
     poll_step W p (poll_turn env e q p)"
| fires: "pl_armed p = Some d \<Longrightarrow> poll_step W p (p\<lparr>pl_armed := None, pl_firing := Suc (pl_firing p)\<rparr>)"
| sends: "pl_firing p = Suc n \<Longrightarrow> length (events p) < queue_cap \<Longrightarrow>
     poll_step W p (p\<lparr>pl_sys := post TickEvent (pl_sys p), pl_firing := n\<rparr>)"
| beside: "sys_step (pl_sys p) t \<Longrightarrow> y_queue t = events p @ [e] \<Longrightarrow> e \<noteq> TickEvent \<Longrightarrow>
     poll_step W p (p\<lparr>pl_sys := t\<rparr>)"

inductive polling :: "(tracker_env \<Rightarrow> bool) \<Rightarrow> poller \<Rightarrow> bool" for W where
  start: "orch_New cfg tmpl = Inr ob \<Longrightarrow> run_startup env ob = Inr ob' \<Longrightarrow>
     polling W \<lparr>pl_sys = \<lparr>y_orch = ob', y_queue = [], y_workers = {#}, y_timers = {#}\<rparr>,
              pl_armed = last_arm (o_out ob'), pl_firing = 0\<rparr>"
| step: "polling W p \<Longrightarrow> poll_step W p t \<Longrightarrow> polling W t"

text \<open>The system of the poller is the one of the reachability above.\<close>

lemma poll_step_sys: "poll_step W p t \<Longrightarrow> pl_sys t = pl_sys p \<or> sys_step (pl_sys p) (pl_sys t)"
  by (induction rule: poll_step.induct)
    (auto simp: poll_turn_def Let_def outside_event_def intro: sys_step.loop_turn sys_step.outside)

lemma polling_reachable: "polling W p \<Longrightarrow> reachable (pl_sys p)"
proof (induction rule: polling.induct)
  case (start cfg tmpl ob env ob')
  then show ?case by (simp add: reachable.start)
next
  case (step p t)
  then show ?case using poll_step_sys [of W p t] by (auto intro: reachable.step)
qed

section \<open>The next tick is on its way\<close>

definition tick_due :: "poller \<Rightarrow> bool" where
  "tick_due p \<longleftrightarrow> pl_armed p \<noteq> None \<or> pl_firing p \<noteq> 0 \<or> TickEvent \<in> set (events p)"

text \<open>The armed timer waits for nothing or for the interval in force.\<close>

definition delay_ok :: "poller \<Rightarrow> bool" where
  "delay_ok p \<longleftrightarrow> (case pl_armed p of
     None \<Rightarrow> True | Some d \<Rightarrow> d \<in> {0, poll_interval (y_orch (pl_sys p))})"

lemma poll_turn_armed:
  "pl_armed (poll_turn env e q p) =
     (case e of
        TickEvent \<Rightarrow> Some (poll_interval (y_orch (pl_sys p)))
      | RefreshRequest \<Rightarrow> Some 0
      | ReloadConfig cfg tmpl \<Rightarrow>
          (case tracker_factory cfg of
             Inl _ \<Rightarrow> pl_armed p | Inr _ \<Rightarrow> Some (duration_ms (c_PollingIntervalMs cfg)))
      | _ \<Rightarrow> pl_armed p)"
proof -
  have "tick_view ((y_orch (pl_sys p))\<lparr>o_out := []\<rparr>) = (None, rs_PollIntervalMs (o_state (y_orch (pl_sys p))))"
    by (simp add: tick_view_def)
  moreover have "last_arm (o_out ob) = fst (tick_view ob)" for ob by (simp add: tick_view_def)
  ultimately show ?thesis
    by (simp add: poll_turn_def process_def Let_def view_handle rearm_def poll_interval_def
        split: event.split sum.split)
qed

lemma poll_turn_interval:
  "poll_interval (y_orch (pl_sys (poll_turn env e q p))) =
     (case e of
        ReloadConfig cfg tmpl \<Rightarrow>
          (case tracker_factory cfg of
             Inl _ \<Rightarrow> poll_interval (y_orch (pl_sys p)) | Inr _ \<Rightarrow> duration_ms (c_PollingIntervalMs cfg))
      | _ \<Rightarrow> poll_interval (y_orch (pl_sys p)))"
proof -
  have "snd (tick_view (ob\<lparr>o_out := out\<rparr>)) = snd (tick_view ob)" for ob out by (simp add: tick_view_def)
  then show ?thesis
    by (simp add: poll_turn_def process_def Let_def poll_interval_view view_handle
        split: event.split sum.split)
qed

lemma poll_turn_events [simp]: "events (poll_turn env e q p) = q" "pl_firing (poll_turn env e q p) = pl_firing p"
  by (simp_all add: poll_turn_def process_def Let_def)

lemma tick_due_poll_turn: "tick_due p \<Longrightarrow> events p = e # q \<Longrightarrow> tick_due (poll_turn env e q p)"
  by (cases e) (auto simp: tick_due_def poll_turn_armed split: sum.split)

lemma delay_ok_poll_turn: "delay_ok p \<Longrightarrow> delay_ok (poll_turn env e q p)"
  by (cases e) (auto simp: delay_ok_def poll_turn_armed poll_turn_interval split: sum.splits option.splits)

lemma beside_orch: "sys_step s t \<Longrightarrow> y_queue t = y_queue s @ [e] \<Longrightarrow> y_orch t = y_orch s"
  by (induction rule: sys_step.induct) (auto simp: post_def process_def Let_def)

lemma poll_step_inv: "poll_step W p t \<Longrightarrow> tick_due p \<and> delay_ok p \<Longrightarrow> tick_due t \<and> delay_ok t"
proof (induction rule: poll_step.induct)
  case (turn p e q te env)
  then show ?case by (simp add: tick_due_poll_turn delay_ok_poll_turn)
next
  case (beside p t e)
  then show ?case using beside_orch [OF beside(1,2)] by (auto simp: tick_due_def delay_ok_def split: option.split)
qed (auto simp: tick_due_def delay_ok_def post_def split: option.split)

lemma startup_arms: "run_startup env ob = Inr ob' \<Longrightarrow> last_arm (o_out ob') = Some 0"
  by (auto simp: run_startup_def scheduleTick_def last_arm_append split: option.splits)

lemma polling_inv: "polling W p \<Longrightarrow> tick_due p \<and> delay_ok p"
proof (induction rule: polling.induct)
  case (start cfg tmpl ob env ob')
  then show ?case by (simp add: startup_arms tick_due_def delay_ok_def)
next
  case (step p t)
  show ?case by (rule poll_step_inv [OF step(2,3)])
qed

section \<open>The loop reaches it\<close>

definition at_tick :: "poller \<Rightarrow> bool" where
  "at_tick p \<longleftrightarrow> (case events p of [] \<Rightarrow> False | e # _ \<Rightarrow> e = TickEvent)"

text \<open>When every call returns, the loop always takes its next turn.\<close>

lemma turn_taken:
  assumes "answering W" and "events p = e # q"
  shows "\<exists>env. poll_step W p (poll_turn env e q p)"
proof -
  obtain te env where "W te" "\<And>e ob. handler_returns te env e ob"
    using answering_returns [OF assms(1)] by blast
  then show ?thesis using poll_step.turn [OF assms(2)] by blast
qed

lemma queued_tick_reached:
  assumes "answering W"
  shows "TickEvent \<in> set (events p) \<Longrightarrow> \<exists>t. (poll_step W)\<^sup>*\<^sup>* p t \<and> at_tick t"
proof (induction "events p" arbitrary: p)
  case (Cons e q)
  show ?case
  proof (cases "e = TickEvent")
    case True
    with Cons(2) [symmetric] have "at_tick p" by (simp add: at_tick_def)
    then show ?thesis by blast
  next
    case False
    obtain env where step: "poll_step W p (poll_turn env e q p)"
      using turn_taken [OF assms Cons(2) [symmetric]] by blast
    from False Cons(2) [symmetric] Cons(3) have "TickEvent \<in> set (events (poll_turn env e q p))" by simp
    then obtain t where "(poll_step W)\<^sup>*\<^sup>* (poll_turn env e q p) t" "at_tick t"
      using Cons(1) [of "poll_turn env e q p"] by auto
    with step show ?thesis by (meson converse_rtranclp_into_rtranclp)
  qed
qed simp

lemma firing_sent:
  assumes "answering W"
  shows "pl_firing p \<noteq> 0 \<Longrightarrow> \<exists>t. (poll_step W)\<^sup>*\<^sup>* p t \<and> TickEvent \<in> set (events t)"
proof (induction "events p" arbitrary: p)
  case Nil
  then obtain n where n: "pl_firing p = Suc n" by (cases "pl_firing p") auto
  let ?t = "p\<lparr>pl_sys := post TickEvent (pl_sys p), pl_firing := n\<rparr>"
  from n Nil(1) [symmetric] have "poll_step W p ?t" by (intro poll_step.sends) (auto simp: queue_cap_def)
  moreover have "TickEvent \<in> set (events ?t)" by (simp add: post_def)
  ultimately show ?case by blast
next
  case (Cons e q)
  obtain env where "poll_step W p (poll_turn env e q p)"
    using turn_taken [OF assms Cons(2) [symmetric]] by blast
  moreover obtain t where "(poll_step W)\<^sup>*\<^sup>* (poll_turn env e q p) t" "TickEvent \<in> set (events t)"
    using Cons(1) [of "poll_turn env e q p"] Cons(3) by auto
  ultimately show ?case by (meson converse_rtranclp_into_rtranclp)
qed

lemma due_tick_reached:
  assumes "answering W" and "tick_due p"
  shows "\<exists>t. (poll_step W)\<^sup>*\<^sup>* p t \<and> at_tick t"
proof -
  have "\<exists>t. (poll_step W)\<^sup>*\<^sup>* p t \<and> TickEvent \<in> set (events t)"
  proof (cases "pl_armed p")
    case None
    with assms(2) show ?thesis using firing_sent [OF assms(1), of p] by (auto simp: tick_due_def)
  next
    case (Some d)
    let ?p = "p\<lparr>pl_armed := None, pl_firing := Suc (pl_firing p)\<rparr>"
    have "poll_step W p ?p" using Some by (rule poll_step.fires)
    moreover obtain t where "(poll_step W)\<^sup>*\<^sup>* ?p t" "TickEvent \<in> set (events t)"
      using firing_sent [OF assms(1), of ?p] by auto
    ultimately show ?thesis by (meson converse_rtranclp_into_rtranclp)
  qed
  then show ?thesis using queued_tick_reached [OF assms(1)] by (meson rtranclp_trans)
qed

section \<open>The loop held by the tracker\<close>

text \<open>
  While the tracker never finishes the list of candidates, a tick does not end: the timers, the
  workers and the callers go on, but the loop takes no turn any more and its state stays.
\<close>

lemma held_step:
  assumes "poll_step W p t" and "at_tick p" and "ValidateDispatch (o_cfg (y_orch (pl_sys p))) = None"
    and "never_lists W (o_tracker (y_orch (pl_sys p)))"
  shows "y_orch (pl_sys t) = y_orch (pl_sys p) \<and> at_tick t"
  using assms(1)
proof cases
  case (turn e q te env)
  then show ?thesis using assms(2-4) tick_held by (auto simp: at_tick_def)
next
  case (beside s e)
  then show ?thesis using assms(2) beside_orch [OF beside(2,3)] by (auto simp: at_tick_def split: list.splits)
qed (use assms(2) in \<open>auto simp: at_tick_def post_def split: list.splits\<close>)

lemma held_for_ever:
  assumes "(poll_step W)\<^sup>*\<^sup>* p t" and "at_tick p" and "ValidateDispatch (o_cfg (y_orch (pl_sys p))) = None"
    and "never_lists W (o_tracker (y_orch (pl_sys p)))"
  shows "y_orch (pl_sys t) = y_orch (pl_sys p) \<and> at_tick t"
  using assms(1)
proof (induction rule: rtranclp_induct)
  case (step s t)
  then show ?case using held_step [OF step(2)] assms(3,4) by simp
qed (use assms(2) in simp)

end
