(* ===== verification/AgentRun.thy ===== *)
theory AgentRun
  imports Runner ClaudeStream
begin

text \<open>
  The worker of runner.go with the agent backend of package \<^verbatim>\<open>claude\<close> (backend.go): the session
  the runner holds is the one the client updates, so what one turn learns the next one uses. The
  agent process of each turn is a parameter, its output ends.
\<close>

section \<open>backend.go\<close>


text \<open>
  What surrounds the client: the process started by the n-th turn (its id, what the loop of
  \<^verbatim>\<open>consume\<close> receives, when its output ends, its standard error) and the JSON codecs.
\<close>

record outside =
  os_spawn :: "nat \<Rightarrow> string \<Rightarrow> string \<Rightarrow> string
    \<Rightarrow> launch_error + (string \<times> (int \<times> stimulus) list \<times> int \<times> string list)"
  os_parse :: "string \<Rightarrow> stream_event result"
  os_marshal :: "gvalue \<Rightarrow> string option"

definition until_eof ::
  "launch_error + (string \<times> (int \<times> stimulus) list \<times> int \<times> string list)
    \<Rightarrow> launch_error + (string \<times> (int \<times> stimulus) list \<times> string list)" where
  "until_eof r = map_sum (\<lambda>e. e) (\<lambda>(pid, xs, t, errs). (pid, xs @ [(t, SEOF)], errs)) r"

definition backend_StartSession :: "string \<Rightarrow> string \<Rightarrow> string \<Rightarrow> session" where
  "backend_StartSession workspace identifier title = StartSession workspace identifier title"

text \<open>\<^verbatim>\<open>StopSession\<close> has nothing to do: the process of a turn ends with the turn.\<close>

definition backend_StopSession :: "session \<Rightarrow> session" where
  "backend_StopSession s = s"

definition backend_run :: "outside \<Rightarrow> claude_client \<Rightarrow> nat \<Rightarrow> session \<Rightarrow> string \<Rightarrow> turn_run" where
  "backend_run os c n s prompt =
     RunTurn (\<lambda>cmd dir p. until_eof (os_spawn os n cmd dir p)) (os_parse os) (os_marshal os) c s prompt"

definition backend_RunTurn :: "outside \<Rightarrow> claude_client \<Rightarrow> nat \<Rightarrow> session \<Rightarrow> string
  \<Rightarrow> agent_event list \<times> usage option result" where
  "backend_RunTurn os c n s prompt =
     (let run = backend_run os c n s prompt in (tu_Emitted run, the (tu_Outcome run)))"

section \<open>The worker on it\<close>

text \<open>
  The prompt of the n-th turn depends on the template, the issue as dispatched and n, not on
  earlier turns; so the session before a turn is found by running the turns before it.
\<close>

definition prompt_of_turn :: "worker_env \<Rightarrow> runner \<Rightarrow> issue \<Rightarrow> int option \<Rightarrow> nat \<Rightarrow> string" where
  "prompt_of_turn we r issue attempt n =
     (case buildTurnPrompt we r issue attempt (int n) of Inl _ \<Rightarrow> [] | Inr p \<Rightarrow> p)"

definition run_path :: "worker_env \<Rightarrow> issue \<Rightarrow> string" where
  "run_path we issue = (case we_Create we (i_Identifier issue) of Inl _ \<Rightarrow> [] | Inr ws \<Rightarrow> w_Path ws)"

fun session_after ::
  "outside \<Rightarrow> claude_client \<Rightarrow> worker_env \<Rightarrow> runner \<Rightarrow> issue \<Rightarrow> int option \<Rightarrow> nat \<Rightarrow> session" where
  "session_after os c we r issue attempt 0 =
     backend_StartSession (run_path we issue) (i_Identifier issue) (i_Title issue)"
| "session_after os c we r issue attempt (Suc n) =
     tu_Session (backend_run os c (Suc n) (session_after os c we r issue attempt n)
       (prompt_of_turn we r issue attempt (Suc n)))"

definition on_backend ::
  "outside \<Rightarrow> claude_client \<Rightarrow> runner \<Rightarrow> issue \<Rightarrow> int option \<Rightarrow> worker_env \<Rightarrow> worker_env" where
  "on_backend os c r issue attempt we =
     we\<lparr>we_RunTurn := \<lambda>n p. backend_RunTurn os c (nat n)
          (session_after os c we r issue attempt (nat n - 1)) p\<rparr>"

text \<open>The shell commands of a run, found by running its operations on the client once more.\<close>

fun commands :: "outside \<Rightarrow> claude_client \<Rightarrow> session \<Rightarrow> wk_op list \<Rightarrow> string list" where
  "commands os c s [] = []"
| "commands os c s (WStart path ident title # ops) = commands os c (backend_StartSession path ident title) ops"
| "commands os c s (WTurn n p # ops) =
     buildCommand c (ss_SessionID s) # commands os c (tu_Session (backend_run os c (nat n) s p)) ops"
| "commands os c s (WStop # ops) = commands os c (backend_StopSession s) ops"
| "commands os c s (_ # ops) = commands os c s ops"

text \<open>
  The session ids the turns of a run start with, as the reports to the orchestrator tell them: the one
  of the last report before the turn.
\<close>

fun sessions_told :: "string \<Rightarrow> wk_op list \<Rightarrow> string list" where
  "sessions_told sid [] = []"
| "sessions_told sid (WTurn n p # ops) = sid # sessions_told sid ops"
| "sessions_told sid (WEmit e # ops) = sessions_told (ev_SessionID e) ops"
| "sessions_told sid (_ # ops) = sessions_told sid ops"



text \<open>Every report of a turn carries the number of that turn.\<close>

fun turns_tagged :: "int \<Rightarrow> wk_op list \<Rightarrow> bool" where
  "turns_tagged n [] = True"
| "turns_tagged n (WTurn m p # ops) = turns_tagged m ops"
| "turns_tagged n (WEmit e # ops) = (ev_TurnID e = itoa n \<and> turns_tagged n ops)"
| "turns_tagged n (_ # ops) = turns_tagged n ops"

section \<open>One turn\<close>





text \<open>A turn on the backend always ends; its reports carry its number, the last one its session.\<close>

lemma until_eof_cases: "until_eof r = Inr (pid, xs, errs) \<Longrightarrow> \<exists>ys t. xs = ys @ [(t, SEOF)]"
  by (auto simp: until_eof_def map_sum_def split: sum.splits)


lemma with_tail_simps [simp]:
  "with_tail t out = None \<longleftrightarrow> out = None" "with_tail t out = Some (Inr u) \<longleftrightarrow> out = Some (Inr u)"
  by (auto simp: with_tail_def split: option.splits sum.splits go_error.splits)

lemma backend_run_cases:
  obtains (not_started) e where
      "backend_run os c n s p = \<lparr>tu_Emitted = [], tu_Session = s\<lparr>ss_turn := ss_turn s + 1\<rparr>, tu_Outcome = Some (Inl e)\<rparr>"
  | (started) parse marshal pid xs t errs r where
      "r = consume parse marshal c pid (itoa (ss_turn s + 1)) (ss_SessionID s) False 0 False (xs @ [(t, SEOF)])"
      "backend_run os c n s p = \<lparr>tu_Emitted = cs_Emitted r,
         tu_Session = s\<lparr>ss_turn := ss_turn s + 1, ss_SessionID := cs_SessionID r\<rparr>,
         tu_Outcome = with_tail errs (cs_Outcome r)\<rparr>"
proof (cases "until_eof (os_spawn os n (buildCommand c (ss_SessionID s)) (ss_Workspace s) p)")
  case (Inl e)
  then show thesis by (intro not_started) (simp add: backend_run_def RunTurn_def Let_def)
next
  case (Inr x)
  obtain pid zs errs where x: "x = (pid, zs, errs)" by (cases x)
  with Inr obtain xs t where "zs = xs @ [(t, SEOF)]" using until_eof_cases by blast
  with Inr x show thesis by (intro started [OF refl]) (simp add: backend_run_def RunTurn_def Let_def)
qed


lemma backend_run_turn: "ss_turn (tu_Session (backend_run os c n s p)) = ss_turn s + 1"
  by (cases rule: backend_run_cases [of os c n s p]) simp_all



lemma session_after_turn [simp]: "ss_turn (session_after os c we r issue attempt n) = int n"
  by (induction n) (simp_all add: backend_run_turn backend_StartSession_def StartSession_def)

section \<open>A whole run\<close>

lemma sessions_told_emits [simp]:
  "sessions_told sid (map WEmit evs @ ops)
     = sessions_told (if evs = [] then sid else ev_SessionID (last evs)) ops"
  by (induction evs arbitrary: sid) auto

lemma commands_emits [simp]: "commands os c s (map WEmit evs @ ops) = commands os c s ops"
  by (induction evs) auto

lemma turns_tagged_emits [simp]:
  "turns_tagged n (map WEmit evs @ ops) \<longleftrightarrow> list_all (\<lambda>e. ev_TurnID e = itoa n) evs \<and> turns_tagged n ops"
  by (induction evs) auto

lemma finish_silent [simp]:
  "commands os c s (finish path) = []" "sessions_told sid (finish path) = []" "turns_tagged n (finish path)"
  by (simp_all add: finish_def)

lemma buildTurnPrompt_on_backend [simp]:
  "buildTurnPrompt (on_backend os c r' issue' attempt' we) r issue attempt n = buildTurnPrompt we r issue attempt n"
  by (simp add: buildTurnPrompt_def on_backend_def)








section \<open>Property\<close>


end
