(* ===== verification/Status.thy ===== *)
theory Status
  imports Dashboard
begin

text \<open>
  Package \<^verbatim>\<open>status\<close> (status.go): the terminal surface. \<open>status_run\<close> is what it writes for the
  answers its ticks get; the verb %v of the rate limits is a parameter.
\<close>

section \<open>Formatting\<close>

text \<open>The verb %-12s counts runes.\<close>

definition pad_right :: "nat \<Rightarrow> string \<Rightarrow> string" where
  "pad_right w s = s @ replicate (w - length (runes s)) (CHR '' '')"

text \<open>
  \<^verbatim>\<open>Sub\<close> saturates, \<^verbatim>\<open>Truncate\<close> rounds towards zero; the text of a duration of whole seconds.
\<close>

definition time_sub :: "int \<Rightarrow> int \<Rightarrow> int" where
  "time_sub t u = max min_int64 (min max_int64 (t - u))"

definition whole_seconds :: "int \<Rightarrow> int" where
  "whole_seconds d = (if d < 0 then - (- d div 1000000000) else d div 1000000000)"

definition duration_text :: "int \<Rightarrow> string" where
  "duration_text secs =
     (let u = \<bar>secs\<bar>
      in (if secs < 0 then ''-'' else [])
         @ (if 3600 \<le> u then itoa (u div 3600) @ ''h'' else [])
         @ (if 60 \<le> u then itoa (u div 60 mod 60) @ ''m'' else [])
         @ itoa (u mod 60) @ ''s'')"

definition rule :: string where "rule = [CHR 0xE2, CHR 0x94, CHR 0x80, CHR 0xE2, CHR 0x94, CHR 0x80]"

definition end_line :: string where "end_line = [CHR 0x0A]"

section \<open>status.go\<close>

record surface =
  su_interval :: int
  su_show :: "gvalue \<Rightarrow> string"

definition status_New :: "int \<Rightarrow> (gvalue \<Rightarrow> string) \<Rightarrow> surface" where
  "status_New interval verb =
     \<lparr>su_interval = (if interval \<le> 0 then 5 * 1000000000 else interval), su_show = verb\<rparr>"

definition running_line :: "running_row \<Rightarrow> string" where
  "running_line r =
     ''  '' @ pad_right 12 (rr_IssueIdentifier r) @ '' state='' @ pad_right 12 (rr_State r)
     @ '' turns='' @ itoa (rr_TurnCount r) @ '' session='' @ rr_SessionID r
     @ '' tokens='' @ itoa (rr_TotalTokens r) @ end_line"

definition retry_line :: "int \<Rightarrow> retry_row \<Rightarrow> string" where
  "retry_line now r =
     (let due = time_sub (ry_DueAtMs r * 1000000) now;
          reason = (case ry_Error r of None \<Rightarrow> [] | Some e \<Rightarrow> e)
      in ''  '' @ pad_right 12 (ry_IssueIdentifier r) @ '' attempt='' @ itoa (ry_Attempt r)
         @ '' due_in='' @ duration_text (whole_seconds due) @ '' '' @ reason @ end_line)"

definition status_Render :: "surface \<Rightarrow> int \<Rightarrow> snapshot \<Rightarrow> string" where
  "status_Render s now snap =
     rule @ '' Symphony status @ '' @ format_time (sn_GeneratedAt snap) @ '' '' @ rule @ end_line
     @ ''running='' @ itoa (sn_CountRunning snap) @ '' retrying='' @ itoa (sn_CountRetrying snap)
     @ '' tokens='' @ itoa (tt_TotalTokens (sn_ClaudeTotals snap))
     @ '' seconds_running='' @ fixed1 (tt_SecondsRunning (sn_ClaudeTotals snap)) @ end_line
     @ (if sn_Running snap \<noteq> [] then ''RUNNING:'' @ end_line @ concat (map running_line (sn_Running snap)) else [])
     @ (if sn_Retrying snap \<noteq> []
        then ''RETRYING:'' @ end_line @ concat (map (retry_line now) (sn_Retrying snap)) else [])
     @ (if sn_RateLimits snap \<noteq> VNil then ''rate_limits='' @ su_show s (sn_RateLimits snap) @ end_line else [])"

text \<open>\<^verbatim>\<open>Run\<close>, on the time and the answer of each tick until the context ends.\<close>

fun status_run :: "surface \<Rightarrow> (int \<times> snapshot result) list \<Rightarrow> string" where
  "status_run s [] = []"
| "status_run s ((now, answer) # ticks) =
     (case answer of
        Inl e \<Rightarrow> status_run s ticks
      | Inr snap \<Rightarrow> status_Render s now snap @ status_run s ticks)"

section \<open>Lemmas\<close>

lemma status_New_interval: "0 < su_interval (status_New n verb)"
  by (simp add: status_New_def)

lemma pad_right_cases:
  "pad_right w s = s \<or> (\<exists>k. pad_right w s = s @ replicate k (CHR '' '') \<and> length (runes s) + k = w)"
  by (cases "w \<le> length (runes s)") (auto simp: pad_right_def)

text \<open>What is due in less than a second, and what is overdue, never shows as later than it is.\<close>

lemma whole_seconds_between:
  "\<bar>whole_seconds d\<bar> * 1000000000 \<le> \<bar>d\<bar>" "\<bar>d\<bar> < (\<bar>whole_seconds d\<bar> + 1) * 1000000000"
  by (auto simp: whole_seconds_def abs_if)

text \<open>The three numbers of a duration are its hours, minutes and seconds.\<close>

lemma duration_parts:
  fixes u :: int
  assumes "0 \<le> u"
  shows "u div 3600 * 3600 + u div 60 mod 60 * 60 + u mod 60 = u" "u < 60 \<Longrightarrow> u div 60 mod 60 = 0" "u < 3600 \<Longrightarrow> u div 3600 = 0"
proof -
  have "u div 60 div 60 = u div 3600" by (simp add: zdiv_zmult2_eq [symmetric])
  then show "u div 3600 * 3600 + u div 60 mod 60 * 60 + u mod 60 = u"
    using div_mult_mod_eq [of u 60] div_mult_mod_eq [of "u div 60" 60] by linarith
qed (use assms in simp_all)

end
