(* ===== verification/Spec2Isabelle.thy ===== *)
theory Spec2Isabelle
  imports SystemBounds TrackerClient Workers Runner GraphQL Workflow LinearAPI ClaudeStream HttpMux ApiText Mcp Startup StreamLine LinearWire ErrorCodes PromptRender Polling AgentRun Status
begin

text \<open>
  Symphony watches an issue tracker and keeps a coding agent working on every eligible issue. This
  is a shallow embedding of its Go code (src/cmd, src/internal) with the theorems that make it
  correct; the theories are listed with the files they model, bottom up.

  The parts and how they meet. \<^verbatim>\<open>main.run\<close> loads WORKFLOW.md (\<^verbatim>\<open>workflow\<close>), builds the
  configuration (\<^verbatim>\<open>config\<close>) and starts the event loop (\<^verbatim>\<open>orchestrator\<close>), the file watcher
  and the HTTP server. The loop alone owns the runtime state; it handles one event at a time from a
  channel of 256 places: ticks, reports and exits of workers, retry timers, reloads, requests for a
  refresh or a snapshot. A tick reconciles the running issues with the tracker (\<^verbatim>\<open>tracker/linear\<close>)
  and dispatches new ones; each gets a worker (\<^verbatim>\<open>agent\<close>) that creates a workspace
  (\<^verbatim>\<open>workspace\<close>), renders the prompt (\<^verbatim>\<open>prompt\<close>) and runs turns of the agent process
  (\<^verbatim>\<open>agent/claude\<close>). The agent may query the tracker through an MCP server
  (\<^verbatim>\<open>symphony-lineargql-mcp\<close>, \<^verbatim>\<open>tools/lineargql\<close>).

  Foundations. \<open>Prelude\<close>: results, errors, 64-bit integers, Go maps as association lists with
  distinct keys (their laws are the locale \<open>map_laws\<close>; the order of the list is the order of one
  range over the map), stable sorting. \<open>GoStrings\<close>: bytes, runes and the functions of
  \<^verbatim>\<open>strings\<close> and \<^verbatim>\<open>strconv\<close>. \<open>Runes\<close>: facts of UTF-8. \<open>Paths\<close>: path/filepath. \<open>Clock\<close> and
  \<open>Calendar\<close>: reading and writing RFC 3339. \<open>Regex\<close>: the part of regexp the prompt check uses.
  \<open>Flags\<close>: the command line.

  JSON, as encoding/json reads and writes it. \<open>Json\<close>: syntax trees, their text and the parser; what
  is printed is parsed again, and the parser's fuel is enough. \<open>JsonStrings\<close>: escaping
  and unquoting of strings; a string comes back as its valid UTF-8. \<open>Floats\<close>: the text of a float64
  and the double of a number. \<open>JsonValues\<close>: documents, values of type any, raw
  messages. \<open>JsonStructs\<close>: the fields of structs.

  Data and configuration. \<open>Domain\<close>: domain.go, event.go, \<^verbatim>\<open>Truncate\<close>. \<open>Config\<close>: coerce.go,
  config.go; an accepted configuration has usable limits. \<open>Workflow\<close>: workflow.go; a document is
  split into the front matter and the body it was written from.

  Outside services. \<open>Linear\<close>, \<open>LinearAPI\<close>: linear.go, normalize.go;
  pagination returns all pages in order, and returns exactly if some answer is final.
  \<open>LinearWire\<close>: the bytes of its requests and answers; the issues a service writes are those the client
  returns.
  \<open>Workspace\<close>: workspace.go; every change to the file system is below the root.
  \<open>GraphQL\<close>, \<open>Mcp\<close>: parse.go and tool.go of lineargql, and the server
  around them, from the bytes it reads to those it writes. \<open>TrackerClient\<close>: tracker.go as a locale, provided by the Linear
  adapter; an agent only ever works on an issue the service has answered.
  \<open>ClaudeStream\<close>: client.go, parse.go, tail.go; a turn reports its start once, its
  usage once and ends whatever the stream does. \<open>StreamLine\<close>: the bytes of that stream; no text in
  a message can pass for a line of its own. \<open>ErrorCodes\<close>: the error codes of the packages. \<open>Runner\<close>: runner.go; a run stays
  within its turn budget and closes its session; a hook whose context is done is not started. \<open>AgentRun\<close>: backend.go; the runner
  on the client, whose turns share one agent session. \<open>Prompt\<close>,
  \<open>PromptCheck\<close>, \<open>PromptStrict\<close>, \<open>PromptRender\<close>: strict.go,
  prompt.go; a template with an unknown variable never reaches the agent.

  The orchestrator. \<open>Orchestrator\<close>, \<open>Handlers\<close>: state.go,
  orchestrator.go, reconcile.go, snapshot.go, events.go; the record \<open>orch\<close> is the Go
  struct, with the effects of a handler (spawned worker, armed timer, cancellation, clean-up,
  reply) listed in \<open>o_out\<close>, and \<open>env\<close> holds what the clock and the
  tracker answer during one event. \<open>OrchInv\<close>: the invariant of the state, kept by
  every handler. \<open>Scheduling\<close>, \<open>Dispatch\<close>: the selection a tick makes,
  specified by \<open>select\<close> and refined by the dispatch loop.
  \<open>ClaimMachine\<close>: the claim states of an issue as an inductive step relation, refined
  by the handlers, and the balance of spawns and timers. \<open>System\<close>: the loop with its
  channel, workers and timers as an inductive transition system; properties of all interleavings
  are proved over its reachable states. \<open>Workers\<close>: the same system with the worker
  goroutines running the code of the runner; it refines the other and can always come to rest.
  \<open>Fetches\<close>: the tracker calls a handler waits for; its result depends on nothing else of the tracker.
  \<open>Polling\<close>: the same system with the poll timer and the ticks it sends, and turns that take place when
  their tracker calls return; the next tick is always due, and is reached if every call returns; a
  tracker that never finishes its pages holds the loop.
  \<open>Lifecycle\<close>: what each handler makes of an issue, back-off, reconciliation,
  shutdown. \<open>Accounting\<close>: token totals, activity and snapshots.
  \<open>SystemBounds\<close>: along every run of the system the agents stay within the limits and
  no token report is lost. \<open>HttpServer\<close>: observe.go, server.go, detail.go.
  \<open>HttpMux\<close>: the redirects of the mux, serving and shutting down.
  \<open>Dashboard\<close>: dashboard.go, the page as a list of template text and escaped data;
  data cannot become markup. \<open>ApiText\<close>: the bytes of the JSON answers. \<open>Status\<close>: status.go.
  \<open>Logging\<close>: logging.go; a failing sink does not disturb the others, and a record is one
  line. \<open>Startup\<close>: main.go from its command line on, watcher.go. \<open>Samples\<close>: a small concrete orchestrator for the witnesses. This theory
  holds the properties that span parts.

  Bounds and fuel. Only the JSON parser uses fuel, the length of its text, which is enough for every
  text (\<open>Json.fuel_enough\<close>). Loops end by structure or by a measure (the turn loop by
  its remaining turns, the scanners by the length of the text); pagination need not end and is a
  partial function into option, with a theorem that says when it returns. The consume loop of a turn
  recurses over the sequence of what its select receives, which is finite in a finite run. A line is at
  most ten megabytes and a JSON text nested at most 10000 deep, as in the code and its library.

  Assumptions of the model. Integers have 64 bits, and wrap around where the code multiplies or
  converts (durations, \<^verbatim>\<open>UnixNano\<close>) and where it adds reported tokens; counters of turns, attempts
  and entries are taken not to overflow. A handler reads the clock once. A handler's \<open>env\<close> holds the
  answers of tracker calls that have returned; a call that does not return holds the loop
  (\<open>Fetches\<close>, \<open>Polling\<close>), which the transition systems of the other theories see as a turn not taken.
  Floating-point values are exact (seconds running; a back-off limit above 2 to the 53 milliseconds
  is rounded by the code). The HTTP exchange, the YAML decoder, the Liquid engine, the hook
  scripts, the file system, the environment and the agent process are parameters that answer
  through records or functions; they are indexed by the number of the call where equal calls may be
  answered differently.

  Not modelled. The log lines of the orchestrator's handlers, which nothing reads back; the HTTP
  protocol below requests and responses, the method CONNECT and escapes in URL paths; signals,
  which are the end of the context, and the fsnotify subscription, which is what the watch loop
  receives; the escapes of \<^verbatim>\<open>%q\<close> for printable characters outside ASCII; the goroutines that feed
  the stdin and drain the pipes of the agent process. The terminal surface and the dashboard format
  the exact run time, where the code has the float64 sum.
\<close>

section \<open>Properties of the running system\<close>

definition ex_sys :: sys where
  "ex_sys = \<lparr>y_orch = scheduleTick 0 ex_orch, y_queue = [], y_workers = {#}, y_timers = {#}\<rparr>"

definition ex_sys_ticked :: sys where
  "ex_sys_ticked = process ex_env TickEvent [] (post TickEvent ex_sys)"

lemma ex_sys_reachable: "reachable ex_sys"
  unfolding ex_sys_def by (rule reachable.start [OF ex_orch_New ex_startup])

lemma ex_sys_ticked_reachable: "reachable ex_sys_ticked"
  unfolding ex_sys_ticked_def
proof (rule reachable.step)
  show "reachable (post TickEvent ex_sys)"
    by (rule reachable.step [OF ex_sys_reachable], rule sys_step.outside)
      (simp_all add: outside_event_def ex_sys_def queue_cap_def)
  show "sys_step (post TickEvent ex_sys) (process ex_env TickEvent [] (post TickEvent ex_sys))"
    by (rule loop_turn) (simp add: post_def ex_sys_def)
qed

lemma ex_sys_ticked_orch:
  "y_orch ex_sys_ticked = onTick ex_env (ex_orch\<lparr>o_out := []\<rparr>)" "y_queue ex_sys_ticked = []"
  by (simp_all add: ex_sys_ticked_def process_def post_def ex_sys_def Let_def scheduleTick_def)

lemma ex_clear [simp]: "ex_orch\<lparr>o_out := []\<rparr> = ex_orch"
  by (simp add: ex_orch_def)

lemma ex_ticked_claims [simp]:
  "claimed (y_orch ex_sys_ticked) = {''b'', ''c''}"
  "map_keys (running (y_orch ex_sys_ticked)) = {''b'', ''c''}"
  using onTick_running(1) [OF ex_inv, of ex_env]
  by (simp_all add: ex_sys_ticked_orch ex_tick_claimed ex_tick_picks)
    (simp add: ex_orch_def newRuntimeState_def map_keys_def)

text \<open>
  C1: At any moment an issue has exactly one worker, alive or with its exit still in the
  channel, if it is in the running map, and none otherwise: no issue is ever worked on
  twice at the same time.
\<close>

theorem one_worker_per_issue:
  assumes "reachable s"
  shows "count (y_workers s) iid + exits_in iid (y_queue s)
    = (if map_has (running (y_orch s)) iid then 1 else 0)"
  by (rule sys_inv_workers [OF reachable_inv [OF assms]])

theorem one_worker_per_issue_witness:
  "count (y_workers ex_sys_ticked) ''b'' = 1 \<and> count (y_workers ex_sys_ticked) ''a'' = 0"
  using one_worker_per_issue [OF ex_sys_ticked_reachable, of "''b''"]
    one_worker_per_issue [OF ex_sys_ticked_reachable, of "''a''"]
  by (simp add: ex_sys_ticked_orch(2))

text \<open>
  C8: No event of a worker or of a retry timer is ever dropped as unknown: when it reaches
  the head of the channel, the entry it is about is still there.
\<close>

theorem events_find_their_entry:
  assumes "reachable s" and "y_queue s = e # q"
  shows "case e of
      WorkerExit iid reason err \<Rightarrow> map_has (running (y_orch s)) iid
    | AgentUpdate iid m \<Rightarrow> map_has (running (y_orch s)) iid
    | RetryTimerFired iid \<Rightarrow> map_has (retries (y_orch s)) iid
    | _ \<Rightarrow> True"
proof -
  note inv = reachable_inv [OF assms(1)]
  have upd: "updates_live (y_workers s) (e # q)" using inv assms(2) by (simp add: sys_inv_def)
  show ?thesis
    using sys_inv_workers [OF inv] sys_inv_timers [OF inv] assms(2) upd
    by (cases e) (force split: if_splits)+
qed

theorem events_find_their_entry_witness:
  "case hd (y_queue (post (AgentUpdate ''b'' ex_event) ex_sys_ticked)) of
     AgentUpdate iid m \<Rightarrow> map_has (running (y_orch (post (AgentUpdate ''b'' ex_event) ex_sys_ticked))) iid
   | _ \<Rightarrow> False"
proof -
  have "count (y_workers ex_sys_ticked) ''b'' = 1"
    using sys_inv_workers [OF reachable_inv [OF ex_sys_ticked_reachable], of "''b''"]
    by (simp add: ex_sys_ticked_orch(2))
  then have "''b'' \<in># y_workers ex_sys_ticked" by (intro count_greater_zero_iff [THEN iffD1]) simp
  then have "reachable (post (AgentUpdate ''b'' ex_event) ex_sys_ticked)"
    by (intro reachable.step [OF ex_sys_ticked_reachable] worker_update)
      (simp_all add: ex_sys_ticked_orch(2) queue_cap_def)
  moreover have "y_queue (post (AgentUpdate ''b'' ex_event) ex_sys_ticked) = [AgentUpdate ''b'' ex_event]"
    by (simp add: post_def ex_sys_ticked_orch(2))
  ultimately show ?thesis using events_find_their_entry by fastforce
qed

text \<open>
  C2: No claim is stranded: a claimed issue is either worked on (its worker or its exit
  event is there) or waits for exactly one retry timer (armed, or fired and in the
  channel), never both and never neither.
\<close>

theorem no_stranded_claim:
  assumes "reachable s" and "iid \<in> claimed (y_orch s)"
  shows "count (y_workers s) iid + exits_in iid (y_queue s)
    + count (y_timers s) iid + fires_in iid (y_queue s) = 1"
proof -
  note inv = reachable_inv [OF assms(1)]
  have "orch_inv (y_orch s)" using inv by (simp add: sys_inv_def)
  with assms(2) have "(iid \<in> map_keys (running (y_orch s))) \<noteq> (iid \<in> map_keys (retries (y_orch s)))"
    by (auto dest: state_invD(3,4))
  then show ?thesis
    using sys_inv_workers [OF inv, of iid] sys_inv_timers [OF inv, of iid] by (auto split: if_splits)
qed

theorem no_stranded_claim_witness:
  "count (y_workers ex_sys_ticked) ''c'' + count (y_timers ex_sys_ticked) ''c'' = 1"
  using no_stranded_claim [OF ex_sys_ticked_reachable, of "''c''"]
  by (simp add: ex_sys_ticked_orch(2))

text \<open>
  C3: The number of agent processes never exceeds the number of running entries, and that never
  exceeds the largest limit that the first configuration or a reload has ever asked for, whatever
  ticks, retries, exits and reloads come in whatever order.
\<close>

theorem agents_within_limit:
  assumes "limited M s"
  shows "size (y_workers s) \<le> length (running (y_orch s)) \<and> int (length (running (y_orch s))) \<le> M"
  using limited_in_limit [OF assms] workers_le_running [OF reachable_inv [OF limited_reachable [OF assms]]]
  by (simp add: in_limit_def)

theorem agents_within_limit_witness: "int (length (running (y_orch ex_sys_ticked))) \<le> 2"
proof -
  have "limited 2 ex_sys"
    unfolding ex_sys_def by (rule limited.start [OF ex_orch_New ex_startup]) (simp_all add: ex_cfg_def)
  then have "limited 2 (post TickEvent ex_sys)"
    by (rule limited.step, intro sys_step.outside)
      (simp_all add: outside_event_def ex_sys_def queue_cap_def post_def reload_within_def)
  then have "limited 2 ex_sys_ticked"
    unfolding ex_sys_ticked_def
    by (rule limited.step, intro loop_turn) (simp_all add: post_def ex_sys_def process_def Let_def)
  from agents_within_limit [OF this] show ?thesis by simp
qed

lemma ex_metered: "metered ex_sys_ticked []"
proof -
  have "metered ex_sys []" unfolding ex_sys_def by (rule metered.start [OF ex_orch_New ex_startup])
  then have "metered (post TickEvent ex_sys) ([] @ newly_sent ex_sys (post TickEvent ex_sys))"
    by (rule metered.step, intro sys_step.outside) (simp_all add: outside_event_def ex_sys_def queue_cap_def)
  then have "metered ex_sys_ticked (([] @ newly_sent ex_sys (post TickEvent ex_sys))
      @ newly_sent (post TickEvent ex_sys) ex_sys_ticked)"
    unfolding ex_sys_ticked_def by (rule metered.step, intro loop_turn) (simp add: post_def ex_sys_def)
  then show ?thesis by (simp add: newly_sent_def post_def ex_sys_def ex_sys_ticked_def process_def Let_def)
qed

text \<open>
  C4: No token is lost or counted twice: at any moment the reports of all workers so far, in the order
  they were sent, are those the service has counted followed by those still in the channel, and each
  of the three totals is the sum over the counted ones, in Go's 64-bit arithmetic (so exactly the sum
  unless it leaves the range of an int); exits, retries, reloads and ticks change nothing of it.
\<close>

theorem every_report_counted:
  assumes "metered s reports"
  shows "\<exists>counted. reports = counted @ queued_usages (y_queue s)
    \<and> tt_InputTokens (rs_ClaudeTotals (o_state (y_orch s))) = wrap64 (\<Sum>u \<leftarrow> counted. u_InputTokens u)
    \<and> tt_OutputTokens (rs_ClaudeTotals (o_state (y_orch s))) = wrap64 (\<Sum>u \<leftarrow> counted. u_OutputTokens u)
    \<and> tt_TotalTokens (rs_ClaudeTotals (o_state (y_orch s))) = wrap64 (\<Sum>u \<leftarrow> counted. u_TotalTokens u)"
  using metered_counted [OF assms]
  by (auto simp: total_tokens_def wrap_tokens_def sum_usage_tokens Let_def)

theorem every_report_counted_witness:
  "tt_TotalTokens (rs_ClaudeTotals (o_state (y_orch (process ex_env (AgentUpdate ''b'' ex_event) []
     (post (AgentUpdate ''b'' ex_event) ex_sys_ticked))))) = 15"
proof -
  let ?e = "AgentUpdate ''b'' ex_event"
  let ?t = "post ?e ex_sys_ticked"
  let ?u = "process ex_env ?e [] ?t"
  have "count (y_workers ex_sys_ticked) ''b'' = 1"
    using sys_inv_workers [OF reachable_inv [OF ex_sys_ticked_reachable], of "''b''"]
    by (simp add: ex_sys_ticked_orch(2) gm.in_keys [symmetric] map_has_def)
  then have "''b'' \<in># y_workers ex_sys_ticked" by (metis count_eq_zero_iff zero_neq_one)
  then have "sys_step ex_sys_ticked ?t" by (rule worker_update) (simp add: ex_sys_ticked_orch(2) queue_cap_def)
  from metered.step [OF ex_metered this]
  have "metered ?t (event_usages ex_event)"
    by (simp add: newly_sent_def post_def ex_sys_ticked_orch(2))
  moreover have "sys_step ?t ?u" by (rule loop_turn) (simp add: post_def ex_sys_ticked_orch(2))
  ultimately have m: "metered ?u (event_usages ex_event @ newly_sent ?t ?u)" by (rule metered.step)
  have "newly_sent ?t ?u = []" "queued_usages (y_queue ?u) = []"
    by (simp_all add: newly_sent_def process_def Let_def)
  with every_report_counted [OF m] show ?thesis
    by (auto simp: event_usages_def ex_event_def wrap64_def)
qed

definition ex_labelled :: issue_node where
  "ex_labelled = (ex_node ''a'')\<lparr>n_Labels := Some [''ai'']\<rparr>"

definition ex_one_page :: tracker_env where
  "ex_one_page = \<lparr>te_Marshal = (\<lambda>_. Inr []), te_HTTP = (\<lambda>k r. Inr ([], 200)),
     te_Decode = (\<lambda>b. Inr \<lparr>gr_Data = Some \<lparr>pg_Nodes = [ex_labelled], pg_HasNextPage = False, pg_EndCursor = None\<rparr>,
       gr_Errors = []\<rparr>)\<rparr>"

definition ex_endless_pages :: tracker_env where
  "ex_endless_pages = ex_one_page\<lparr>te_Decode := \<lambda>b. Inr \<lparr>gr_Data = Some \<lparr>pg_Nodes = [ex_labelled],
     pg_HasNextPage = True, pg_EndCursor = Some ''c''\<rparr>, gr_Errors = []\<rparr>\<rparr>"

lemma ex_answering: "answering ((=) ex_one_page)"
  by (auto simp: answering_def te_fetch_def FetchCandidateIssues_def FetchIssuesByStates_def
      FetchIssueStatesByIDs_def paginateIssues_def paginateWith.simps linear_do_def ex_one_page_def
      split: fetch.split)

lemma ex_never_lists: "never_lists ((=) ex_endless_pages) c"
proof -
  define cur where "cur = case_nat None (\<lambda>_. Some ''c'')"
  have "endless (linear_do ex_endless_pages c) query vars cur 0" for query vars
    by (simp add: endless_def linear_do_def ex_endless_pages_def ex_one_page_def announces_def cur_def)
  moreover have "None = cur 0" by (simp add: cur_def)
  ultimately have "paginateWith (linear_do ex_endless_pages c) query vars 0 None [] = None" for query vars
    using paginate_endless by (metis not_None_eq)
  then show ?thesis by (simp add: never_lists_def FetchCandidateIssues_def paginateIssues_def)
qed

definition ex_poller :: poller where
  "ex_poller = \<lparr>pl_sys = ex_sys, pl_armed = last_arm (o_out (scheduleTick 0 ex_orch)), pl_firing = 0\<rparr>"

lemma ex_poller_polling: "polling W ex_poller"
  unfolding ex_poller_def ex_sys_def by (rule polling.start [OF ex_orch_New ex_startup])

definition ex_ticking :: poller where
  "ex_ticking = \<lparr>pl_sys = post TickEvent ex_sys, pl_armed = None, pl_firing = 0\<rparr>"

lemma ex_ticking_polling: "polling W ex_ticking"
proof -
  have "pl_armed ex_poller = Some 0" by (simp add: ex_poller_def scheduleTick_def last_arm_append)
  from polling.step [OF ex_poller_polling poll_step.fires [OF this]]
  have "polling W (ex_poller\<lparr>pl_armed := None, pl_firing := Suc (pl_firing ex_poller)\<rparr>)" .
  then have "polling W (ex_poller\<lparr>pl_armed := None, pl_firing := Suc 0\<rparr>)" by (simp add: ex_poller_def)
  from polling.step [OF this poll_step.sends [of _ 0]] show ?thesis
    by (simp add: ex_ticking_def ex_poller_def ex_sys_def queue_cap_def)
qed

text \<open>
  C9: Polling does not stop while the tracker's calls return. Whatever the loop handles and whatever
  fails on the way, the next tick is due (its timer is armed, has fired, or the tick waits in the
  channel), and an armed timer waits for nothing or for the interval in force, also after a reload.
  If every tracker call returns, with issues or with an error, the loop takes its next turn whenever
  an event waits, and can reach the tick, even from a full channel. Only a call that does not return
  holds it: while the tracker never finishes the pages of the candidates, a tick under a valid
  configuration holds the loop for ever, whatever happens beside it.
\<close>

theorem polling_never_stops:
  assumes "polling W p"
  shows "tick_due p \<and> delay_ok p
    \<and> (answering W \<longrightarrow> (\<forall>e q. events p = e # q \<longrightarrow> (\<exists>env. poll_step W p (poll_turn env e q p)))
         \<and> (\<exists>t. (poll_step W)\<^sup>*\<^sup>* p t \<and> at_tick t))
    \<and> (at_tick p \<and> ValidateDispatch (o_cfg (y_orch (pl_sys p))) = None
         \<and> (\<forall>te. W te \<longrightarrow> FetchCandidateIssues (linear_do te (o_tracker (y_orch (pl_sys p)))) (o_tracker (y_orch (pl_sys p))) = None)
       \<longrightarrow> (\<forall>t. (poll_step W)\<^sup>*\<^sup>* p t \<longrightarrow> at_tick t \<and> y_orch (pl_sys t) = y_orch (pl_sys p)))"
proof -
  have due: "tick_due p" "delay_ok p" using polling_inv [OF assms] by simp_all
  have "\<forall>t. (poll_step W)\<^sup>*\<^sup>* p t \<longrightarrow> at_tick t \<and> y_orch (pl_sys t) = y_orch (pl_sys p)"
    if "at_tick p" "ValidateDispatch (o_cfg (y_orch (pl_sys p))) = None" "never_lists W (o_tracker (y_orch (pl_sys p)))"
    using held_for_ever [OF _ that] by blast
  then show ?thesis
    using due turn_taken [of W p] due_tick_reached [of W p] unfolding never_lists_def by blast
qed

theorem polling_never_stops_witness:
  "tick_due ex_poller \<and> delay_ok ex_poller \<and> (\<exists>t. (poll_step ((=) ex_one_page))\<^sup>*\<^sup>* ex_poller t \<and> at_tick t)
    \<and> Collect ((poll_step ((=) ex_endless_pages))\<^sup>*\<^sup>* ex_ticking) \<subseteq> {t. at_tick t \<and> y_orch (pl_sys t) = y_orch ex_sys}"
proof -
  have o: "o_cfg (y_orch ex_sys) = ex_cfg" "at_tick ex_ticking" "y_orch (pl_sys ex_ticking) = y_orch ex_sys"
    by (simp_all add: ex_sys_def ex_orch_def ex_ticking_def at_tick_def post_def)
  note a = polling_never_stops [OF ex_poller_polling [of "(=) ex_one_page"]]
  note b = polling_never_stops [OF ex_ticking_polling [of "(=) ex_endless_pages"], unfolded o(1,3)]
  have "\<forall>te. ex_endless_pages = te \<longrightarrow> FetchCandidateIssues (linear_do te c) c = None" for c
    using ex_never_lists [of c] unfolding never_lists_def .
  with b o(2) ex_valid have "\<forall>t. (poll_step ((=) ex_endless_pages))\<^sup>*\<^sup>* ex_ticking t
      \<longrightarrow> at_tick t \<and> y_orch (pl_sys t) = y_orch ex_sys"
    by (elim conjE) (erule mp, intro conjI)
  then have "Collect ((poll_step ((=) ex_endless_pages))\<^sup>*\<^sup>* ex_ticking)
      \<subseteq> {t. at_tick t \<and> y_orch (pl_sys t) = y_orch ex_sys}" by (intro subsetI CollectI) (drule CollectD, erule allE, erule mp)
  moreover have "\<exists>t. (poll_step ((=) ex_one_page))\<^sup>*\<^sup>* ex_poller t \<and> at_tick t"
    using a ex_answering by (elim conjE) (drule (1) mp, erule conjunct2)
  ultimately show ?thesis using conjunct1 [OF a] conjunct1 [OF conjunct2 [OF a]] by (intro conjI)
qed

text \<open>
  C7: Every event moves an issue's claim only along the transitions of the claim state
  machine: a tick may start an unclaimed issue, a worker's exit requeues or releases the
  issue it ran, a retry timer restarts or releases the issue it was armed for, and nothing
  else changes a claim.
\<close>

theorem handlers_refine_claims:
  assumes "reachable s"
  shows "claim_step e iid (claim_of (o_state (y_orch s)) iid) (claim_of (o_state (handle env e (y_orch s))) iid)
    \<and> (iid \<in> claimed (y_orch s) \<longleftrightarrow> claim_of (o_state (y_orch s)) iid \<noteq> Unclaimed)"
proof -
  have "orch_inv (y_orch s)" using reachable_inv [OF assms] by (simp add: sys_inv_def)
  then show ?thesis using handle_claim_step state_inv_claims by blast
qed

theorem handlers_refine_claims_witness:
  "claim_step TickEvent ''b'' Unclaimed (claim_of (o_state (handle ex_env TickEvent (y_orch ex_sys))) ''b'')"
proof -
  have "claim_of (o_state (y_orch ex_sys)) ''b'' = Unclaimed"
    by (simp add: claim_of_def ex_sys_def ex_orch_def newRuntimeState_def)
  then show ?thesis using handlers_refine_claims [OF ex_sys_reachable, of TickEvent "''b''" ex_env] by simp
qed

text \<open>
  A service that starts has validated its settings, has removed the workspaces of the
  issues the tracker reports as terminal and of no others, has armed an immediate tick, and
  has nothing running, claimed or queued; it fails to start exactly when validation fails.
\<close>

theorem startup_outcome:
  assumes "orch_New cfg tmpl = Inr ob"
  shows "(\<forall>e. run_startup env ob = Inl e \<longleftrightarrow> ValidateDispatch cfg = Some e)
    \<and> (\<forall>ob'. run_startup env ob = Inr ob' \<longrightarrow> running ob' = [] \<and> claimed ob' = {} \<and> retries ob' = []
        \<and> o_out ob' = map (\<lambda>i. ECleanup (i_Identifier i))
            (case e_by_states env (o_tracker ob) (tc_TerminalStates (c_Tracker cfg)) of
               Inl _ \<Rightarrow> [] | Inr issues \<Rightarrow> issues) @ [EArmTick 0])"
  using assms
  by (auto simp: orch_New_def run_startup_def startupTerminalCleanup_def newRuntimeState_def
      scheduleTick_def split: sum.splits option.splits)

theorem startup_outcome_witness:
  "\<exists>ob'. run_startup ex_env ex_orch = Inr ob' \<and> o_out ob' = [EArmTick 0]"
  using startup_outcome [OF ex_orch_New, of ex_env] ex_startup by (auto simp: ex_env_def)

section \<open>Properties that span the layers\<close>

text \<open>An issue node that a relation of type blocks keeps from starting.\<close>

definition node_blocked :: "config \<Rightarrow> issue_node \<Rightarrow> bool" where
  "node_blocked cfg n \<longleftrightarrow>
     map_option NormalizeState (n_State n) = Some ''todo''
     \<and> (\<exists>rels rel. n_Inverse n = Some rels \<and> rel \<in> set rels \<and> is_blocks rel
          \<and> (\<forall>a b s. rn_Related rel = Some (a, b, Some s) \<longrightarrow> \<not> isTerminalState cfg s))"

lemma blocked_not_eligible:
  assumes "node_blocked cfg n"
  shows "\<not> isEligible cfg (normalizeIssue n)"
proof -
  obtain rels rel where rel: "n_Inverse n = Some rels" "rel \<in> set rels" "is_blocks rel"
    and open_rel: "\<forall>a b s. rn_Related rel = Some (a, b, Some s) \<longrightarrow> \<not> isTerminalState cfg s"
    using assms unfolding node_blocked_def by blast
  have "normalize_blocker rel \<in> set (i_BlockedBy (normalizeIssue n))"
    using rel by (auto simp: normalizeIssue_def)
  moreover have "\<not> isTerminalBlocker cfg (normalize_blocker rel)"
    using open_rel by (auto simp: isTerminalBlocker_def normalize_blocker_def non_empty_def split: option.splits)
  ultimately have "\<not> list_all (isTerminalBlocker cfg) (i_BlockedBy (normalizeIssue n))"
    by (auto simp: list_all_iff)
  moreover have "NormalizeState (i_State (normalizeIssue n)) = ''todo''"
    using assms by (auto simp: node_blocked_def normalizeIssue_def)
  ultimately show ?thesis by (simp add: isEligible_def)
qed

text \<open>
  C6: Agents work on what the tracker said. Whatever event starts a worker while the candidates
  are those the Linear adapter fetches, its issue is the normal form of a node on a page that the
  configured endpoint answered with status 200 and no GraphQL errors; it is eligible, not running
  yet, and no blocking relation to an issue outside the terminal states (or in an unknown state)
  holds it back.
\<close>

theorem agents_work_on_answered_issues:
  assumes "reachable s" and "(i, a) \<in> set (new_spawns env e (y_orch s))"
    and "FetchCandidateIssues (linear_do te (o_tracker (y_orch s))) (o_tracker (y_orch s))
      = Some (e_candidates env (o_tracker (y_orch s)))"
  shows "i_ID i \<notin> map_keys (running (y_orch s)) \<and> isEligible (o_cfg (y_orch s)) i
    \<and> (\<exists>n. answered_node te (o_tracker (y_orch s)) n \<and> i = normalizeIssue n
         \<and> \<not> node_blocked (o_cfg (y_orch s)) n)"
proof -
  have inv: "orch_inv (y_orch s)" using reachable_inv [OF assms(1)] by (simp add: sys_inv_def)
  show ?thesis
    using linear.spawned_presented [OF inv assms(2), of te] assms(3) blocked_not_eligible
    by (auto simp: answered_issue_def)
qed

definition ex_linear_env :: env where
  "ex_linear_env = ex_env\<lparr>e_candidates := \<lambda>_. Inr [normalizeIssue ex_labelled]\<rparr>"

lemma ex_linear_spawns: "new_spawns ex_linear_env TickEvent (y_orch ex_sys) = [(normalizeIssue ex_labelled, None)]"
proof -
  let ?i = "normalizeIssue ex_labelled"
  let ?ob = "y_orch ex_sys"
  have i: "i_ID ?i = ''a''" "i_State ?i = ''todo''" "isEligible ex_cfg ?i"
    by (simp_all add: ex_labelled_def ex_node_def normalizeIssue_def isEligible_def isActiveState_def
        isTerminalState_def containsNormalized_def matchesAssignee_def hasRequiredLabels_def ex_cfg_def
        NormalizeState_def Let_def str_eval)
  have "state_of ?i = ''todo''" by (simp add: state_of_def i NormalizeState_def str_eval)
  then have "select ex_cfg 2 {} [] [?i] = [?i]" using i by (simp add: selectable_def)
  moreover have "reconcile ex_linear_env ?ob = ?ob"
    by (simp add: reconcile_def stall_detection_def state_refresh_def ex_sys_def ex_orch_def scheduleTick_def
        newRuntimeState_def map_vals_def Let_def)
  moreover have "tick_candidates ex_linear_env ?ob = [?i]"
    by (simp add: tick_candidates_def ex_sys_def ex_orch_def ex_linear_env_def)
  moreover have "running_states ?ob = []" "claimed ?ob = {}" "o_cfg ?ob = ex_cfg"
    "rs_MaxConcurrentAgents (o_state ?ob) = 2"
    by (simp_all add: running_states_def ex_sys_def ex_orch_def newRuntimeState_def)
  moreover have "sortForDispatch [?i] = [?i]" by (simp add: sortForDispatch_def)
  ultimately have "tick_picks ex_linear_env ?ob = [?i]"
    by (simp only: tick_picks_def picks_def)
  moreover have "orch_inv ?ob" using reachable_inv [OF ex_sys_reachable] by (simp add: sys_inv_def)
  ultimately show ?thesis by (simp add: new_spawns_def onTick_spawned)
qed

theorem agents_work_on_answered_issues_witness:
  "\<exists>n. answered_node ex_one_page ex_tracker n \<and> normalizeIssue ex_labelled = normalizeIssue n
     \<and> \<not> node_blocked ex_cfg n"
proof -
  have o: "o_tracker (y_orch ex_sys) = ex_tracker" "o_cfg (y_orch ex_sys) = ex_cfg"
    by (simp_all add: ex_sys_def ex_orch_def)
  have spawns: "(normalizeIssue ex_labelled, None) \<in> set (new_spawns ex_linear_env TickEvent (y_orch ex_sys))"
    by (simp add: ex_linear_spawns)
  have "FetchCandidateIssues (linear_do ex_one_page ex_tracker) ex_tracker = Some (e_candidates ex_linear_env ex_tracker)"
    by (simp add: FetchCandidateIssues_def paginateIssues_def paginateWith.simps linear_do_def ex_one_page_def
        ex_linear_env_def)
  then show ?thesis
    using agents_work_on_answered_issues [OF ex_sys_reachable spawns, of ex_one_page] unfolding o by blast
qed

lemma fold_updates_tokens:
  "map_has (running ob) iid \<Longrightarrow>
     total_tokens (fold (onAgentUpdate iid) evs ob) = fold count_usage (usages evs) (total_tokens ob)"
proof (induction evs arbitrary: ob)
  case (Cons m evs)
  then have "map_has (running (onAgentUpdate iid m ob)) iid" using onAgentUpdate_keys by simp
  with Cons show ?case by (simp add: onAgentUpdate_tokens usages_def event_usages_def split: option.split)
qed (simp add: usages_def)

text \<open>
  From the agent's stream to the totals: when all events of a successful turn have been
  handled for a running issue, the token totals have grown by the usage of the turn's final
  result, once (in 64-bit arithmetic), whatever usage the messages before it mentioned.
\<close>

theorem turn_usage_reaches_totals:
  assumes "map_has (running ob) iid"
    and "cs_Outcome (consume parse enc c pid turn sid False 0 False xs) = Some (Inr u)"
  shows "total_tokens
      (fold (onAgentUpdate iid) (cs_Emitted (consume parse enc c pid turn sid False 0 False xs)) ob)
    = (case u of None \<Rightarrow> total_tokens ob | Some v \<Rightarrow> wrap_tokens (total_tokens ob + usage_tokens v))"
  using consume_shape [of parse enc c pid turn sid False 0 False xs]
  by (simp add: assms(2) fold_updates_tokens [OF assms(1)] turn_shape_usages count_usage_def
      split: option.split)

theorem turn_usage_reaches_totals_witness:
  "total_tokens (fold (onAgentUpdate ''b'') (cs_Emitted (consume ex_parse (\<lambda>_. None) ex_client ''1'' ''1''
      PendingID False 0 False [(1, SLine ''r'')])) ex_ticked) = wrap_tokens (total_tokens ex_ticked + Tokens 7 2 9)"
proof -
  have "contains_str ''success'' ''error'' = False" "to_lower ''success'' = ''success''"
    by (simp_all add: has_prefix_def str_eval)
  then have out: "cs_Outcome (consume ex_parse (\<lambda>_. None) ex_client ''1'' ''1'' PendingID False 0 False [(1, SLine ''r'')])
      = Some (Inr (Some \<lparr>u_InputTokens = 7, u_OutputTokens = 2, u_TotalTokens = 9\<rparr>))"
    by (simp add: ex_parse_def ex_result_event_def handleEvent_def Let_def isErrorResult_def extractUsage_def
        usageFromMap_def vget_def map_get_def asInt_def int_of_float_def in_int64_def min_int64_def max_int64_def wrap64_def)
  have "map_has (running ex_ticked) ''b''" by (simp add: gm.get_SomeD [OF ex_running])
  then show ?thesis
    by (subst turn_usage_reaches_totals [OF _ out]) (simp_all add: usage_tokens_def)
qed

lemma fold_updates_limits:
  assumes "any_json (rs_ClaudeRateLimits (o_state ob)) \<noteq> None" and "\<forall>m \<in> set evs. any_json (ev_RateLimits m) \<noteq> None"
  shows "any_json (rs_ClaudeRateLimits (o_state (fold (onAgentUpdate iid) evs ob))) \<noteq> None"
  using assms
proof (induction evs arbitrary: ob)
  case (Cons m evs)
  then have "any_json (rs_ClaudeRateLimits (o_state (onAgentUpdate iid m ob))) \<noteq> None"
    by (auto simp: onAgentUpdate_def split: option.split)
  with Cons show ?case by simp
qed simp

text \<open>
  C5: From the bytes an agent writes to the bytes a client of the service reads. When the process
  of a running issue writes any messages and then its result, one JSON document a line, then
  after its events have been handled the state resource answers with a document whose totals are
  those of before plus the tokens of that result, added once as Go's 64-bit integers are added (the
  exact sum unless it leaves the range of an int); no text inside a message can add to them, end the
  turn or spoil the answer.
\<close>

theorem agent_bytes_reach_client:
  assumes "map_has (running ob) iid" and "any_json (rs_ClaudeRateLimits (o_state ob)) \<noteq> None"
    and "list_all step_doc ds" and "short_doc (result_doc sid i r c n)"
    and "exact i" and "exact r" and "exact c" and "exact n"
    and "evs = cs_Emitted (consume parse_line json_text cl pid turn PendingID False 0 False
      (map (Pair ts) (stdout_stimuli (write_lines (map marshal (ds @ [result_doc sid i r c n]))))))"
    and "pv_Snapshot pv = Inr (buildSnapshot now (o_state (fold (onAgentUpdate iid) evs ob)))"
  shows "\<exists>d. read_doc (snd (response_bytes (snd (ServeHTTP pv ''GET'' (api_prefix @ ''state''))))) = Some d
    \<and> member ''input_tokens'' (member ''claude_totals'' d) = jint (wrap64 (tk_in (total_tokens ob) + (i + r + c)))
    \<and> member ''output_tokens'' (member ''claude_totals'' d) = jint (wrap64 (tk_out (total_tokens ob) + n))
    \<and> member ''total_tokens'' (member ''claude_totals'' d) = jint (wrap64 (tk_total (total_tokens ob) + (i + r + c + n)))"
proof -
  let ?ob = "fold (onAgentUpdate iid) evs ob" and ?sn = "buildSnapshot now (o_state (fold (onAgentUpdate iid) evs ob))"
  have "total_tokens ?ob = wrap_tokens (total_tokens ob + usage_tokens (usage_of_result i r c n))"
    using turn_usage_reaches_totals [OF assms(1) turn_counts_result [OF assms(3-8)]] by (simp add: assms(9))
  then have totals: "tt_InputTokens (sn_ClaudeTotals ?sn) = wrap64 (tk_in (total_tokens ob) + (i + r + c))"
    "tt_OutputTokens (sn_ClaudeTotals ?sn) = wrap64 (tk_out (total_tokens ob) + n)"
    "tt_TotalTokens (sn_ClaudeTotals ?sn) = wrap64 (tk_total (total_tokens ob) + (i + r + c + n))"
    by (simp_all add: total_tokens_def buildSnapshot_def Let_def plus_tokens_def wrap_tokens_def usage_tokens_def usage_of_result_def)
  have "any_json (sn_RateLimits ?sn) \<noteq> None"
    using fold_updates_limits [OF assms(2), of evs iid] consume_limits by (simp add: assms(9) buildSnapshot_def Let_def)
  then obtain j where j: "snapshot_json ?sn = Some j" by (auto simp: snapshot_json_def)
  show ?thesis
    using state_answer [OF assms(10) j] state_totals_read [OF j] by (auto simp: totals_read_def totals Let_def)
qed

theorem agent_bytes_reach_client_witness:
  "\<exists>pv d. read_doc (snd (response_bytes (snd (ServeHTTP pv ''GET'' (api_prefix @ ''state''))))) = Some d
    \<and> member ''total_tokens'' (member ''claude_totals'' d) = jint 9"
proof -
  let ?evs = "cs_Emitted (consume parse_line json_text ClaudeStream.ex_client ''1'' ''1'' PendingID False 0 False
      (map (Pair 1) (stdout_stimuli (write_lines (map marshal ([ex_message] @ [result_doc ''s'' 7 0 0 2]))))))"
  let ?ob = "on_state (\<lambda>s. s\<lparr>rs_ClaudeRateLimits := VNil\<rparr>) ex_ticked"
  let ?pv = "\<lparr>pv_Snapshot = Inr (buildSnapshot 1 (o_state (fold (onAgentUpdate ''b'') ?evs ?ob))), pv_Refresh = True,
      pv_Now = 1\<rparr>"
  have run: "map_has (running ?ob) ''b''" using gm.get_SomeD [OF ex_running] by simp
  have limits: "any_json (rs_ClaudeRateLimits (o_state ?ob)) \<noteq> None" by simp
  have "total_tokens ?ob = total_tokens ex_orch"
    using onTick_totals [of ex_env ex_orch] by (simp add: ex_ticked_def total_tokens_def Let_def)
  also have "total_tokens ex_orch = 0" by (simp add: total_tokens_def ex_orch_def newRuntimeState_def zero_tokens_def zero_totals_def)
  finally have zero: "total_tokens ?ob = 0" .
  have docs: "list_all step_doc [ex_message]" by (simp add: ex_stream_docs)
  have exact: "exact 7" "exact 0" "exact 2" by (simp_all add: exact_def)
  from agent_bytes_reach_client [OF run limits docs ex_stream_docs(2) exact(1,2,2,3) refl, of ?pv 1
      ClaudeStream.ex_client "''1''" "''1''" 1] zero
  show ?thesis by (auto simp: wrap64_def)
qed

text \<open>
  From the configuration to the agent: a worker dispatched under an accepted
  configuration takes at most the number of turns configured for its issue's state (the
  override of that state if there is one, else the global budget), and that is at least one.
\<close>

theorem dispatched_run_budget:
  assumes "is_abs dir" and "config_New os raw dir = Inr cfg"
  shows "1 \<le> MaxTurnsForState cfg (i_State issue)
    \<and> int (length (turns_of (fst (run_worker we
          (NewRunner (runner_factory cfg tmpl ws tr issue)) issue attempt)))) \<le> MaxTurnsForState cfg (i_State issue)"
proof -
  let ?r = "runner_factory cfg tmpl ws tr issue"
  have pos: "1 \<le> MaxTurnsForState cfg (i_State issue)"
    using config_New_ok [OF assms] by (auto simp: config_ok_def MaxTurnsForState_def split: option.splits)
  have "rn_maxTurns (NewRunner ?r) = MaxTurnsForState cfg (i_State issue)"
    using pos by (simp add: NewRunner_def runner_factory_def Let_def)
  moreover have "int (length (turns_of (fst (run_worker we (NewRunner ?r) issue attempt)))) \<le> max 1 (rn_maxTurns (NewRunner ?r))"
    by (rule run_worker_turns)
  ultimately show ?thesis using pos by simp
qed

theorem dispatched_run_budget_witness:
  "\<exists>cfg. config_New ex_os ex_raw ''/d'' = Inr cfg
     \<and> int (length (turns_of (fst (run_worker ex_we (NewRunner (runner_factory cfg ''t'' ex_manager ex_tracker
          ex_worker_issue)) ex_worker_issue None)))) \<le> MaxTurnsForState cfg (i_State ex_worker_issue)"
proof -
  have "is_abs ''/d''" by (simp add: is_abs_def)
  then show ?thesis using ex_config dispatched_run_budget by blast
qed

text \<open>
  C19: From the loop to its observers: the snapshot a running service answers shows every
  claimed issue in exactly one row, running or waiting, and no other issue; and whatever
  reply a caller gets from it, the detail of an identifier is found exactly if an issue
  with that identifier is claimed, showing it as running if one is.
\<close>

theorem observers_see_claims:
  assumes "reachable s" and "y_queue s = SnapshotRequest # q"
    and "o_out (y_orch (process env SnapshotRequest q s)) = [EReply reply]"
    and "(sent, Inr sn) \<in> Snapshot room done1 (Some reply) timed_out done2"
    and "ident \<notin> {[], ''state'', ''refresh''}"
  shows "distinct (map rr_IssueID (sn_Running sn) @ map ry_IssueID (sn_Retrying sn))
    \<and> set (map rr_IssueID (sn_Running sn) @ map ry_IssueID (sn_Retrying sn)) = claimed (y_orch s)
    \<and> hr_Body (snd (ServeHTTP \<lparr>pv_Snapshot = Inr sn, pv_Refresh = b, pv_Now = t\<rparr> ''GET'' (api_prefix @ ident)))
      \<in> (if \<exists>p \<in> set (running (y_orch s)). re_Identifier (snd p) = ident
          then JsonBody ` running_detail ` running_row_of ` {p \<in> set (running (y_orch s)). re_Identifier (snd p) = ident}
          else if \<exists>p \<in> set (retries (y_orch s)). rt_Identifier (snd p) = ident
          then JsonBody ` retry_detail ` retry_row_of ` {p \<in> set (retries (y_orch s)). rt_Identifier (snd p) = ident}
          else {ErrorBody ''issue_not_found'' (''issue '' @ go_quote ident @ '' is not tracked in current state'')})"
proof -
  have inv: "state_inv (o_state (y_orch s))" using reachable_inv [OF assms(1)] by (simp add: sys_inv_def)
  have sn: "sn = buildSnapshot (e_now env) (o_state (y_orch s))"
    using Snapshot_outcome [OF assms(4)] assms(3) by (simp add: process_def Let_def)
  have "ServeHTTP \<lparr>pv_Snapshot = Inr sn, pv_Refresh = b, pv_Now = t\<rparr> ''GET'' (api_prefix @ ident) =
      handleIssueDetail \<lparr>pv_Snapshot = Inr sn, pv_Refresh = b, pv_Now = t\<rparr> ''GET'' ident"
    using assms(5) by (simp add: ServeHTTP_api)
  moreover have "hr_Body (snd (handleIssueDetail \<lparr>pv_Snapshot = Inr sn, pv_Refresh = b, pv_Now = t\<rparr> ''GET'' ident)) =
      (case buildIssueDetail sn ident of
         None \<Rightarrow> ErrorBody ''issue_not_found'' (''issue '' @ go_quote ident @ '' is not tracked in current state'')
       | Some d \<Rightarrow> JsonBody d)"
    using assms(5) by (simp add: handleIssueDetail_def writeError_def split: option.split)
  ultimately show ?thesis
    using rows_distinct [OF inv, of "e_now env"] buildIssueDetail_cases [of "o_state (y_orch s)" ident "e_now env"]
    unfolding sn by (auto split: option.splits)
qed

theorem observers_see_claims_witness:
  "\<exists>sn :: snapshot. distinct (map rr_IssueID (sn_Running sn) @ map ry_IssueID (sn_Retrying sn))
     \<and> set (map rr_IssueID (sn_Running sn) @ map ry_IssueID (sn_Retrying sn)) = {''b'', ''c''}"
proof -
  let ?s = "post SnapshotRequest ex_sys_ticked"
  let ?sn = "buildSnapshot (e_now ex_env) (o_state (y_orch ex_sys_ticked))"
  have "reachable ?s"
    by (rule reachable.step [OF ex_sys_ticked_reachable], rule sys_step.outside)
      (simp_all add: outside_event_def ex_sys_ticked_orch(2) queue_cap_def)
  moreover have "y_queue ?s = [SnapshotRequest]" by (simp add: post_def ex_sys_ticked_orch(2))
  moreover have "o_out (y_orch (process ex_env SnapshotRequest [] ?s)) = [EReply ?sn]"
    by (simp add: process_def Let_def post_def)
  moreover have "(True, Inr ?sn) \<in> Snapshot True False (Some ?sn) False False"
    by (simp add: Snapshot_def offer_def await_def)
  ultimately have "distinct (map rr_IssueID (sn_Running ?sn) @ map ry_IssueID (sn_Retrying ?sn))
      \<and> set (map rr_IssueID (sn_Running ?sn) @ map ry_IssueID (sn_Retrying ?sn)) = claimed (y_orch ?s)"
    using observers_see_claims [where s = ?s and ident = "''X-1''" and sn = ?sn] by blast
  then show ?thesis by - (rule exI [where x = ?sn], simp add: post_def)
qed

text \<open>
  From the tracker to the prompt: a creation timestamp in the format the tracker sends (UTC,
  whole seconds, a valid date) is read as the instant it denotes, which the scheduler sorts by,
  and a template prints it back character by character.
\<close>

theorem timestamp_round_trip:
  assumes "y < 10000" and "1 \<le> mo" and "mo \<le> 12" and "1 \<le> d" and "d \<le> days_in mo y"
    and "h < 24" and "mi < 60" and "s < 60"
    and "n_CreatedAt n = Some (format_rfc3339 y mo d h mi s)"
  shows "i_CreatedAt (normalizeIssue n) = Some (unix_seconds y mo d h mi s * 1000000000)
    \<and> vget (issue_binding (normalizeIssue n)) ''created_at'' = VStr (format_rfc3339 y mo d h mi s)"
proof -
  have t: "i_CreatedAt (normalizeIssue n) = Some (unix_seconds y mo d h mi s * 1000000000)"
    using parseTime_reads_back [OF assms(1-8)] assms(9) by (simp add: normalizeIssue_def)
  moreover have "format_time (unix_seconds y mo d h mi s * 1000000000) = format_rfc3339 y mo d h mi s"
    using format_unix [OF assms(1-8), of 0] by simp
  ultimately show ?thesis
    by (simp add: vget_def issue_binding_def map_get_def time_binding_def t)
qed

definition ex_node :: issue_node where
  "ex_node = \<lparr>n_ID = ''a'', n_Identifier = ''X-1'', n_Title = [], n_Description = None, n_Priority = VNil,
     n_BranchName = None, n_URL = None, n_CreatedAt = Some ''2024-02-29T12:30:05Z'', n_UpdatedAt = None,
     n_State = None, n_Assignee = None, n_Labels = None, n_Inverse = None\<rparr>"

theorem timestamp_round_trip_witness:
  "i_CreatedAt (normalizeIssue ex_node) = Some (1709209805 * 1000000000)
   \<and> vget (issue_binding (normalizeIssue ex_node)) ''created_at'' = VStr ''2024-02-29T12:30:05Z''"
proof -
  have f: "format_rfc3339 2024 2 29 12 30 5 = ''2024-02-29T12:30:05Z''"
    by (simp add: format_rfc3339_def pad4_def pad2_def num_char_def char_of_def bit_Suc_0_iff)
  have u: "unix_seconds 2024 2 29 12 30 5 = 1709209805"
    by (simp add: unix_seconds_def days_before_year_def days_before_month_def epoch_day_def
        upt_rec days_in_def leap_year_def)
  have n: "n_CreatedAt ex_node = Some (format_rfc3339 2024 2 29 12 30 5)" unfolding f by (simp add: ex_node_def)
  from timestamp_round_trip [OF _ _ _ _ _ _ _ _ n] show ?thesis
    unfolding f u by (simp add: days_in_def leap_year_def)
qed

end
